(* ===== verification/Prelude.thy ===== *)
theory Prelude
  imports Main "HOL-Library.Word" "HOL-Library.Signed_Division" "HOL-Library.AList"
    "HOL-Library.Sublist" "HOL-Library.List_Lexorder" "HOL-Library.Char_ord"
begin

text \<open>
  Shared vocabulary of the development: Go's machine integers and durations, Go errors as
  values, the decimal and string operations of the standard library that the program
  calls (\<open>strconv\<close>, \<open>strings\<close>, \<open>errors\<close>, \<open>fmt\<close>), Go maps as
  association lists in iteration order, and the generic lemmas about them.
\<close>

section \<open>Lemma collections\<close>

named_theorems go_simps \<open>equations of the standard library operations\<close>
named_theorems trace_simps \<open>equations of projections of call traces\<close>
named_theorems beh_intros \<open>rules for behaviours of processes\<close>

section \<open>Machine integers and durations\<close>

text \<open>
  The program runs on 64-bit targets: \<open>int\<close>, \<open>int64\<close> and \<open>time.Duration\<close>
  (nanoseconds) are 64-bit two's complement values. Points in time are unbounded
  nanosecond counts.
\<close>

type_synonym goint = "64 word"
type_synonym duration = "64 word"
type_synonym gotime = int

definition min_int64 :: int where "min_int64 = - (2 ^ 63)"
definition max_int64 :: int where "max_int64 = 2 ^ 63 - 1"

definition in_int64 :: "int \<Rightarrow> bool" where
  "in_int64 i \<longleftrightarrow> min_int64 \<le> i \<and> i \<le> max_int64"

lemma sint_of_int64: "in_int64 i \<Longrightarrow> sint (word_of_int i :: goint) = i"
  by (simp add: in_int64_def min_int64_def max_int64_def sint_sbintrunc'
      signed_take_bit_int_eq_self)

lemma in_int64_sint [simp]: "in_int64 (sint (w :: goint))"
  using sint_ge [of w] sint_lt [of w]
  by (simp add: in_int64_def min_int64_def max_int64_def)

text \<open>\<open>time.Time.Sub\<close> saturates at the ends of the \<open>Duration\<close> range.\<close>

definition time_sub :: "gotime \<Rightarrow> gotime \<Rightarrow> duration" where
  "time_sub t u = word_of_int (max min_int64 (min max_int64 (t - u)))"

text \<open>\<open>Duration.Milliseconds\<close> divides with truncation towards zero.\<close>

definition milliseconds :: "duration \<Rightarrow> goint" where
  "milliseconds d = word_of_int (sint d sdiv 1000000)"

section \<open>Errors\<close>

text \<open>
  A Go error is a sentinel, an error of code outside the repository (known by its text),
  the result of \<open>fmt.Errorf\<close> or \<open>errors.New\<close> (a sequence of pieces, of which
  \<open>%w\<close> operands are wrapped errors), or the result of \<open>errors.Join\<close>. An
  \<open>error\<close> variable is a \<^typ>\<open>'e option\<close>, with \<^const>\<open>None\<close> for \<open>nil\<close>.
\<close>

datatype 'e piece = Lit string | Quoted string | Num int | Wrapped 'e

datatype go_error =
    DeadlineExceeded
  | Canceled
  | RedisNil
  | ErrNoRows
  | External string
  | Errorf "go_error piece list"
  | Joined "go_error list"

text \<open>\<open>errors.Is\<close>: the error itself or one reached through wrapped operands.\<close>

primrec errors_Is :: "go_error \<Rightarrow> go_error \<Rightarrow> bool" where
  "errors_Is DeadlineExceeded = (\<lambda>t. t = DeadlineExceeded)"
| "errors_Is Canceled = (\<lambda>t. t = Canceled)"
| "errors_Is RedisNil = (\<lambda>t. t = RedisNil)"
| "errors_Is ErrNoRows = (\<lambda>t. t = ErrNoRows)"
| "errors_Is (External s) = (\<lambda>t. t = External s)"
| "errors_Is (Errorf ps) = (\<lambda>t. t = Errorf ps \<or>
     list_ex (\<lambda>p. case p of Wrapped f \<Rightarrow> f t | _ \<Rightarrow> False) (map (map_piece errors_Is) ps))"
| "errors_Is (Joined es) = (\<lambda>t. t = Joined es \<or> list_ex (\<lambda>f. f t) (map errors_Is es))"

lemma errors_Is_refl [simp]: "errors_Is e e"
  by (cases e) simp_all

text \<open>\<open>errors.Join\<close> is nil when every operand is; the program only joins non-nil errors.\<close>

definition errors_Join :: "go_error list \<Rightarrow> go_error option" where
  "errors_Join es = (if es = [] then None else Some (Joined es))"

lemma errors_Join_None [simp]: "errors_Join es = None \<longleftrightarrow> es = []"
  by (simp add: errors_Join_def)

section \<open>Decimal numbers\<close>

definition digit_char :: "nat \<Rightarrow> char" where
  "digit_char d = char_of (48 + d)"

definition digit_val :: "char \<Rightarrow> nat" where
  "digit_val c = of_char c - 48"

definition is_digit :: "char \<Rightarrow> bool" where
  "is_digit c \<longleftrightarrow> 48 \<le> (of_char c :: nat) \<and> (of_char c :: nat) \<le> 57"

fun nat_digits :: "nat \<Rightarrow> string" where
  "nat_digits n = (if n < 10 then [digit_char n]
     else nat_digits (n div 10) @ [digit_char (n mod 10)])"

declare nat_digits.simps [simp del]

definition digits_val :: "string \<Rightarrow> nat" where
  "digits_val s = foldl (\<lambda>acc c. 10 * acc + digit_val c) 0 s"

text \<open>\<open>strconv.Itoa\<close> and \<open>strconv.FormatInt(_, 10)\<close>.\<close>

definition itoa :: "int \<Rightarrow> string" where
  "itoa i = (if i < 0 then CHR ''-'' # nat_digits (nat (- i)) else nat_digits (nat i))"

text \<open>
  \<open>strconv.ParseInt(s, 10, 64)\<close> and \<open>strconv.Atoi\<close>: an optional sign, then one or
  more decimal digits, then the range check; the first argument is the function name that
  the error reports.
\<close>

definition num_error :: "string \<Rightarrow> string \<Rightarrow> string \<Rightarrow> go_error" where
  "num_error fn s why = Errorf [Lit ''strconv.'', Lit fn, Lit '': parsing '', Quoted s, Lit '': '', Lit why]"

definition parse_int :: "string \<Rightarrow> string \<Rightarrow> go_error + goint" where
  "parse_int fn s =
     (let (neg, ds) = (case s of [] \<Rightarrow> (False, [])
                       | c # cs \<Rightarrow> if c = CHR ''-'' then (True, cs)
                                   else if c = CHR ''+'' then (False, cs) else (False, s));
          v = (if neg then - int (digits_val ds) else int (digits_val ds))
      in if ds = [] \<or> \<not> list_all is_digit ds then Inl (num_error fn s ''invalid syntax'')
         else if in_int64 v then Inr (word_of_int v)
         else Inl (num_error fn s ''value out of range''))"

lemma of_char_digit [simp]: "d < 10 \<Longrightarrow> (of_char (digit_char d) :: nat) = 48 + d"
  by (simp add: digit_char_def)

lemma is_digit_digit_char [simp]: "d < 10 \<Longrightarrow> is_digit (digit_char d)"
  by (simp add: is_digit_def)

lemma digit_val_digit_char [simp]: "d < 10 \<Longrightarrow> digit_val (digit_char d) = d"
  by (simp add: digit_val_def)

lemma digits_val_snoc [simp]: "digits_val (s @ [c]) = 10 * digits_val s + digit_val c"
  by (simp add: digits_val_def)

lemma nat_digits_nonempty [simp]: "nat_digits n \<noteq> []"
  by (subst nat_digits.simps) simp

lemma nat_digits_are_digits [simp]: "list_all is_digit (nat_digits n)"
proof (induction n rule: nat_digits.induct)
  case (1 n)
  then show ?case by (cases "n < 10") (simp_all add: nat_digits.simps [of n])
qed

lemma digits_val_nat_digits [simp]: "digits_val (nat_digits n) = n"
proof (induction n rule: nat_digits.induct)
  case (1 n)
  then show ?case
    by (cases "n < 10") (simp_all add: nat_digits.simps [of n] digits_val_def [of "[_]"])
qed

lemma is_digit_not_sign: "is_digit c \<Longrightarrow> c \<noteq> CHR ''-'' \<and> c \<noteq> CHR ''+''"
  by (auto simp: is_digit_def)

text \<open>The round trip on which the \<open>exit_code\<close> and \<open>duration_ms\<close> payload entries rest.\<close>

lemma parse_int_itoa [simp]:
  assumes "in_int64 i"
  shows "parse_int fn (itoa i) = Inr (word_of_int i)"
proof (cases "i < 0")
  case True
  then show ?thesis using assms by (simp add: parse_int_def itoa_def)
next
  case False
  obtain c cs where s: "nat_digits (nat i) = c # cs"
    by (cases "nat_digits (nat i)") simp_all
  with nat_digits_are_digits [of "nat i"] have "is_digit c" by simp
  then have "c \<noteq> CHR ''-'' \<and> c \<noteq> CHR ''+''" by (rule is_digit_not_sign)
  moreover have "digits_val (c # cs) = nat i" using s digits_val_nat_digits [of "nat i"] by simp
  moreover have "list_all is_digit (c # cs)" using s nat_digits_are_digits [of "nat i"] by simp
  ultimately show ?thesis using False assms by (simp add: parse_int_def itoa_def s)
qed

corollary parse_int_itoa_sint [simp]: "parse_int fn (itoa (sint w)) = Inr w"
  by simp

section \<open>Strings\<close>

text \<open>Go strings are byte sequences; a \<^typ>\<open>char\<close> is a byte.\<close>

definition newline :: char where "newline = CHR 0x0A"

text \<open>\<open>strings.SplitSeq(s, sep)\<close> for a one-byte separator: one more field than separators.\<close>

fun split_on :: "char \<Rightarrow> string \<Rightarrow> string list" where
  "split_on c [] = [[]]"
| "split_on c (x # xs) =
     (if x = c then [] # split_on c xs
      else (case split_on c xs of [] \<Rightarrow> [[x]] | f # fs \<Rightarrow> (x # f) # fs))"

text \<open>\<open>strings.Cut(s, sep)\<close> for a one-byte separator.\<close>

fun cut :: "char \<Rightarrow> string \<Rightarrow> string \<times> string \<times> bool" where
  "cut c [] = ([], [], False)"
| "cut c (x # xs) =
     (if x = c then ([], xs, True) else (case cut c xs of (b, a, ok) \<Rightarrow> (x # b, if ok then a else [], ok)))"

text \<open>
  \<open>strings.TrimSpace\<close> removes leading and trailing white space as \<open>unicode.IsSpace\<close>
  defines it: six ASCII bytes and the UTF-8 encodings of U+0085, U+00A0, U+1680,
  U+2000 to U+200A, U+2028, U+2029, U+202F, U+205F and U+3000.
\<close>

definition space_seqs :: "string list" where
  "space_seqs =
     [[CHR 0x09], [CHR 0x0A], [CHR 0x0B], [CHR 0x0C], [CHR 0x0D], [CHR 0x20],
      [CHR 0xC2, CHR 0x85], [CHR 0xC2, CHR 0xA0], [CHR 0xE1, CHR 0x9A, CHR 0x80],
      [CHR 0xE2, CHR 0x80, CHR 0x80], [CHR 0xE2, CHR 0x80, CHR 0x81], [CHR 0xE2, CHR 0x80, CHR 0x82],
      [CHR 0xE2, CHR 0x80, CHR 0x83], [CHR 0xE2, CHR 0x80, CHR 0x84], [CHR 0xE2, CHR 0x80, CHR 0x85],
      [CHR 0xE2, CHR 0x80, CHR 0x86], [CHR 0xE2, CHR 0x80, CHR 0x87], [CHR 0xE2, CHR 0x80, CHR 0x88],
      [CHR 0xE2, CHR 0x80, CHR 0x89], [CHR 0xE2, CHR 0x80, CHR 0x8A], [CHR 0xE2, CHR 0x80, CHR 0xA8],
      [CHR 0xE2, CHR 0x80, CHR 0xA9], [CHR 0xE2, CHR 0x80, CHR 0xAF], [CHR 0xE2, CHR 0x81, CHR 0x9F],
      [CHR 0xE3, CHR 0x80, CHR 0x80]]"

fun strip_first :: "string list \<Rightarrow> string \<Rightarrow> string option" where
  "strip_first [] s = None"
| "strip_first (q # qs) s = (if q \<noteq> [] \<and> prefix q s then Some (drop (length q) s) else strip_first qs s)"

lemma strip_first_shorter: "strip_first qs s = Some t \<Longrightarrow> length t < length s"
  by (induction qs) (auto split: if_splits simp: prefix_def)

function trim_left :: "string list \<Rightarrow> string \<Rightarrow> string" where
  "trim_left qs s = (case strip_first qs s of None \<Rightarrow> s | Some t \<Rightarrow> trim_left qs t)"
  by pat_completeness auto
termination
  by (relation "measure (\<lambda>(qs, s). length s)") (auto dest: strip_first_shorter)

declare trim_left.simps [simp del]

definition TrimSpace :: "string \<Rightarrow> string" where
  "TrimSpace s = rev (trim_left (map rev space_seqs) (rev (trim_left space_seqs s)))"

lemma split_on_nonempty [simp]: "split_on c s \<noteq> []"
  by (induction s) (auto split: list.splits)

lemma split_on_no_sep [simp]: "c \<notin> set s \<Longrightarrow> split_on c s = [s]"
  by (induction s) auto

lemma split_on_append [simp]:
  "c \<notin> set s \<Longrightarrow> split_on c (s @ c # t) = s # split_on c t"
  by (induction s) auto

lemma split_on_fields: "f \<in> set (split_on c s) \<Longrightarrow> c \<notin> set f"
  by (induction s arbitrary: f) (auto split: if_splits list.splits)

lemma cut_found [simp]: "c \<notin> set k \<Longrightarrow> cut c (k @ c # v) = (k, v, True)"
  by (induction k) auto

lemma cut_not_found: "c \<notin> set s \<Longrightarrow> cut c s = (s, [], False)"
  by (induction s) auto

lemma cut_ok: "cut c s = (k, v, True) \<Longrightarrow> s = k @ c # v \<and> c \<notin> set k"
  by (induction s arbitrary: k v) (auto split: if_splits prod.splits)

lemma strip_first_None: "strip_first qs s = None \<longleftrightarrow> (\<forall>q \<in> set qs. q \<noteq> [] \<longrightarrow> \<not> prefix q s)"
  by (induction qs) auto

lemma trim_left_noop [simp]: "strip_first qs s = None \<Longrightarrow> trim_left qs s = s"
  by (simp add: trim_left.simps [of qs s])

text \<open>A string with no white space at either end is left alone.\<close>

definition trimmed :: "string \<Rightarrow> bool" where
  "trimmed s \<longleftrightarrow> strip_first space_seqs s = None \<and> strip_first (map rev space_seqs) (rev s) = None"

lemma TrimSpace_trimmed [simp]: "trimmed s \<Longrightarrow> TrimSpace s = s"
  by (simp add: TrimSpace_def trimmed_def)

lemma strip_first_Nil [simp]: "strip_first qs [] = None"
  by (induction qs) auto

lemma TrimSpace_Nil [simp]: "TrimSpace [] = []"
  by (simp add: TrimSpace_def)

section \<open>Maps\<close>

text \<open>
  A Go map with string keys is an association list with distinct keys. Its order is the
  order in which \<open>range\<close> happens to visit it, which Go leaves unspecified: what must
  not depend on it is proved for every order.
\<close>

type_synonym 'v gomap = "(string \<times> 'v) list"

definition gm_ok :: "'v gomap \<Rightarrow> bool" where
  "gm_ok m \<longleftrightarrow> distinct (map fst m)"

definition gm_get :: "'v \<Rightarrow> 'v gomap \<Rightarrow> string \<Rightarrow> 'v" where
  "gm_get zero m k = (case map_of m k of None \<Rightarrow> zero | Some v \<Rightarrow> v)"

definition gm_set :: "'v gomap \<Rightarrow> string \<Rightarrow> 'v \<Rightarrow> 'v gomap" where
  "gm_set m k v = AList.update k v m"

text \<open>\<open>maps.Copy(dst, src)\<close>.\<close>

definition maps_Copy :: "'v gomap \<Rightarrow> 'v gomap \<Rightarrow> 'v gomap" where
  "maps_Copy dst src = foldl (\<lambda>m (k, v). gm_set m k v) dst src"

lemma gm_ok_Nil [simp]: "gm_ok []"
  by (simp add: gm_ok_def)

lemma gm_ok_set [simp]: "gm_ok m \<Longrightarrow> gm_ok (gm_set m k v)"
  by (simp add: gm_ok_def gm_set_def distinct_update)

lemma map_of_gm_set [simp]: "map_of (gm_set m k v) = (map_of m)(k \<mapsto> v)"
  by (simp add: gm_set_def update_conv')

lemma gm_ok_Copy [simp]: "gm_ok m \<Longrightarrow> gm_ok (maps_Copy m src)"
  unfolding maps_Copy_def by (induction src arbitrary: m) auto

lemma map_of_Copy: "gm_ok src \<Longrightarrow> map_of (maps_Copy m src) = map_of m ++ map_of src"
proof (induction src arbitrary: m)
  case Nil
  then show ?case by (simp add: maps_Copy_def)
next
  case (Cons p src)
  obtain k v where p: "p = (k, v)" by (cases p)
  from Cons.prems have ok: "gm_ok src" and k: "k \<notin> fst ` set src" by (auto simp: gm_ok_def p)
  have "map_of (maps_Copy m (p # src)) = map_of (maps_Copy (gm_set m k v) src)"
    by (simp add: maps_Copy_def p)
  also have "\<dots> = (map_of m)(k \<mapsto> v) ++ map_of src"
    by (simp only: Cons.IH [OF ok] map_of_gm_set)
  also have "\<dots> = map_of m ++ map_of (p # src)"
    using k by (simp add: p map_add_upd_left dom_map_of_conv_image_fst)
  finally show ?case .
qed

text \<open>Go's string order is byte-wise lexicographic, which is the library's order on lists of \<^typ>\<open>char\<close>.\<close>

definition sorted_keys :: "'v gomap \<Rightarrow> string list" where
  "sorted_keys m = sort (map fst m)"

lemma sorted_keys_props [simp]:
  "sorted (sorted_keys m)" "set (sorted_keys m) = fst ` set m"
  "length (sorted_keys m) = length m" "distinct (sorted_keys m) = gm_ok m"
  by (simp_all add: sorted_keys_def gm_ok_def)

lemma sorted_keys_cong:
  assumes "gm_ok m" and "gm_ok m'" and "map_of m = map_of m'"
  shows "sorted_keys m = sorted_keys m'"
proof -
  have "fst ` set m = fst ` set m'"
    using assms(3) by (metis dom_map_of_conv_image_fst)
  then show ?thesis using assms(1,2)
    by (intro sorted_distinct_set_unique) simp_all
qed

end
