(* ===== verification/Paths.thy ===== *)
theory Paths
  imports Prelude
begin

text \<open>
  Path handling: the lexical operations of \<open>path/filepath\<close> on Unix that the program uses,
  and the confinement of request paths to the project root
  (\<open>internal/server/path.go\<close>). Its specification is over path components: a path is
  served when the root's components are a prefix of the path's.
\<close>

section \<open>\<open>path/filepath\<close>\<close>

definition slash :: char where "slash = CHR ''/''"
definition dot :: string where "dot = ''.''"
definition dotdot :: string where "dotdot = ''..''"

definition IsAbs :: "string \<Rightarrow> bool" where
  "IsAbs p = (case p of [] \<Rightarrow> False | c # _ \<Rightarrow> c = slash)"

text \<open>The elements of a path: what stands between separators, empty elements dropped.\<close>

definition elements :: "string \<Rightarrow> string list" where
  "elements p = filter (\<lambda>e. e \<noteq> []) (split_on slash p)"

fun join_elements :: "string list \<Rightarrow> string" where
  "join_elements [] = []"
| "join_elements [e] = e"
| "join_elements (e # es) = e @ slash # join_elements es"

text \<open>
  \<open>Clean\<close> reads the elements left to right: a dot is dropped, a double dot removes the
  element before it, or stays at the front of a relative path, or is dropped at a root. The
  accumulator holds the output in reverse.
\<close>

fun clean_elements :: "bool \<Rightarrow> string list \<Rightarrow> string list \<Rightarrow> string list" where
  "clean_elements rooted out [] = rev out"
| "clean_elements rooted out (e # es) =
     (if e = dot then clean_elements rooted out es
      else if e = dotdot then
        (case out of
           [] \<Rightarrow> if rooted then clean_elements rooted [] es else clean_elements rooted [dotdot] es
         | prev # below \<Rightarrow>
             if prev \<noteq> dotdot then clean_elements rooted below es
             else clean_elements rooted (dotdot # out) es)
      else clean_elements rooted (e # out) es)"

definition Clean :: "string \<Rightarrow> string" where
  "Clean p =
     (if p = [] then dot
      else let es = clean_elements (IsAbs p) [] (elements p)
           in if IsAbs p then slash # join_elements es
              else if es = [] then dot else join_elements es)"

definition JoinPath :: "string \<Rightarrow> string \<Rightarrow> string" where
  "JoinPath a b = (if a \<noteq> [] then Clean (a @ slash # b) else if b \<noteq> [] then Clean b else [])"

definition Abs :: "go_error + string \<Rightarrow> string \<Rightarrow> go_error + string" where
  "Abs getwd p =
     (if IsAbs p then Inr (Clean p)
      else case getwd of Inl e \<Rightarrow> Inl e | Inr wd \<Rightarrow> Inr (JoinPath wd p))"

fun strip_common :: "string list \<Rightarrow> string list \<Rightarrow> string list \<times> string list" where
  "strip_common (b # bs) (t # ts) = (if b = t then strip_common bs ts else (b # bs, t # ts))"
| "strip_common bs ts = (bs, ts)"

definition Rel :: "string \<Rightarrow> string \<Rightarrow> go_error + string" where
  "Rel basepath targpath =
     (let base = Clean basepath; targ = Clean targpath
      in if targ = base then Inr dot
         else let base' = (if base = dot then [] else base)
              in if IsAbs base' \<noteq> IsAbs targ then
                   Inl (Errorf [Lit ''Rel: can't make '', Lit targpath, Lit '' relative to '', Lit basepath])
                 else case strip_common (elements base') (elements targ) of
                   (bs, ts) \<Rightarrow>
                     if bs \<noteq> [] \<and> ts \<noteq> [] \<and> hd bs = dotdot then
                       Inl (Errorf [Lit ''Rel: can't make '', Lit targpath, Lit '' relative to '', Lit basepath])
                     else Inr (join_elements (replicate (length bs) dotdot @ ts)))"

section \<open>\<open>projectPathAllowed\<close>\<close>

definition projectPathAllowed :: "go_error + string \<Rightarrow> string \<Rightarrow> string \<Rightarrow> bool" where
  "projectPathAllowed getwd root path =
     (if root = [] then True
      else case Abs getwd path of
        Inl _ \<Rightarrow> False
      | Inr absPath \<Rightarrow>
          (case Abs getwd root of
             Inl _ \<Rightarrow> False
           | Inr absRoot \<Rightarrow>
               (case Rel absRoot absPath of
                  Inl _ \<Rightarrow> False
                | Inr rel \<Rightarrow> rel = dot \<or> (\<not> prefix (dotdot @ [slash]) rel \<and> rel \<noteq> dotdot))))"

section \<open>Lemmas\<close>

definition plain :: "string \<Rightarrow> bool" where
  "plain e \<longleftrightarrow> e \<noteq> [] \<and> slash \<notin> set e"

text \<open>The elements of a cleaned absolute path: no dots are left.\<close>

definition resolved :: "string \<Rightarrow> bool" where
  "resolved e \<longleftrightarrow> plain e \<and> e \<noteq> dot \<and> e \<noteq> dotdot"

lemma elements_plain: "e \<in> set (elements p) \<Longrightarrow> plain e"
  by (auto simp: elements_def plain_def dest: split_on_fields)

lemma elements_append: "elements (p @ slash # q) = elements p @ elements q"
proof -
  have "split_on c (p @ c # q) = split_on c p @ split_on c q" for c
    by (induction p) (auto split: list.splits)
  then show ?thesis by (simp add: elements_def)
qed

lemma elements_single [simp]: "plain e \<Longrightarrow> elements e = [e]"
  by (simp add: elements_def plain_def)

lemma elements_slash [simp]: "elements (slash # p) = elements p"
  by (simp add: elements_def)

lemma elements_Nil [simp]: "elements [] = []"
  by (simp add: elements_def)

lemma elements_join: "list_all plain es \<Longrightarrow> elements (join_elements es) = es"
  by (induction es rule: join_elements.induct) (simp_all add: elements_append)

lemma clean_elements_resolved:
  assumes "list_all plain es" and "list_all resolved out"
  shows "list_all resolved (clean_elements True out es)"
  using assms
proof (induction es arbitrary: out)
  case Nil
  then show ?case by (simp add: list_all_iff)
next
  case (Cons e es)
  then show ?case by (cases out) (auto simp: resolved_def)
qed

definition resolve :: "string \<Rightarrow> string \<Rightarrow> string list" where
  "resolve wd p = clean_elements True [] (elements (if IsAbs p then p else wd @ slash # p))"

lemma resolve_resolved [simp]: "list_all resolved (resolve wd p)"
  unfolding resolve_def by (rule clean_elements_resolved) (auto simp: list_all_iff elements_plain)

lemma resolved_plain: "list_all resolved es \<Longrightarrow> list_all plain es"
  by (auto simp: list_all_iff resolved_def)

lemma IsAbs_append [simp]: "IsAbs wd \<Longrightarrow> IsAbs (wd @ p)"
  by (cases wd) (auto simp: IsAbs_def)

lemma Clean_abs: "IsAbs p \<Longrightarrow> Clean p = slash # join_elements (clean_elements True [] (elements p))"
  by (cases p) (auto simp: Clean_def Let_def IsAbs_def)

lemma Abs_resolve:
  assumes "IsAbs wd"
  shows "Abs (Inr wd) p = Inr (slash # join_elements (resolve wd p))"
proof -
  have "wd \<noteq> []" using assms by (auto simp: IsAbs_def)
  then show ?thesis using assms
    by (simp add: Abs_def resolve_def JoinPath_def Clean_abs)
qed

lemma clean_elements_fixed:
  "list_all resolved es \<Longrightarrow> clean_elements rooted out es = rev out @ es"
  by (induction es arbitrary: out) (auto simp: resolved_def)

lemma Clean_resolved:
  assumes "list_all resolved es"
  shows "Clean (slash # join_elements es) = slash # join_elements es"
proof -
  have "IsAbs (slash # join_elements es)" by (simp add: IsAbs_def)
  then show ?thesis
    using clean_elements_fixed [OF assms, of True "[]"] elements_join [OF resolved_plain [OF assms]]
    by (simp add: Clean_abs)
qed

lemma join_inject:
  "list_all plain es \<Longrightarrow> list_all plain fs \<Longrightarrow> join_elements es = join_elements fs \<longleftrightarrow> es = fs"
  by (metis elements_join)

lemma strip_common_prefix:
  "strip_common bs ts = (bs', ts') \<Longrightarrow> \<exists>c. bs = c @ bs' \<and> ts = c @ ts' \<and> (bs' = [] \<longleftrightarrow> prefix bs ts)"
proof (induction bs ts rule: strip_common.induct)
  case (1 b bs t ts)
  show ?case
  proof (cases "b = t")
    case True
    then obtain c where "bs = c @ bs' \<and> ts = c @ ts' \<and> (bs' = [] \<longleftrightarrow> prefix bs ts)" using 1 by auto
    then show ?thesis using True by (intro exI [of _ "b # c"]) simp
  next
    case False
    then show ?thesis using 1 by (intro exI [of _ "[]"]) auto
  qed
qed (auto)

lemma Rel_resolved:
  assumes b: "list_all resolved bs" and t: "list_all resolved ts"
  shows "Rel (slash # join_elements bs) (slash # join_elements ts) =
    (if ts = bs then Inr dot
     else case strip_common bs ts of (bs', ts') \<Rightarrow> Inr (join_elements (replicate (length bs') dotdot @ ts')))"
proof -
  obtain bs' ts' where s: "strip_common bs ts = (bs', ts')" by (cases "strip_common bs ts")
  then obtain c where c: "bs = c @ bs'" using strip_common_prefix by blast
  have nodd: "\<not> (bs' \<noteq> [] \<and> ts' \<noteq> [] \<and> hd bs' = dotdot)"
    using b c by (cases bs') (auto simp: resolved_def)
  have ne: "slash # x \<noteq> dot" for x by (simp add: slash_def dot_def)
  show ?thesis
    using s nodd ne b t
    by (auto simp: Rel_def Let_def Clean_resolved IsAbs_def elements_join resolved_plain join_inject)
qed

lemma join_dotdot: "n > 0 \<Longrightarrow> prefix (dotdot @ [slash]) (join_elements (replicate n dotdot @ ts)) \<or>
    join_elements (replicate n dotdot @ ts) = dotdot"
  by (cases n; cases "n - 1"; cases ts) auto

lemma join_resolved_not_up:
  assumes "list_all resolved ts" and "ts \<noteq> []"
  shows "\<not> prefix (dotdot @ [slash]) (join_elements ts) \<and> join_elements ts \<noteq> dotdot"
proof -
  obtain e es where ts: "ts = e # es" using assms(2) by (cases ts) auto
  have e: "plain e" "e \<noteq> dotdot" using assms(1) ts by (auto simp: resolved_def)
  have up: "elements (dotdot @ [slash] @ x) = dotdot # elements x" for x
    using elements_append [of dotdot x] by (simp add: dotdot_def plain_def slash_def)
  have el: "elements (join_elements ts) = ts" using assms(1) by (simp add: elements_join resolved_plain)
  have "join_elements ts \<noteq> dotdot @ [slash] @ x" for x
    using up [of x] el ts e by auto
  moreover have "join_elements ts \<noteq> dotdot"
    using el ts e by (auto simp: plain_def dotdot_def slash_def)
  ultimately show ?thesis by (auto simp: prefix_def)
qed

text \<open>Joining an element to a path appends it to what the path resolves to.\<close>

lemma clean_elements_append:
  "clean_elements True out (xs @ ys) = clean_elements True (rev (clean_elements True out xs)) ys"
  by (induction "True" out xs rule: clean_elements.induct) (auto split: list.splits)

lemma clean_elements_up:
  assumes "resolved e"
  shows "clean_elements True out (xs @ e # dotdot # ys) = clean_elements True out (xs @ ys)"
proof -
  have "clean_elements True acc (e # dotdot # ys) = clean_elements True acc ys" for acc
    using assms by (simp add: resolved_def dot_def dotdot_def)
  then show ?thesis by (simp add: clean_elements_append [of out xs])
qed

lemma clean_elements_dot: "clean_elements True out (xs @ dot # ys) = clean_elements True out (xs @ ys)"
  by (simp add: clean_elements_append [of out xs])

text \<open>Cleaning a relative path first makes no difference.\<close>

lemma clean_elements_relative:
  assumes "list_all plain es" and "list_all (\<lambda>e. e = dotdot \<or> resolved e) acc"
  shows "clean_elements True out (clean_elements False acc es) = clean_elements True out (rev acc @ es)"
  using assms
proof (induction es arbitrary: acc)
  case (Cons e es)
  show ?case
  proof (cases "e = dot \<or> e = dotdot")
    case False
    then have "resolved e" using Cons.prems by (simp add: resolved_def)
    then show ?thesis using False Cons by simp
  next
    case True
    show ?thesis
    proof (cases "e = dot")
      case True
      then show ?thesis using Cons by (simp add: clean_elements_dot)
    next
      case False
      then have e: "e = dotdot" "dotdot \<noteq> dot" using True by auto
      show ?thesis
      proof (cases acc)
        case Nil
        then show ?thesis using Cons e by simp
      next
        case (Cons prev below)
        show ?thesis
        proof (cases "prev = dotdot")
          case True
          then show ?thesis using Cons.IH [of "dotdot # acc"] Cons.prems Cons e by simp
        next
          case False
          then have "resolved prev" using Cons.prems Cons by simp
          then show ?thesis using Cons.IH [of below] Cons.prems Cons False e by (simp add: clean_elements_up)
        qed
      qed
    qed
  qed
qed simp

lemma clean_relative_plain:
  "list_all plain es \<Longrightarrow> list_all plain acc \<Longrightarrow> list_all plain (clean_elements False acc es)"
proof (induction es arbitrary: acc)
  case (Cons e es)
  have dd: "plain dotdot" by (simp add: plain_def dotdot_def slash_def)
  show ?case using Cons.prems dd by (cases acc) (simp_all add: Cons.IH)
qed (simp add: list_all_iff)

lemma IsAbs_join: "list_all plain es \<Longrightarrow> \<not> IsAbs (join_elements es)"
proof (cases es rule: join_elements.cases)
  case (3 e e' es')
  then show "list_all plain es \<Longrightarrow> ?thesis" by (cases e) (auto simp: IsAbs_def plain_def)
qed (auto simp: IsAbs_def plain_def split: list.splits)

lemma IsAbs_Clean: "IsAbs (Clean p) = IsAbs p"
proof (cases "IsAbs p")
  case False
  have "list_all plain (clean_elements False [] (elements p))"
    by (rule clean_relative_plain) (auto simp: list_all_iff elements_plain)
  then show ?thesis using False IsAbs_join by (simp add: Clean_def Let_def) (simp add: IsAbs_def dot_def slash_def)
qed (simp add: Clean_abs, simp add: IsAbs_def)

lemma resolve_Clean: "resolve wd (Clean p) = resolve wd p"
proof (cases "IsAbs p")
  case True
  have "list_all resolved (clean_elements True [] (elements p))"
    by (rule clean_elements_resolved) (auto simp: list_all_iff elements_plain)
  then show ?thesis using True
    by (simp add: resolve_def IsAbs_Clean) (simp add: Clean_abs elements_join resolved_plain clean_elements_fixed)
next
  case False
  let ?es = "clean_elements False [] (elements p)"
  have els: "list_all plain (elements p)" by (auto simp: list_all_iff elements_plain)
  have "list_all plain ?es" by (rule clean_relative_plain [OF els]) simp
  moreover have "elements dot = [dot]" by (simp add: dot_def plain_def slash_def)
  ultimately have "clean_elements True [] (elements wd @ elements (Clean p)) = clean_elements True [] (elements wd @ ?es)"
    using False clean_elements_dot [of "[]" "elements wd" "[]"] by (simp add: Clean_def Let_def elements_join IsAbs_def split: list.splits)
  also have "\<dots> = clean_elements True [] (elements wd @ elements p)"
    using clean_elements_relative [OF els, of "[]"] by (simp add: clean_elements_append [of "[]" "elements wd"])
  finally show ?thesis using False by (simp add: resolve_def IsAbs_Clean elements_append)
qed

lemma resolve_JoinPath: "resolved e \<Longrightarrow> resolve wd (JoinPath p e) = resolve wd p @ [e]"
proof -
  assume e: "resolved e"
  have last: "clean_elements True [] (xs @ [e]) = clean_elements True [] xs @ [e]" for xs
    using e by (simp add: clean_elements_append resolved_def)
  have "elements e = [e]" using e by (simp add: resolved_def)
  moreover have "\<not> IsAbs e" "e \<noteq> []" using e IsAbs_join [of "[e]"] by (auto simp: resolved_def plain_def)
  ultimately show ?thesis
    using last [of "elements wd @ elements p"]
    by (auto simp: JoinPath_def resolve_Clean) (auto simp: resolve_def elements_append last IsAbs_def split: list.splits)
qed

lemma projectPathAllowed_iff:
  assumes "IsAbs wd"
  shows "projectPathAllowed (Inr wd) root path \<longleftrightarrow> root = [] \<or> prefix (resolve wd root) (resolve wd path)"
proof (cases "root = []")
  case True
  then show ?thesis by (simp add: projectPathAllowed_def)
next
  case False
  let ?b = "resolve wd root" and ?t = "resolve wd path"
  obtain bs' ts' where s: "strip_common ?b ?t = (bs', ts')" by (cases "strip_common ?b ?t")
  then obtain c where c: "?b = c @ bs'" "?t = c @ ts'" "bs' = [] \<longleftrightarrow> prefix ?b ?t"
    using strip_common_prefix by blast
  have allowed: "projectPathAllowed (Inr wd) root path \<longleftrightarrow>
      ?t = ?b \<or> (let rel = join_elements (replicate (length bs') dotdot @ ts')
        in rel = dot \<or> \<not> prefix (dotdot @ [slash]) rel \<and> rel \<noteq> dotdot)"
    using False by (simp add: projectPathAllowed_def Abs_resolve [OF assms] Rel_resolved s Let_def)
  show ?thesis
  proof (cases "prefix ?b ?t")
    case True
    have "list_all resolved ts'" using resolve_resolved [of wd path] c(2) by simp
    moreover have "ts' \<noteq> [] \<or> ?t = ?b" using True c by auto
    ultimately show ?thesis using True c(3) allowed join_resolved_not_up [of ts'] False by auto
  next
    case no: False
    then have "0 < length bs'" using c(3) by simp
    from join_dotdot [OF this, of ts'] have "prefix (dotdot @ [slash]) (join_elements (replicate (length bs') dotdot @ ts')) \<or>
      join_elements (replicate (length bs') dotdot @ ts') = dotdot" .
    then have "\<not> projectPathAllowed (Inr wd) root path"
      using no allowed by (auto simp: Let_def dot_def dotdot_def slash_def)
    then show ?thesis using no False by simp
  qed
qed

section \<open>Properties\<close>

text \<open>
  C12. With a project root configured, a request is served exactly when the
  root's components, after resolving dots against the working directory, are a prefix of
  the requested path's: no traversal and no look-alike sibling directory escapes the root,
  and no path below it is refused. Symbolic links are not resolved.
\<close>

theorem path_confinement:
  assumes "IsAbs wd"
  shows "projectPathAllowed (Inr wd) root path \<longleftrightarrow> root = [] \<or> prefix (resolve wd root) (resolve wd path)"
  by (rule projectPathAllowed_iff [OF assms])

theorem path_confinement_witness:
  "projectPathAllowed (Inr ''/w'') ''/srv/projects'' ''/srv/projects/../projects/..app'' \<and>
   \<not> projectPathAllowed (Inr ''/w'') ''/srv/projects'' ''/srv/projects-evil'' \<and>
   \<not> projectPathAllowed (Inr ''/w'') ''/srv/projects'' ''../srv/projects/../secrets''"
proof -
  have "IsAbs ''/w''" by (simp add: IsAbs_def slash_def)
  note conf = path_confinement [OF this]
  have "prefix (resolve ''/w'' ''/srv/projects'') (resolve ''/w'' ''/srv/projects/../projects/..app'')"
    "\<not> prefix (resolve ''/w'' ''/srv/projects'') (resolve ''/w'' ''/srv/projects-evil'')"
    "\<not> prefix (resolve ''/w'' ''/srv/projects'') (resolve ''/w'' ''../srv/projects/../secrets'')"
    by code_simp+
  then show ?thesis by (simp add: conf)
qed

end
