(* ===== verification/Archive.thy ===== *)
theory Archive
  imports Paths
begin

text \<open>
  The archive of the project directory that is copied into a container
  (\<open>CreateTar\<close> of \<open>internal/common/utils.go\<close>), with what it uses of
  \<open>filepath.WalkDir\<close> and of package \<open>archive/tar\<close>. The directory tree is a parameter
  that says, node by node, what every call on it answers, failures included. An archive is the
  list of its entries; how the library lays an entry out in blocks is left out.
\<close>

section \<open>The file system\<close>

datatype file_kind = Regular | Directory | Symlink | CharDevice | BlockDevice | NamedPipe | Socket | Irregular

record file_info =
  fi_Kind :: file_kind
  fi_Perm :: nat
  fi_Size :: goint
  fi_ModTime :: gotime

text \<open>
  A directory entry: whether it is a directory, and the answers of \<open>Info\<close>, of opening and
  reading it (the bytes read before a read error, and the error of \<open>Close\<close>), and of
  \<open>os.ReadDir\<close>, which sorts by name.
\<close>

datatype node = Node
  (nd_IsDir: bool)
  (nd_Info: "go_error + file_info")
  (nd_Content: "go_error + string \<times> go_error option \<times> go_error option")
  (nd_Listing: "go_error + (string \<times> node) list")

section \<open>Package \<open>archive/tar\<close>\<close>

datatype typeflag = TypeReg | TypeDir | TypeSymlink | TypeChar | TypeBlock | TypeFifo

record tar_header =
  th_Name :: string
  th_Typeflag :: typeflag
  th_Size :: goint
  th_Mode :: nat
  th_ModTime :: gotime
  th_Linkname :: string

type_synonym tar_entry = "tar_header \<times> string"

text \<open>
  \<open>FileInfoHeader\<close> for a file and the target of a link. The name is overwritten by the
  caller; owner and device numbers are left out.
\<close>

definition FileInfoHeader :: "file_info \<Rightarrow> string \<Rightarrow> go_error + tar_header" where
  "FileInfoHeader fi link =
     (let h = \<lparr>th_Name = [], th_Typeflag = TypeReg, th_Size = 0, th_Mode = fi_Perm fi, th_ModTime = fi_ModTime fi, th_Linkname = []\<rparr>
      in case fi_Kind fi of
           Regular \<Rightarrow> Inr (h\<lparr>th_Size := fi_Size fi\<rparr>)
         | Directory \<Rightarrow> Inr (h\<lparr>th_Typeflag := TypeDir\<rparr>)
         | Symlink \<Rightarrow> Inr (h\<lparr>th_Typeflag := TypeSymlink, th_Linkname := link\<rparr>)
         | CharDevice \<Rightarrow> Inr (h\<lparr>th_Typeflag := TypeChar\<rparr>)
         | BlockDevice \<Rightarrow> Inr (h\<lparr>th_Typeflag := TypeBlock\<rparr>)
         | NamedPipe \<Rightarrow> Inr (h\<lparr>th_Typeflag := TypeFifo\<rparr>)
         | Socket \<Rightarrow> Inl (External ''archive/tar: sockets not supported'')
         | Irregular \<Rightarrow> Inl (External ''archive/tar: unknown file mode''))"

text \<open>The writer: the entries so far, and how many bytes its current entry still lacks.\<close>

record tar_writer =
  tw_Entries :: "tar_entry list"
  tw_Remaining :: int

definition NewWriter :: tar_writer where "NewWriter = \<lparr>tw_Entries = [], tw_Remaining = 0\<rparr>"

definition Flush :: "tar_writer \<Rightarrow> go_error option" where
  "Flush tw = (if tw_Remaining tw > 0
     then Some (Errorf [Lit ''archive/tar: missed writing '', Num (tw_Remaining tw), Lit '' bytes'']) else None)"

definition round_second :: "gotime \<Rightarrow> gotime" where
  "round_second t = (t + 500000000) div 1000000000 * 1000000000"

definition WriteHeader :: "tar_writer \<Rightarrow> tar_header \<Rightarrow> go_error + tar_writer" where
  "WriteHeader tw h =
     (case Flush tw of
        Some err \<Rightarrow> Inl err
      | None \<Rightarrow> Inr \<lparr>tw_Entries = tw_Entries tw @ [(h\<lparr>th_ModTime := round_second (th_ModTime h)\<rparr>, [])],
                    tw_Remaining = (if th_Typeflag h = TypeReg then sint (th_Size h) else 0)\<rparr>)"

definition ErrWriteTooLong :: go_error where "ErrWriteTooLong = External ''archive/tar: write too long''"

text \<open>\<open>io.Copy\<close> of a file's bytes into the current entry.\<close>

definition Copy :: "tar_writer \<Rightarrow> string \<Rightarrow> go_error option \<Rightarrow> tar_writer \<times> go_error option" where
  "Copy tw bytes readErr =
     (let n = nat (tw_Remaining tw); (h, c) = last (tw_Entries tw)
      in (\<lparr>tw_Entries = butlast (tw_Entries tw) @ [(h, c @ take n bytes)],
           tw_Remaining = tw_Remaining tw - int (length (take n bytes))\<rparr>,
          if length bytes > n then Some ErrWriteTooLong else readErr))"

section \<open>\<open>CreateTar\<close>\<close>

text \<open>The function that the walk calls for each entry.\<close>

definition archiveEntry :: "string \<Rightarrow> string \<Rightarrow> node \<Rightarrow> tar_writer \<Rightarrow> go_error + tar_writer" where
  "archiveEntry path file d tw =
     (case nd_Info d of
        Inl err \<Rightarrow> Inl err
      | Inr info \<Rightarrow>
     (case Rel path file of
        Inl err \<Rightarrow> Inl err
      | Inr relPath \<Rightarrow>
     (case FileInfoHeader info [] of
        Inl err \<Rightarrow> Inl err
      | Inr header \<Rightarrow>
     (let header = header\<lparr>th_Name := relPath\<rparr>;
          header = (if fi_Kind info = Directory then header\<lparr>th_Name := th_Name header @ [slash]\<rparr> else header)
      in case WriteHeader tw header of
           Inl err \<Rightarrow> Inl err
         | Inr tw \<Rightarrow>
             (if fi_Kind info = Regular
              then case nd_Content d of
                     Inl err \<Rightarrow> Inl err
                   | Inr (bytes, readErr, closeErr) \<Rightarrow>
                       (case Copy tw bytes readErr of
                          (tw, Some e) \<Rightarrow> Inl e
                        | (tw, None) \<Rightarrow> (case closeErr of Some e \<Rightarrow> Inl e | None \<Rightarrow> Inr tw))
              else Inr tw)))))"

text \<open>\<open>filepath.WalkDir\<close> with that function: an error of \<open>ReadDir\<close> goes through it unchanged.\<close>

function (sequential) walkDir :: "string \<Rightarrow> string \<Rightarrow> node \<Rightarrow> tar_writer \<Rightarrow> go_error + tar_writer"
  and walkEntries :: "string \<Rightarrow> string \<Rightarrow> (string \<times> node) list \<Rightarrow> tar_writer \<Rightarrow> go_error + tar_writer" where
  "walkDir path file (Node isDir info content listing) tw =
     (case archiveEntry path file (Node isDir info content listing) tw of
        Inl err \<Rightarrow> Inl err
      | Inr tw \<Rightarrow>
          (if \<not> isDir then Inr tw
           else case listing of
                  Inl err \<Rightarrow> Inl err
                | Inr dirs \<Rightarrow> walkEntries path file dirs tw))"
| "walkEntries path file [] tw = Inr tw"
| "walkEntries path file ((name, d1) # dirs) tw =
     (case walkDir path (JoinPath file name) d1 tw of
        Inl err \<Rightarrow> Inl err
      | Inr tw \<Rightarrow> walkEntries path file dirs tw)"
  by pat_completeness auto
termination
  by (relation "measure (case_sum (\<lambda>(p, f, d, tw). size d) (\<lambda>(p, f, ds, tw). size_list (\<lambda>(n, d). Suc (size d)) ds))")
    (auto simp: comp_def case_prod_beta' size_prod_def)

text \<open>The first argument after the path is what \<open>os.Lstat\<close> answers for it.\<close>

definition CreateTar :: "string \<Rightarrow> go_error + node \<Rightarrow> go_error + tar_entry list" where
  "CreateTar path root =
     (case root of
        Inl err \<Rightarrow> Inl err
      | Inr d \<Rightarrow>
          (case walkDir path path d NewWriter of
             Inl err \<Rightarrow> Inl err
           | Inr tw \<Rightarrow> (case Flush tw of Some err \<Rightarrow> Inl err | None \<Rightarrow> Inr (tw_Entries tw))))"

end
