(* ===== verification/ArchiveProperties.thy ===== *)
theory ArchiveProperties
  imports Archive
begin

text \<open>
  What an archive holds: which directory trees can be archived at all, the entries, their
  names and their order, and that unpacking gives the tree back, except for the targets of
  symbolic links, which are lost.
\<close>

section \<open>Names relative to the archived directory\<close>

definition rel_name :: "string list \<Rightarrow> string" where
  "rel_name ns = (if ns = [] then dot else join_elements ns)"

text \<open>The target is reached from the path by the names.\<close>

definition below :: "string \<Rightarrow> string list \<Rightarrow> string \<Rightarrow> bool" where
  "below path ns target \<longleftrightarrow> target \<noteq> [] \<and> IsAbs target = IsAbs path \<and> list_all resolved ns \<and>
     clean_elements (IsAbs path) [] (elements target) = clean_elements (IsAbs path) [] (elements path) @ ns"

lemma below_self: "path \<noteq> [] \<Longrightarrow> below path [] path"
  by (simp add: below_def)

lemma clean_elements_snoc:
  "resolved e \<Longrightarrow> clean_elements rooted out (es @ [e]) = clean_elements rooted out es @ [e]"
  by (induction rooted out es rule: clean_elements.induct) (auto simp: resolved_def split: list.splits)

text \<open>Cleaned elements: double dots only at the front of a relative path.\<close>

definition cleaned :: "bool \<Rightarrow> string list \<Rightarrow> bool" where
  "cleaned rooted es \<longleftrightarrow> (\<exists>k rs. es = replicate k dotdot @ rs \<and> list_all resolved rs \<and> (rooted \<longrightarrow> k = 0))"

lemma cleaned_push:
  "cleaned rooted es \<Longrightarrow> resolved e \<Longrightarrow> cleaned rooted (es @ [e])"
  unfolding cleaned_def by (metis append.assoc list_all_append list.pred_inject)

lemma dotdot_unresolved [simp]: "\<not> resolved dotdot" "dotdot \<noteq> dot"
  by (simp_all add: resolved_def dotdot_def dot_def)

lemma cleaned_butlast:
  assumes "cleaned rooted (es @ [e])" shows "cleaned rooted es"
proof -
  from assms obtain k rs where k: "es @ [e] = replicate k dotdot @ rs" "list_all resolved rs" "rooted \<longrightarrow> k = 0"
    by (auto simp: cleaned_def)
  show ?thesis
  proof (cases rs rule: rev_cases)
    case Nil
    then have "es = replicate (k - 1) dotdot" using k(1)
      by (cases k) (auto simp: replicate_append_same [symmetric] simp del: replicate_append_same)
    then show ?thesis using k(3) unfolding cleaned_def by (intro exI [of _ "k - 1"] exI [of _ "[]"]) auto
  next
    case (snoc ys y)
    then show ?thesis using k unfolding cleaned_def by (intro exI [of _ k] exI [of _ ys]) auto
  qed
qed

lemma cleaned_up:
  assumes "cleaned False (es @ [dotdot])" shows "cleaned False (es @ [dotdot, dotdot])"
proof -
  from assms obtain k rs where k: "es @ [dotdot] = replicate k dotdot @ rs" "list_all resolved rs"
    by (auto simp: cleaned_def)
  have "rs = []" using k by (cases rs rule: rev_cases) auto
  then have "es @ [dotdot, dotdot] = replicate (Suc k) dotdot @ []"
    using k(1) by (metis append.assoc append_Cons append_Nil append_Nil2 replicate_Suc replicate_append_same)
  then show ?thesis unfolding cleaned_def by (intro exI [of _ "Suc k"] exI [of _ "[]"]) auto
qed

lemma cleaned_clean:
  "list_all plain es \<Longrightarrow> cleaned rooted (rev out) \<Longrightarrow> cleaned rooted (clean_elements rooted out es)"
proof (induction rooted out es rule: clean_elements.induct)
  case (2 rooted out e es)
  consider "e = dot" | "e = dotdot" "e \<noteq> dot" | "e \<noteq> dot" "e \<noteq> dotdot" by blast
  then show ?case
  proof cases
    case 2
    have top: "cleaned False [dotdot]" unfolding cleaned_def by (intro exI [of _ 1] exI [of _ "[]"]) auto
    show ?thesis
    proof (cases out)
      case Nil
      then show ?thesis using "2.IH" "2.prems" 2 top by (cases rooted) auto
    next
      case (Cons prev below)
      have prems: "list_all plain es" "cleaned rooted (rev below)"
        using "2.prems" cleaned_butlast [of rooted "rev below" prev] Cons by auto
      show ?thesis
      proof (cases "prev = dotdot")
        case True
        then have "\<not> rooted" using "2.prems"(2) Cons by (auto simp: cleaned_def)
        then show ?thesis using "2.IH" prems 2 True Cons "2.prems"(2) cleaned_up [of "rev below"] by auto
      next
        case False
        then show ?thesis using "2.IH" prems 2 Cons by auto
      qed
    qed
  next
    case 3
    then have "resolved e" using "2.prems" by (simp add: resolved_def)
    then show ?thesis using "2.IH" "2.prems" 3 by (simp add: cleaned_push)
  qed (use 2 in simp)
qed simp

text \<open>A clean path is its cleaned elements.\<close>

definition unparse :: "bool \<Rightarrow> string list \<Rightarrow> string" where
  "unparse rooted es = (if rooted then slash # join_elements es else if es = [] then dot else join_elements es)"

lemma Clean_unparse: "Clean p = unparse (IsAbs p) (clean_elements (IsAbs p) [] (elements p))"
  by (simp add: Clean_def unparse_def Let_def IsAbs_def)

lemma cleaned_Nil: "cleaned rooted []"
  unfolding cleaned_def by (intro exI [of _ 0] exI [of _ "[]"]) simp

lemma cleaned_path: "cleaned (IsAbs p) (clean_elements (IsAbs p) [] (elements p))"
  by (rule cleaned_clean) (simp_all add: list_all_iff elements_plain cleaned_Nil)

lemma cleaned_plain:
  assumes "cleaned rooted es" shows "list_all plain es \<and> dot \<notin> set es"
proof -
  from assms obtain k rs where es: "es = replicate k dotdot @ rs" "list_all resolved rs" by (auto simp: cleaned_def)
  have "plain dotdot" by (simp add: plain_def dotdot_def slash_def)
  moreover have "\<forall>r \<in> set rs. plain r \<and> r \<noteq> dot" using es(2) by (simp add: list_all_iff resolved_def)
  ultimately have "\<forall>e \<in> set es. plain e \<and> e \<noteq> dot" unfolding es(1)
    by (metis Un_iff dotdot_unresolved(2) in_set_replicate set_append)
  then show ?thesis by (auto simp: list_all_iff)
qed

lemma clean_elements_dotdots: "clean_elements False (replicate j dotdot) (replicate k dotdot @ es) = clean_elements False (replicate (j + k) dotdot) es"
proof (induction k arbitrary: j)
  case (Suc k)
  have "clean_elements False (replicate j dotdot) (dotdot # xs) = clean_elements False (replicate (Suc j) dotdot) xs" for xs
    by (cases j) (simp_all add: dotdot_def dot_def)
  then show ?case using Suc [of "Suc j"] by simp
qed simp

lemma cleaned_fixed: "cleaned rooted es \<Longrightarrow> clean_elements rooted [] es = es"
  unfolding cleaned_def
  by (cases rooted) (auto simp: clean_elements_fixed clean_elements_dotdots [of 0, simplified])

lemma elements_unparse:
  "cleaned rooted es \<Longrightarrow> elements (unparse rooted es) = (if \<not> rooted \<and> es = [] then [dot] else es)"
  using cleaned_plain [of rooted es] by (auto simp: unparse_def elements_join) (simp add: dot_def plain_def slash_def)

lemma IsAbs_unparse: "cleaned rooted es \<Longrightarrow> IsAbs (unparse rooted es) = rooted"
  using cleaned_plain [of rooted es] IsAbs_join [of es] by (auto simp: unparse_def IsAbs_def dot_def slash_def)

lemma unparse_nonempty: "cleaned rooted es \<Longrightarrow> unparse rooted es \<noteq> []"
  using elements_unparse [of rooted es] by (auto simp: unparse_def split: if_splits)

lemma below_Join:
  assumes "below path ns target" and "resolved n"
  shows "below path (ns @ [n]) (JoinPath target n)"
proof -
  let ?r = "IsAbs path" and ?es = "clean_elements (IsAbs path) [] (elements path) @ ns @ [n]"
  have fl: "target \<noteq> []" "IsAbs target = ?r" "list_all resolved ns"
    "clean_elements ?r [] (elements target) = clean_elements ?r [] (elements path) @ ns"
    using assms(1) by (auto simp: below_def)
  have r: "IsAbs (target @ slash # n) = ?r" using fl(1,2) by (cases target) (auto simp: IsAbs_def)
  have n: "elements n = [n]" using assms(2) by (simp add: resolved_def)
  have es: "clean_elements ?r [] (elements (target @ slash # n)) = ?es"
    using fl(4) assms(2) by (simp add: elements_append n clean_elements_snoc)
  then have c: "cleaned ?r ?es" using cleaned_path [of "target @ slash # n"] r by simp
  have "JoinPath target n = unparse ?r ?es" using fl(1) es r by (simp add: JoinPath_def Clean_unparse)
  then show ?thesis
    using c fl(3) assms(2) by (simp add: below_def elements_unparse IsAbs_unparse unparse_nonempty cleaned_fixed)
qed

lemma strip_common_extend: "strip_common es (es @ ns) = ([], ns)"
  by (induction es) auto

lemma Rel_below:
  assumes "below path ns target"
  shows "Rel path target = Inr (rel_name ns)"
proof -
  let ?r = "IsAbs path" and ?es = "clean_elements (IsAbs path) [] (elements path)"
  have c: "cleaned ?r ?es" "cleaned ?r (?es @ ns)"
    using cleaned_path [of path] cleaned_path [of "target"] assms by (auto simp: below_def)
  have clean: "Clean path = unparse ?r ?es" "Clean target = unparse ?r (?es @ ns)"
    using assms by (auto simp: below_def Clean_unparse)
  have same: "unparse ?r (?es @ ns) = unparse ?r ?es \<longleftrightarrow> ns = []"
  proof
    assume "unparse ?r (?es @ ns) = unparse ?r ?es"
    then have "elements (unparse ?r (?es @ ns)) = elements (unparse ?r ?es)" by simp
    then show "ns = []" using c cleaned_plain [OF c(2)] by (auto simp: elements_unparse split: if_splits)
  qed simp
  have dot: "unparse ?r ?es = dot \<longleftrightarrow> \<not> ?r \<and> ?es = []"
  proof
    assume d: "unparse ?r ?es = dot"
    then have "elements (unparse ?r ?es) = [dot]" by (simp add: dot_def plain_def slash_def)
    then show "\<not> ?r \<and> ?es = []" using c(1) cleaned_plain [OF c(1)] by (auto simp: elements_unparse split: if_splits)
  qed (auto simp: unparse_def)
  show ?thesis
  proof (cases "ns = []")
    case True
    then show ?thesis using clean by (simp add: Rel_def Let_def rel_name_def)
  next
    case False
    then show ?thesis using c same dot
      by (auto simp: Rel_def Let_def clean IsAbs_unparse elements_unparse strip_common_extend rel_name_def)
        (auto simp: IsAbs_def)
  qed
qed

section \<open>Trees\<close>

text \<open>What the operating system promises of a tree: proper, sorted names and no negative sizes.\<close>

lemma size_kid: "(n, d) \<in> set ds \<Longrightarrow> size d < size (Node isDir info content (Inr ds))"
  using size_list_estimation' [of "(n, d)" ds "size d" "size_prod (\<lambda>_. 0) size"] by (simp add: comp_def)

function tree_ok :: "node \<Rightarrow> bool" where
  "tree_ok (Node isDir info content listing) \<longleftrightarrow>
     (case info of Inl err \<Rightarrow> True | Inr fi \<Rightarrow> 0 \<le> sint (fi_Size fi)) \<and>
     (case listing of Inl err \<Rightarrow> True
      | Inr ds \<Rightarrow> sorted_wrt (<) (map fst ds) \<and> list_all resolved (map fst ds) \<and> (\<forall>(n, d) \<in> set ds. tree_ok d))"
  by pat_completeness auto
termination by (relation "measure size") (auto dest: size_kid)

text \<open>What a tree must be for its archive to be written: nothing fails, every file is read in the size it was listed with, and there are no sockets.\<close>

definition archivable :: "(go_error + file_info) \<Rightarrow> (go_error + string \<times> go_error option \<times> go_error option) \<Rightarrow> bool" where
  "archivable info content \<longleftrightarrow>
     (case info of Inl err \<Rightarrow> False
      | Inr fi \<Rightarrow> fi_Kind fi \<notin> {Socket, Irregular} \<and>
          (fi_Kind fi = Regular \<longrightarrow> (\<exists>bytes. content = Inr (bytes, None, None) \<and> int (length bytes) = sint (fi_Size fi))))"

function sound :: "node \<Rightarrow> bool" where
  "sound (Node isDir info content listing) \<longleftrightarrow>
     archivable info content \<and>
     (isDir \<longrightarrow> (case listing of Inl err \<Rightarrow> False | Inr ds \<Rightarrow> \<forall>(n, d) \<in> set ds. sound d))"
  by pat_completeness auto
termination by (relation "measure size") (auto dest: size_kid)

text \<open>The entries of a tree, in preorder.\<close>

fun flag_of :: "file_kind \<Rightarrow> typeflag" where
  "flag_of Directory = TypeDir"
| "flag_of Symlink = TypeSymlink"
| "flag_of CharDevice = TypeChar"
| "flag_of BlockDevice = TypeBlock"
| "flag_of NamedPipe = TypeFifo"
| "flag_of _ = TypeReg"

definition bytes_of :: "file_info \<Rightarrow> (go_error + string \<times> go_error option \<times> go_error option) \<Rightarrow> string" where
  "bytes_of fi content = (if fi_Kind fi = Regular then case content of Inl err \<Rightarrow> [] | Inr (bytes, errs) \<Rightarrow> bytes else [])"

definition entry_for :: "string list \<Rightarrow> (go_error + file_info) \<Rightarrow> (go_error + string \<times> go_error option \<times> go_error option) \<Rightarrow> tar_entry list" where
  "entry_for ns info content =
     (case info of Inl err \<Rightarrow> []
      | Inr fi \<Rightarrow> [(\<lparr>th_Name = rel_name ns @ (if fi_Kind fi = Directory then [slash] else []), th_Typeflag = flag_of (fi_Kind fi),
            th_Size = (if fi_Kind fi = Regular then fi_Size fi else 0), th_Mode = fi_Perm fi,
            th_ModTime = round_second (fi_ModTime fi), th_Linkname = []\<rparr>, bytes_of fi content)])"

function entries_of :: "string list \<Rightarrow> node \<Rightarrow> tar_entry list" where
  "entries_of ns (Node isDir info content listing) =
     entry_for ns info content @
     (if isDir then case listing of Inl err \<Rightarrow> [] | Inr ds \<Rightarrow> concat (map (\<lambda>(n, d). entries_of (ns @ [n]) d) ds) else [])"
  by pat_completeness auto
termination by (relation "measure (\<lambda>(ns, d). size d)") (auto dest: size_kid)

abbreviation kid_entries :: "string list \<Rightarrow> (string \<times> node) list \<Rightarrow> tar_entry list" where
  "kid_entries ns ds \<equiv> concat (map (\<lambda>(n, d). entries_of (ns @ [n]) d) ds)"

section \<open>The walk\<close>

text \<open>A result that cannot end well: an error, or a writer whose last entry is too short.\<close>

definition bad :: "go_error + tar_writer \<Rightarrow> bool" where
  "bad r \<longleftrightarrow> (case r of Inl err \<Rightarrow> True | Inr tw \<Rightarrow> 0 < tw_Remaining tw)"

lemma bad_simps [simp]: "bad (Inl err)" "bad (Inr tw) \<longleftrightarrow> 0 < tw_Remaining tw"
  by (simp_all add: bad_def)

lemma archiveEntry_short: "0 < tw_Remaining tw \<Longrightarrow> \<exists>err. archiveEntry path f d tw = Inl err"
  by (auto simp: archiveEntry_def WriteHeader_def Flush_def Let_def split: sum.splits)

lemma walkDir_short: "0 < tw_Remaining tw \<Longrightarrow> \<exists>err. walkDir path f d tw = Inl err"
  using archiveEntry_short [of tw path f d] by (cases d) auto

lemma walkEntries_bad: "0 < tw_Remaining tw \<Longrightarrow> bad (walkEntries path f ds tw)"
  using walkDir_short [of tw path] by (cases ds) (auto, metis bad_simps(1) old.sum.simps(5))

text \<open>The entry of a node.\<close>

lemma archiveEntry_good:
  assumes "below path ns f" and "archivable info content" and "tw_Remaining tw \<le> 0"
  shows "archiveEntry path f (Node isDir info content listing) tw = Inr \<lparr>tw_Entries = tw_Entries tw @ entry_for ns info content, tw_Remaining = 0\<rparr>"
proof -
  obtain fi where fi: "info = Inr fi" using assms(2) by (cases info) (auto simp: archivable_def)
  show ?thesis
  proof (cases "fi_Kind fi = Regular")
    case True
    then obtain bytes where "content = Inr (bytes, None, None)" "int (length bytes) = sint (fi_Size fi)"
      using assms(2) by (auto simp: archivable_def fi)
    then show ?thesis using assms(3) True Rel_below [OF assms(1)]
      by (auto simp: fi archiveEntry_def FileInfoHeader_def WriteHeader_def Flush_def Copy_def entry_for_def bytes_of_def Let_def)
  next
    case False
    then show ?thesis using assms(2,3) Rel_below [OF assms(1)]
      by (cases "fi_Kind fi")
        (auto simp: fi archivable_def archiveEntry_def FileInfoHeader_def WriteHeader_def Flush_def entry_for_def bytes_of_def Let_def)
  qed
qed

lemma archiveEntry_bad:
  assumes "\<not> archivable info content" and "case info of Inl err \<Rightarrow> True | Inr fi \<Rightarrow> 0 \<le> sint (fi_Size fi)"
  shows "bad (archiveEntry path f (Node isDir info content listing) tw)"
proof (cases info)
  case (Inr fi)
  show ?thesis
  proof (cases "fi_Kind fi = Regular")
    case True
    have n: "\<not> (\<exists>bytes. content = Inr (bytes, None, None) \<and> int (length bytes) = sint (fi_Size fi))" "0 \<le> sint (fi_Size fi)"
      using assms True by (auto simp: archivable_def Inr)
    then show ?thesis using True
      by (auto simp: Inr archiveEntry_def FileInfoHeader_def WriteHeader_def Copy_def Let_def split: sum.split option.splits)
  next
    case False
    then show ?thesis using assms(1)
      by (cases "fi_Kind fi") (auto simp: Inr archivable_def archiveEntry_def FileInfoHeader_def split: sum.split)
  qed
qed (simp add: archiveEntry_def)

lemma walk_good:
  "tree_ok d \<Longrightarrow> sound d \<Longrightarrow> below path ns f \<Longrightarrow> tw_Remaining tw \<le> 0 \<Longrightarrow>
     walkDir path f d tw = Inr \<lparr>tw_Entries = tw_Entries tw @ entries_of ns d, tw_Remaining = 0\<rparr>"
  "(\<forall>(n, d) \<in> set ds. resolved n \<and> tree_ok d \<and> sound d) \<Longrightarrow> below path ns f \<Longrightarrow> tw_Remaining tw = 0 \<Longrightarrow>
     walkEntries path f ds tw = Inr \<lparr>tw_Entries = tw_Entries tw @ kid_entries ns ds, tw_Remaining = 0\<rparr>"
proof (induction path f d tw and path f ds tw arbitrary: ns and ns rule: walkDir_walkEntries.induct)
  case (1 path f isDir info content listing tw)
  note visited = archiveEntry_good [of path ns f info content tw isDir listing]
  show ?case
  proof (cases listing)
    case (Inl err)
    then show ?thesis using 1 visited by simp
  next
    case (Inr ds)
    have "list_all resolved (map fst ds)" using "1.prems"(1) by (simp add: Inr)
    then have kids: "isDir \<Longrightarrow> \<forall>(n, d) \<in> set ds. resolved n \<and> tree_ok d \<and> sound d"
      using "1.prems"(1,2) by (auto simp: Inr list_all_iff)
    then show ?thesis using 1 visited Inr by (cases isDir) simp_all
  qed
next
  case (2 path f tw)
  then show ?case by simp
next
  case (3 path f name d1 dirs tw)
  then show ?case using below_Join [of path ns f name] by simp
qed

lemma walk_bad:
  "tree_ok d \<Longrightarrow> \<not> sound d \<Longrightarrow> below path ns f \<Longrightarrow> tw_Remaining tw \<le> 0 \<Longrightarrow> bad (walkDir path f d tw)"
  "(\<forall>(n, d) \<in> set ds. resolved n \<and> tree_ok d) \<Longrightarrow> \<not> (\<forall>(n, d) \<in> set ds. sound d) \<Longrightarrow> below path ns f \<Longrightarrow> tw_Remaining tw = 0 \<Longrightarrow>
     bad (walkEntries path f ds tw)"
proof (induction path f d tw and path f ds tw arbitrary: ns and ns rule: walkDir_walkEntries.induct)
  case (1 path f isDir info content listing tw)
  show ?case
  proof (cases "archivable info content")
    case False
    then have b: "bad (archiveEntry path f (Node isDir info content listing) tw)"
      using archiveEntry_bad [of info content] "1.prems"(1) by simp
    then show ?thesis using walkEntries_bad by (auto simp: bad_def [of "archiveEntry _ _ _ _"] split: sum.splits)
  next
    case True
    note visited = archiveEntry_good [OF "1.prems"(3) True "1.prems"(4), of isDir listing]
    have dir: isDir using "1.prems"(2) True by simp
    show ?thesis
    proof (cases listing)
      case (Inr ds)
      have "list_all resolved (map fst ds)" using "1.prems"(1) by (simp add: Inr)
      then have "\<forall>(n, d) \<in> set ds. resolved n \<and> tree_ok d" using "1.prems"(1) by (auto simp: Inr list_all_iff)
      then show ?thesis using 1 visited dir True Inr by simp
    qed (use visited dir in simp)
  qed
next
  case (3 path f name d1 dirs tw)
  have b: "below path (ns @ [name]) (JoinPath f name)" using below_Join "3.prems"(1,3) by simp
  show ?case
  proof (cases "sound d1")
    case True
    then show ?thesis using 3 b walk_good(1) [OF _ True b, of tw] by auto
  next
    case False
    then have "bad (walkDir path (JoinPath f name) d1 tw)" using 3 b by simp
    then show ?thesis using walkEntries_bad by (auto simp: bad_def [of "walkDir _ _ _ _"] split: sum.splits)
  qed
qed simp

lemma CreateTar_iff:
  assumes "path \<noteq> []" and "tree_ok d"
  shows "CreateTar path (Inr d) = Inr entries \<longleftrightarrow> sound d \<and> entries = entries_of [] d"
proof (cases "sound d")
  case True
  then show ?thesis using walk_good(1) [OF assms(2) True below_self [OF assms(1)], of NewWriter]
    by (auto simp: CreateTar_def NewWriter_def Flush_def)
next
  case False
  then have "bad (walkDir path path d NewWriter)"
    using walk_bad(1) [OF assms(2) False below_self [OF assms(1)]] by (simp add: NewWriter_def)
  then show ?thesis using False by (auto simp: CreateTar_def bad_def Flush_def split: sum.splits)
qed

section \<open>Unpacking\<close>

record unpacked =
  up_Flag :: typeflag
  up_Mode :: nat
  up_Link :: string
  up_Bytes :: string

text \<open>Unpacking an archive into a directory: each entry is created at its path below it.\<close>

definition entry_path :: "tar_header \<Rightarrow> string list" where
  "entry_path h = clean_elements False [] (elements (th_Name h))"

definition unpack_entry :: "tar_entry \<Rightarrow> string list \<times> unpacked" where
  "unpack_entry e = (entry_path (fst e),
     \<lparr>up_Flag = th_Typeflag (fst e), up_Mode = th_Mode (fst e), up_Link = th_Linkname (fst e), up_Bytes = snd e\<rparr>)"

definition unpack :: "tar_entry list \<Rightarrow> string list \<Rightarrow> unpacked option" where
  "unpack entries = foldl (\<lambda>m e. m(fst e \<mapsto> snd e)) Map.empty (map unpack_entry entries)"

text \<open>The node at a path of a tree, and what unpacking should make of it.\<close>

primrec lookup_node :: "string list \<Rightarrow> node \<Rightarrow> node option" where
  "lookup_node [] d = Some d"
| "lookup_node (n # ns) d =
     (if nd_IsDir d
      then case nd_Listing d of
             Inl err \<Rightarrow> None
           | Inr ds \<Rightarrow> (case map_of ds n of None \<Rightarrow> None | Some k \<Rightarrow> lookup_node ns k)
      else None)"

definition unpacked_node :: "node \<Rightarrow> unpacked option" where
  "unpacked_node d =
     (case nd_Info d of
        Inl err \<Rightarrow> None
      | Inr fi \<Rightarrow> Some \<lparr>up_Flag = flag_of (fi_Kind fi), up_Mode = fi_Perm fi, up_Link = [], up_Bytes = bytes_of fi (nd_Content d)\<rparr>)"

lemma entry_path_for:
  assumes "list_all resolved ns"
  shows "clean_elements False [] (elements (rel_name ns @ (if dir then [slash] else []))) = ns"
proof -
  have "elements dot = [dot]" by (simp add: dot_def plain_def slash_def)
  moreover have "elements (x @ [slash]) = elements x" for x using elements_append [of x "[]"] by simp
  ultimately show ?thesis
    using clean_elements_fixed [OF assms, of False "[]"] by (simp add: rel_name_def elements_join resolved_plain [OF assms])
qed

lemma unpack_for:
  assumes "list_all resolved ns" and "archivable info content"
  shows "map unpack_entry (entry_for ns info content) = [(ns, the (unpacked_node (Node isDir info content listing)))]"
  using assms entry_path_for [of ns]
  by (cases info) (simp_all add: archivable_def entry_for_def unpacked_node_def unpack_entry_def entry_path_def)

text \<open>The paths of a tree's entries extend its own, in lexicographic order.\<close>

lemma less_extend: "(ns :: string list) < ns @ n # x"
  by (induction ns) simp_all

lemma less_branch: "n < m \<Longrightarrow> (ns :: string list) @ n # x < ns @ m # y"
  by (induction ns) simp_all

lemma entries_of_kid:
  "e \<in> set (entries_of ns (Node isDir info content listing)) \<longleftrightarrow> e \<in> set (entry_for ns info content) \<or>
     isDir \<and> (\<exists>ds n d. listing = Inr ds \<and> (n, d) \<in> set ds \<and> e \<in> set (entries_of (ns @ [n]) d))"
  by (cases listing; cases isDir) (simp_all add: Bex_def split_paired_Ex)

lemma entries_extend:
  "list_all resolved ns \<Longrightarrow> tree_ok d \<Longrightarrow> sound d \<Longrightarrow> e \<in> set (entries_of ns d) \<Longrightarrow> prefix ns (fst (unpack_entry e))"
proof (induction ns d arbitrary: e rule: entries_of.induct)
  case (1 ns isDir info content listing)
  from "1.prems"(4) consider "e \<in> set (entry_for ns info content)"
    | ds n d where "isDir" "listing = Inr ds" "(n, d) \<in> set ds" "e \<in> set (entries_of (ns @ [n]) d)"
    unfolding entries_of_kid by blast
  then show ?case
  proof cases
    case 1
    have "archivable info content" using "1.prems"(3) by simp
    note unpack_for [OF "1.prems"(1) this, of isDir listing]
    moreover have "unpack_entry e \<in> set (map unpack_entry (entry_for ns info content))" using 1 by simp
    ultimately show ?thesis by (simp only: list.set insert_iff empty_iff) simp
  next
    case 2
    then have "resolved n" "tree_ok d" "sound d" using "1.prems"(2,3) by (auto simp: list_all_iff)
    then have "prefix (ns @ [n]) (fst (unpack_entry e))" using "1.IH" [OF 2(1,2,3) refl] 2(4) "1.prems"(1) by simp
    then show ?thesis by (rule append_prefixD)
  qed
qed

lemma entries_prefix:
  assumes "list_all resolved ns" and "tree_ok d" and "sound d"
  shows "\<forall>p \<in> fst ` set (map unpack_entry (entries_of ns d)). prefix ns p"
  using entries_extend [OF assms] by auto

lemma sorted_kids:
  assumes "sorted_wrt (<) (map fst ds)"
    and "\<And>n d. (n, d) \<in> set ds \<Longrightarrow> sorted_wrt (<) (map fst (f n d)) \<and> (\<forall>p \<in> fst ` set (f n d). prefix (ns @ [n]) p)"
  shows "sorted_wrt (<) (map fst (concat (map (\<lambda>(n, d). f n d) ds)) :: string list list)"
  using assms
proof (induction ds)
  case (Cons nd ds)
  obtain n d where nd: "nd = (n, d)" by (cases nd)
  have "p < q" if p: "p \<in> fst ` set (f n d)" and q: "q \<in> fst ` set (f m e)" and m: "(m, e) \<in> set ds" for p q m e
  proof -
    have "n < m" using Cons.prems(1) m by (auto simp: nd)
    moreover have "prefix (ns @ [n]) p" "prefix (ns @ [m]) q" using Cons.prems(2) [of n d] Cons.prems(2) [of m e] p q m nd by auto
    ultimately show ?thesis using less_branch [of n m ns] by (auto simp: prefix_def)
  qed
  then have "\<forall>p \<in> fst ` set (f n d). \<forall>q \<in> fst ` set (concat (map (\<lambda>(n, d). f n d) ds)). p < q"
    by fastforce
  moreover have "sorted_wrt (<) (map fst (concat (map (\<lambda>(n, d). f n d) ds)))"
    by (rule Cons.IH) (use Cons.prems in auto)
  moreover have "sorted_wrt (<) (map fst (f n d))" using Cons.prems(2) [of n d] nd by simp
  ultimately show ?case by (simp add: nd sorted_wrt_append)
qed simp

lemma entries_sorted:
  "list_all resolved ns \<Longrightarrow> tree_ok d \<Longrightarrow> sound d \<Longrightarrow> sorted_wrt (<) (map fst (map unpack_entry (entries_of ns d)))"
proof (induction ns d rule: entries_of.induct)
  case (1 ns isDir info content listing)
  note hd = unpack_for [of ns info content isDir listing]
  show ?case
  proof (cases isDir)
    case True
    then obtain ds where ds: "isDir" "listing = Inr ds" using "1.prems"(3) by (cases listing) simp_all
    have kid: "resolved n" "tree_ok d" "sound d" if "(n, d) \<in> set ds" for n d
      using "1.prems" ds that by (auto simp: list_all_iff)
    let ?f = "\<lambda>n d. map unpack_entry (entries_of (ns @ [n]) d)"
    have block: "sorted_wrt (<) (map fst (?f n d)) \<and> (\<forall>p \<in> fst ` set (?f n d). prefix (ns @ [n]) p)" if "(n, d) \<in> set ds" for n d
      using "1.IH" [OF ds that refl] kid [OF that] "1.prems"(1) entries_prefix [of "ns @ [n]" d] by simp
    have "sorted_wrt (<) (map fst (concat (map (\<lambda>(n, d). ?f n d) ds)))"
      using "1.prems"(2) ds by (intro sorted_kids [of ds ?f ns] block) simp_all
    moreover have "ns < p" if "p \<in> fst ` set (concat (map (\<lambda>(n, d). ?f n d) ds))" for p
    proof -
      from that obtain n d where "(n, d) \<in> set ds" "p \<in> fst ` set (?f n d)" by auto
      then show ?thesis using block less_extend by (fastforce simp: prefix_def simp del: set_map)
    qed
    moreover have "map unpack_entry (kid_entries ns ds) = concat (map (\<lambda>(n, d). ?f n d) ds)"
      by (simp add: map_concat comp_def case_prod_beta')
    ultimately show ?thesis using ds hd "1.prems" by simp
  next
    case False
    then show ?thesis using hd "1.prems" by simp
  qed
qed

text \<open>Looking a path up among the blocks of the children.\<close>

lemma map_of_blocks:
  assumes "distinct (map fst ds)"
    and "\<And>m d. (m, d) \<in> set ds \<Longrightarrow> \<forall>p \<in> fst ` set (f m d). prefix (ns @ [m]) p"
  shows "map_of (concat (map (\<lambda>(n, d). f n d) ds)) (ns @ n # es) =
    (case map_of ds n of None \<Rightarrow> None | Some d \<Rightarrow> map_of (f n d) (ns @ n # es))"
  using assms
proof (induction ds)
  case (Cons md ds)
  obtain m d where md: "md = (m, d)" by (cases md)
  have none: "map_of (f k d') (ns @ n # es) = None" if "(k, d') \<in> set (md # ds)" "k \<noteq> n" for k d'
    using Cons.prems(2) [OF that(1)] that(2) by (auto simp: map_of_eq_None_iff prefix_def)
  have IH: "map_of (concat (map (\<lambda>(n, d). f n d) ds)) (ns @ n # es) =
    (case map_of ds n of None \<Rightarrow> None | Some d \<Rightarrow> map_of (f n d) (ns @ n # es))"
    by (rule Cons.IH) (use Cons.prems in auto)
  show ?case
  proof (cases "m = n")
    case True
    then have "map_of ds n = None" using Cons.prems(1) by (simp add: md map_of_eq_None_iff)
    then show ?thesis using True IH by (simp add: md map_add_def split: option.split)
  next
    case False
    then show ?thesis using IH none [of m d] by (simp add: md map_add_def split: option.split)
  qed
qed simp

lemma map_of_entries:
  "list_all resolved ns \<Longrightarrow> tree_ok d \<Longrightarrow> sound d \<Longrightarrow>
     map_of (map unpack_entry (entries_of ns d)) (ns @ es) = Option.bind (lookup_node es d) unpacked_node"
proof (induction ns d arbitrary: es rule: entries_of.induct)
  case (1 ns isDir info content listing)
  let ?d = "Node isDir info content listing"
  have ok: "archivable info content" using "1.prems"(3) by simp
  then obtain u where u: "unpacked_node ?d = Some u" by (auto simp: archivable_def unpacked_node_def split: sum.splits)
  have hd: "map unpack_entry (entry_for ns info content) = [(ns, u)]"
    using unpack_for [OF "1.prems"(1) ok, of isDir listing] u by simp
  show ?case
  proof (cases es)
    case Nil
    then show ?thesis using hd u by simp
  next
    case (Cons n es')
    show ?thesis
    proof (cases isDir)
      case True
      then obtain ds where ds: "listing = Inr ds" using "1.prems"(3) by (cases listing) simp_all
      have kid: "resolved m" "tree_ok d" "sound d" if "(m, d) \<in> set ds" for m d
        using "1.prems" ds True that by (auto simp: list_all_iff)
      let ?f = "\<lambda>n d. map unpack_entry (entries_of (ns @ [n]) d)"
      have "map unpack_entry (kid_entries ns ds) = concat (map (\<lambda>(n, d). ?f n d) ds)"
        by (simp add: map_concat comp_def case_prod_beta')
      moreover have "map_of (concat (map (\<lambda>(n, d). ?f n d) ds)) (ns @ n # es') =
        (case map_of ds n of None \<Rightarrow> None | Some d \<Rightarrow> map_of (?f n d) (ns @ n # es'))"
      proof (rule map_of_blocks)
        show "distinct (map fst ds)" using "1.prems"(2) by (simp add: ds strict_sorted_iff)
        show "\<forall>p \<in> fst ` set (?f m d). prefix (ns @ [m]) p" if "(m, d) \<in> set ds" for m d
          using entries_prefix [of "ns @ [m]" d] kid [OF that] "1.prems"(1) by simp
      qed
      moreover have "map_of (?f n d) (ns @ n # es') = Option.bind (lookup_node es' d) unpacked_node" if "map_of ds n = Some d" for d
        using "1.IH" [OF True ds map_of_SomeD [OF that] refl, of es'] kid [OF map_of_SomeD [OF that]] "1.prems"(1) by simp
      ultimately show ?thesis using hd True by (simp add: Cons ds split: option.split)
    qed (use hd Cons in simp)
  qed
qed

lemma foldl_updates:
  "distinct (map fst xs) \<Longrightarrow> foldl (\<lambda>m e. m(fst e \<mapsto> snd e)) m0 xs = m0 ++ map_of xs"
proof (induction xs arbitrary: m0)
  case (Cons x xs)
  obtain p u where x: "x = (p, u)" by (cases x)
  have "map_of xs p = None" using Cons.prems by (simp add: x map_of_eq_None_iff)
  then have "m0(p \<mapsto> u) ++ map_of xs = m0 ++ map_of (x # xs)" by (auto simp: x map_add_def split: option.split)
  moreover have "foldl (\<lambda>m e. m(fst e \<mapsto> snd e)) (m0(p \<mapsto> u)) xs = m0(p \<mapsto> u) ++ map_of xs"
    by (rule Cons.IH) (use Cons.prems in simp)
  ultimately show ?case by (simp only: x foldl_Cons fst_conv snd_conv)
qed simp

lemma unpack_tree:
  assumes "tree_ok d" and "sound d"
  shows "unpack (entries_of [] d) es = Option.bind (lookup_node es d) unpacked_node"
proof -
  have "distinct (map fst (map unpack_entry (entries_of [] d)))"
    using entries_sorted [OF _ assms, of "[]"] by (simp add: strict_sorted_iff)
  then show ?thesis using map_of_entries [OF _ assms, of "[]" es] foldl_updates [of "map unpack_entry (entries_of [] d)" Map.empty]
    by (simp add: unpack_def)
qed

text \<open>Every entry has as many bytes as its header says, and no link has a target.\<close>

definition whole_entry :: "tar_entry \<Rightarrow> bool" where
  "whole_entry e \<longleftrightarrow> int (length (snd e)) = sint (th_Size (fst e)) \<and> th_Linkname (fst e) = []"

lemma entry_for_whole: "archivable info content \<Longrightarrow> list_all whole_entry (entry_for ns info content)"
  by (cases info) (auto simp: archivable_def entry_for_def bytes_of_def whole_entry_def)

lemma entries_whole: "sound d \<Longrightarrow> list_all whole_entry (entries_of ns d)"
proof (induction ns d rule: entries_of.induct)
  case (1 ns isDir info content listing)
  have "\<forall>e \<in> set (entries_of (ns @ [n]) k). whole_entry e" if "isDir" "listing = Inr ds" "(n, k) \<in> set ds" for ds n k
    using "1.IH" [OF that refl] "1.prems" that by (auto simp: list_all_iff)
  moreover have "\<forall>e \<in> set (entry_for ns info content). whole_entry e"
    using entry_for_whole [of info content ns] "1.prems" by (simp add: list_all_iff)
  ultimately show ?case unfolding list_all_iff Ball_def entries_of_kid by blast
qed

section \<open>Properties\<close>

text \<open>
  C38. The archive of a directory is written exactly when every call on it succeeds, every
  file still has the size it was listed with when it is read, and there is no socket; it then
  holds the entries of the tree in preorder. A file that grows or shrinks in between, a failing read and
  a failing close are errors, and an error never leaves a partial archive.
\<close>

theorem archive_written:
  assumes "path \<noteq> []" and "tree_ok d"
  shows "(CreateTar path (Inr d) = Inr entries \<longleftrightarrow> sound d \<and> entries = entries_of [] d) \<and>
    ((\<exists>err. CreateTar path (Inr d) = Inl err) \<longleftrightarrow> \<not> sound d) \<and> CreateTar path (Inl err) = Inl err"
proof -
  have "(\<exists>err. CreateTar path (Inr d) = Inl err) \<longleftrightarrow> \<not> (\<exists>entries. CreateTar path (Inr d) = Inr entries)"
    by (cases "CreateTar path (Inr d)") auto
  then show ?thesis using CreateTar_iff [OF assms] by (simp add: CreateTar_def)
qed

text \<open>A project with a source file, and a directory with a symbolic link.\<close>

definition demo_file :: "string \<Rightarrow> nat \<Rightarrow> node" where
  "demo_file bytes n = Node False (Inr \<lparr>fi_Kind = Regular, fi_Perm = 420, fi_Size = of_nat n, fi_ModTime = 0\<rparr>)
     (Inr (bytes, None, None)) (Inl (External ''not a directory''))"

definition demo_dir :: "(string \<times> node) list \<Rightarrow> node" where
  "demo_dir ds = Node True (Inr \<lparr>fi_Kind = Directory, fi_Perm = 493, fi_Size = 4096, fi_ModTime = 0\<rparr>)
     (Inl (External ''is a directory'')) (Inr ds)"

definition demo_link :: node where
  "demo_link = Node False (Inr \<lparr>fi_Kind = Symlink, fi_Perm = 511, fi_Size = 4, fi_ModTime = 0\<rparr>)
     (Inl (External ''loop'')) (Inl (External ''not a directory''))"

definition demo_tree :: "nat \<Rightarrow> node" where
  "demo_tree n = demo_dir [(''main.go'', demo_file ''package main'' n), (''sub'', demo_dir [(''link'', demo_link)])]"

lemma demo_names: "resolved ''main.go''" "resolved ''sub''" "resolved ''link''" "''main.go'' < ''sub''"
  by code_simp+

lemma demo_tree_ok: "n < 100 \<Longrightarrow> tree_ok (demo_tree n)"
  using sint_of_int64 [of "int n"]
  by (simp add: demo_tree_def demo_dir_def demo_file_def demo_link_def demo_names in_int64_def min_int64_def max_int64_def)

lemma demo_sound: "n < 100 \<Longrightarrow> sound (demo_tree n) \<longleftrightarrow> n = 12"
  using sint_of_int64 [of "int n"]
  by (auto simp: demo_tree_def demo_dir_def demo_file_def demo_link_def archivable_def in_int64_def min_int64_def max_int64_def)

theorem archive_written_witness:
  "(\<exists>entries. CreateTar ''/p'' (Inr (demo_tree 12)) = Inr entries) \<and> (\<exists>err. CreateTar ''/p'' (Inr (demo_tree 13)) = Inl err)"
  using archive_written [of "''/p''" "demo_tree 12" "entries_of [] (demo_tree 12)" undefined]
    archive_written [of "''/p''" "demo_tree 13" "[]" undefined] demo_tree_ok [of 12] demo_tree_ok [of 13] demo_sound [of 12] demo_sound [of 13]
  by auto

text \<open>
  C39. Unpacking the archive of a directory gives the directory back: at every path the kind,
  the permissions and the bytes of what was there, and nothing else; but symbolic links lose their targets.
  Entries come in the order of their paths, so each directory before its contents and none
  twice, and have as many bytes as their headers say.
\<close>

theorem archive_roundtrip:
  assumes "path \<noteq> []" and "tree_ok d" and "CreateTar path (Inr d) = Inr entries"
  shows "unpack entries es = Option.bind (lookup_node es d) unpacked_node \<and>
    sorted_wrt (<) (map (\<lambda>e. entry_path (fst e)) entries) \<and> list_all whole_entry entries"
proof -
  have s: "sound d" "entries = entries_of [] d" using iffD1 [OF CreateTar_iff [OF assms(1,2)] assms(3)] by blast+
  have "map (\<lambda>e. entry_path (fst e)) entries = map fst (map unpack_entry entries)" by (simp add: unpack_entry_def)
  then show ?thesis
    using s unpack_tree [OF assms(2) s(1)] entries_sorted [OF _ assms(2) s(1), of "[]"] entries_whole [OF s(1)] by (simp only: list.pred_inject)
qed

theorem archive_roundtrip_witness:
  "\<exists>entries. CreateTar ''/p'' (Inr (demo_tree 12)) = Inr entries \<and>
     map_option up_Bytes (unpack entries [''main.go'']) = Some ''package main'' \<and>
     unpack entries [''sub'', ''link''] = Some \<lparr>up_Flag = TypeSymlink, up_Mode = 511, up_Link = [], up_Bytes = []\<rparr>"
proof -
  have tree: "tree_ok (demo_tree 12)" by (rule demo_tree_ok) simp
  then have ok: "CreateTar ''/p'' (Inr (demo_tree 12)) = Inr (entries_of [] (demo_tree 12))"
    using CreateTar_iff [of "''/p''" "demo_tree 12"] demo_sound [of 12] by simp
  show ?thesis
    using ok archive_roundtrip [OF _ tree ok, of "[''main.go'']"] archive_roundtrip [OF _ tree ok, of "[''sub'', ''link'']"]
    by (simp add: demo_tree_def demo_dir_def demo_file_def demo_link_def unpacked_node_def bytes_of_def)
qed

end
