(* ===== verification/Domain.thy ===== *)
theory Domain
  imports Prelude
begin

text \<open>
  The domain model (package \<open>internal/domain\<close>): pipelines, lifecycle events, statuses and
  results, and the aggregation of step results into job, stage and pipeline statuses. The
  aggregation rests on one contract, stated as the locale \<open>ranked_worst\<close>: a binary
  choice that keeps one of its operands and takes the maximum of their ranks.
\<close>

section \<open>Pipelines (\<open>pipeline.go\<close>)\<close>

record go_step =
  step_Name :: string
  step_Run :: string
  step_Timeout :: goint

record go_job =
  job_Name :: string
  job_Image :: string
  job_Setup :: "string list"
  job_Steps :: "go_step list"
  job_Env :: "string gomap"

record go_stage =
  stage_Name :: string
  stage_Jobs :: "go_job list"

record go_pipeline =
  pipeline_Name :: string
  pipeline_Stages :: "go_stage list"

section \<open>Lifecycle events (\<open>event.go\<close>)\<close>

definition EventPipelineStarted :: string where "EventPipelineStarted = ''pipeline.started''"
definition EventPipelineFinished :: string where "EventPipelineFinished = ''pipeline.finished''"
definition EventJobStarted :: string where "EventJobStarted = ''job.started''"
definition EventJobFinished :: string where "EventJobFinished = ''job.finished''"
definition EventStepStarted :: string where "EventStepStarted = ''step.started''"
definition EventStepFinished :: string where "EventStepFinished = ''step.finished''"

lemmas event_type_defs = EventPipelineStarted_def EventPipelineFinished_def
  EventJobStarted_def EventJobFinished_def EventStepStarted_def EventStepFinished_def

record go_event =
  ev_Type :: string
  ev_OccurredAt :: gotime
  ev_RunID :: string
  ev_Pipeline :: string
  ev_Job :: string
  ev_Step :: string
  ev_Payload :: "string gomap"

section \<open>Statuses and exit codes (\<open>status.go\<close>)\<close>

datatype status = Status (slug: string)

definition StatusUnknown :: status where "StatusUnknown = Status []"
definition StatusPending :: status where "StatusPending = Status ''pending''"
definition StatusRunning :: status where "StatusRunning = Status ''running''"
definition StatusPassed :: status where "StatusPassed = Status ''passed''"
definition StatusFailed :: status where "StatusFailed = Status ''failed''"
definition StatusSkipped :: status where "StatusSkipped = Status ''skipped''"
definition StatusErrored :: status where "StatusErrored = Status ''errored''"

lemmas status_defs = StatusUnknown_def StatusPending_def StatusRunning_def StatusPassed_def
  StatusFailed_def StatusSkipped_def StatusErrored_def

text \<open>\<open>Status.String\<close> is the slug.\<close>

definition status_String :: "status \<Rightarrow> string" where
  "status_String s = slug s"

definition ExitSuccess :: goint where "ExitSuccess = 0"
definition ExitFailure :: goint where "ExitFailure = 1"
definition ExitNone :: goint where "ExitNone = -1"

lemmas exit_defs = ExitSuccess_def ExitFailure_def ExitNone_def

section \<open>Results (\<open>result.go\<close>)\<close>

record step_result =
  sr_StepName :: string
  sr_Stdout :: string
  sr_Stderr :: string
  sr_ExitCode :: goint
  sr_Duration :: duration
  sr_Err :: "go_error option"

record job_result =
  jr_JobName :: string
  jr_StepResults :: "step_result list"
  jr_SetupErr :: "go_error option"

record stage_result =
  gr_StageName :: string
  gr_JobResults :: "job_result list"
  gr_Duration :: duration

record pipeline_result =
  pr_RunID :: string
  pr_Duration :: duration
  pr_PipelineName :: string
  pr_StageResults :: "stage_result list"

definition statusRank :: "status \<Rightarrow> nat" where
  "statusRank s =
     (if s = StatusErrored then 6
      else if s = StatusFailed then 5
      else if s = StatusUnknown then 4
      else if s = StatusRunning then 3
      else if s = StatusPending then 2
      else if s = StatusSkipped then 1
      else if s = StatusPassed then 0
      else 0)"

definition worstStatus :: "status \<Rightarrow> status \<Rightarrow> status" where
  "worstStatus a b = (if statusRank b > statusRank a then b else a)"

definition stepStatus :: "step_result \<Rightarrow> status" where
  "stepStatus r =
     (if sr_Err r \<noteq> None then StatusErrored
      else if sr_ExitCode r = ExitSuccess then StatusPassed
      else StatusFailed)"

definition jobStatus :: "job_result \<Rightarrow> status" where
  "jobStatus r =
     (if jr_SetupErr r \<noteq> None then StatusErrored
      else if length (jr_StepResults r) = 0 then StatusPending
      else foldl (\<lambda>worst sr. worstStatus worst (stepStatus sr)) StatusPassed (jr_StepResults r))"

definition jobDuration :: "job_result \<Rightarrow> duration" where
  "jobDuration r =
     (if length (jr_StepResults r) = 0 then 0
      else foldl (\<lambda>d sr. d + sr_Duration sr) 0 (jr_StepResults r))"

definition stageStatus :: "stage_result \<Rightarrow> status" where
  "stageStatus r =
     (if length (gr_JobResults r) = 0 then StatusPending
      else foldl (\<lambda>worst jr. worstStatus worst (jobStatus jr)) StatusPassed (gr_JobResults r))"

definition pipelineStatus :: "pipeline_result \<Rightarrow> status" where
  "pipelineStatus r =
     (if length (pr_StageResults r) = 0 then StatusPending
      else foldl (\<lambda>worst sr. worstStatus worst (stageStatus sr)) StatusPassed (pr_StageResults r))"

section \<open>The contract of the aggregation\<close>

locale ranked_worst =
  fixes rank :: "'s \<Rightarrow> nat" and worst :: "'s \<Rightarrow> 's \<Rightarrow> 's"
  assumes rank_worst: "rank (worst a b) = max (rank a) (rank b)"
    and worst_operand: "worst a b = a \<or> worst a b = b"
begin

lemma fold_member: "foldl worst a xs \<in> insert a (set xs)"
  by (induction xs arbitrary: a) (use worst_operand in force)+

lemma fold_rank_ge: "x \<in> insert a (set xs) \<Longrightarrow> rank x \<le> rank (foldl worst a xs)"
proof (induction xs arbitrary: a x)
  case Nil
  then show ?case by simp
next
  case (Cons y xs)
  have ge: "rank (worst a y) \<le> rank (foldl worst (worst a y) xs)" by (rule Cons.IH) simp
  show ?case
  proof (cases "x \<in> set xs")
    case True
    then show ?thesis using Cons.IH [of x "worst a y"] by simp
  next
    case False
    then have "rank x \<le> rank (worst a y)" using Cons.prems by (auto simp: rank_worst)
    then show ?thesis using ge by simp
  qed
qed

text \<open>Where ranks tell statuses apart, the fold is the one operand of greatest rank.\<close>

lemma fold_eqI:
  assumes "y \<in> insert a (set xs)" and "\<And>x. x \<in> insert a (set xs) \<Longrightarrow> rank x \<le> rank y"
    and "inj_on rank (insert a (set xs))"
  shows "foldl worst a xs = y"
  using assms fold_member [of a xs] fold_rank_ge [OF assms(1)]
  by (meson inj_onD order_antisym)

lemma fold_set_cong:
  assumes "insert a (set xs) = insert a (set ys)" and "inj_on rank (insert a (set xs))"
  shows "foldl worst a xs = foldl worst a ys"
  by (rule fold_eqI) (use assms fold_member [of a ys] fold_rank_ge [of _ a ys] in auto)

end

interpretation st: ranked_worst statusRank worstStatus
  by unfold_locales (auto simp: worstStatus_def)

section \<open>Statuses that results can have\<close>

definition known_statuses :: "status list" where
  "known_statuses = [StatusUnknown, StatusPending, StatusRunning, StatusPassed, StatusFailed,
     StatusSkipped, StatusErrored]"

definition result_statuses :: "status set" where
  "result_statuses = {StatusPending, StatusPassed, StatusFailed, StatusErrored}"

lemma status_distinct [simp]: "distinct known_statuses"
  by (simp add: known_statuses_def status_defs)

lemma statusRank_values [simp]:
  "statusRank StatusErrored = 6" "statusRank StatusFailed = 5" "statusRank StatusUnknown = 4"
  "statusRank StatusRunning = 3" "statusRank StatusPending = 2" "statusRank StatusSkipped = 1"
  "statusRank StatusPassed = 0"
  by (simp_all add: statusRank_def status_defs)

lemma status_neqs [simp]:
  "StatusErrored \<noteq> StatusFailed" "StatusErrored \<noteq> StatusPassed" "StatusErrored \<noteq> StatusPending"
  "StatusFailed \<noteq> StatusErrored" "StatusFailed \<noteq> StatusPassed" "StatusFailed \<noteq> StatusPending"
  "StatusPassed \<noteq> StatusErrored" "StatusPassed \<noteq> StatusFailed" "StatusPassed \<noteq> StatusPending"
  "StatusPending \<noteq> StatusErrored" "StatusPending \<noteq> StatusFailed" "StatusPending \<noteq> StatusPassed"
  by (simp_all add: status_defs)

lemma statusRank_inj: "inj_on statusRank (set known_statuses)"
  by (auto simp: inj_on_def known_statuses_def)

lemma statusRank_inj_result: "A \<subseteq> result_statuses \<Longrightarrow> inj_on statusRank A"
  by (rule inj_on_subset [where B = A and A = result_statuses])
    (auto simp: result_statuses_def)

lemma stepStatus_cases: "stepStatus r \<in> {StatusPassed, StatusFailed, StatusErrored}"
  by (simp add: stepStatus_def)

text \<open>The three aggregation loops of the code are one fold over the parts' statuses.\<close>

definition aggregate :: "status list \<Rightarrow> status" where
  "aggregate ss = (if ss = [] then StatusPending else foldl worstStatus StatusPassed ss)"

lemma jobStatus_aggregate:
  "jobStatus r = (if jr_SetupErr r \<noteq> None then StatusErrored else aggregate (map stepStatus (jr_StepResults r)))"
  by (simp add: jobStatus_def aggregate_def foldl_map)

lemma stageStatus_aggregate: "stageStatus r = aggregate (map jobStatus (gr_JobResults r))"
  by (simp add: stageStatus_def aggregate_def foldl_map)

lemma pipelineStatus_aggregate: "pipelineStatus r = aggregate (map stageStatus (pr_StageResults r))"
  by (simp add: pipelineStatus_def aggregate_def foldl_map)

lemmas status_aggregates = jobStatus_aggregate stageStatus_aggregate pipelineStatus_aggregate

lemma aggregate_spec:
  assumes "set ss \<subseteq> result_statuses"
  shows "aggregate ss =
    (if StatusErrored \<in> set ss then StatusErrored
     else if StatusFailed \<in> set ss then StatusFailed
     else if ss = [] \<or> StatusPending \<in> set ss then StatusPending
     else StatusPassed)"
proof (cases "ss = []")
  case False
  have inj: "inj_on statusRank (insert StatusPassed (set ss))"
    by (rule statusRank_inj_result) (use assms in \<open>simp add: result_statuses_def\<close>)
  have "foldl worstStatus StatusPassed ss =
    (if StatusErrored \<in> set ss then StatusErrored
     else if StatusFailed \<in> set ss then StatusFailed
     else if StatusPending \<in> set ss then StatusPending
     else StatusPassed)"
    by (rule st.fold_eqI [OF _ _ inj])
      (use assms in \<open>auto simp: result_statuses_def split: if_splits\<close>)
  then show ?thesis using False by (simp add: aggregate_def)
qed (simp add: aggregate_def)

lemma aggregate_result: "set ss \<subseteq> result_statuses \<Longrightarrow> aggregate ss \<in> result_statuses"
  by (simp add: aggregate_spec) (simp add: result_statuses_def)

lemma status_result [simp, intro]:
  "stepStatus sr \<in> result_statuses" "jobStatus jr \<in> result_statuses"
  "stageStatus gr \<in> result_statuses" "pipelineStatus pr \<in> result_statuses"
proof -
  show s: "stepStatus sr \<in> result_statuses" for sr
    using stepStatus_cases [of sr] by (auto simp: result_statuses_def)
  show j: "jobStatus jr \<in> result_statuses" for jr
    using aggregate_result [of "map stepStatus (jr_StepResults jr)"] s
    by (auto simp: jobStatus_aggregate result_statuses_def)
  show g: "stageStatus gr \<in> result_statuses" for gr
    unfolding stageStatus_aggregate by (rule aggregate_result) (use j in auto)
  show "pipelineStatus pr \<in> result_statuses"
    unfolding pipelineStatus_aggregate by (rule aggregate_result) (use g in auto)
qed

lemma aggregate_map_spec:
  assumes "\<And>x. x \<in> set xs \<Longrightarrow> f x \<in> result_statuses"
  shows "aggregate (map f xs) = StatusErrored \<longleftrightarrow> (\<exists>x \<in> set xs. f x = StatusErrored)"
    and "aggregate (map f xs) = StatusFailed \<longleftrightarrow>
      (\<exists>x \<in> set xs. f x = StatusFailed) \<and> (\<forall>x \<in> set xs. f x \<noteq> StatusErrored)"
    and "aggregate (map f xs) = StatusPassed \<longleftrightarrow> xs \<noteq> [] \<and> (\<forall>x \<in> set xs. f x = StatusPassed)"
proof -
  have sub: "set (map f xs) \<subseteq> result_statuses" using assms by auto
  have mem: "v \<in> set (map f xs) \<longleftrightarrow> (\<exists>x \<in> set xs. f x = v)" for v by auto
  note spec = aggregate_spec [OF sub, unfolded mem]
  show "aggregate (map f xs) = StatusErrored \<longleftrightarrow> (\<exists>x \<in> set xs. f x = StatusErrored)"
    by (simp add: spec)
  show "aggregate (map f xs) = StatusFailed \<longleftrightarrow>
      (\<exists>x \<in> set xs. f x = StatusFailed) \<and> (\<forall>x \<in> set xs. f x \<noteq> StatusErrored)"
    by (auto simp: spec)
  have "\<And>x. x \<in> set xs \<Longrightarrow> f x \<in> {StatusPending, StatusPassed, StatusFailed, StatusErrored}"
    using assms by (simp add: result_statuses_def)
  then show "aggregate (map f xs) = StatusPassed \<longleftrightarrow> xs \<noteq> [] \<and> (\<forall>x \<in> set xs. f x = StatusPassed)"
    by (auto simp: spec) (metis status_neqs(5), metis status_neqs(5), metis status_neqs(2))
qed

lemma stageStatus_iff:
  "stageStatus g = StatusErrored \<longleftrightarrow> (\<exists>j \<in> set (gr_JobResults g). jobStatus j = StatusErrored)"
  "stageStatus g = StatusFailed \<longleftrightarrow> (\<exists>j \<in> set (gr_JobResults g). jobStatus j = StatusFailed) \<and>
     (\<forall>j \<in> set (gr_JobResults g). jobStatus j \<noteq> StatusErrored)"
  "stageStatus g = StatusPassed \<longleftrightarrow>
     gr_JobResults g \<noteq> [] \<and> (\<forall>j \<in> set (gr_JobResults g). jobStatus j = StatusPassed)"
  unfolding stageStatus_aggregate using aggregate_map_spec [of "gr_JobResults g" jobStatus] by simp_all

lemma pipelineStatus_iff:
  "pipelineStatus p = StatusErrored \<longleftrightarrow> (\<exists>g \<in> set (pr_StageResults p). stageStatus g = StatusErrored)"
  "pipelineStatus p = StatusFailed \<longleftrightarrow> (\<exists>g \<in> set (pr_StageResults p). stageStatus g = StatusFailed) \<and>
     (\<forall>g \<in> set (pr_StageResults p). stageStatus g \<noteq> StatusErrored)"
  "pipelineStatus p = StatusPassed \<longleftrightarrow>
     pr_StageResults p \<noteq> [] \<and> (\<forall>g \<in> set (pr_StageResults p). stageStatus g = StatusPassed)"
  unfolding pipelineStatus_aggregate using aggregate_map_spec [of "pr_StageResults p" stageStatus] by simp_all

lemma jobStatus_passed_iff:
  "jobStatus j = StatusPassed \<longleftrightarrow> jr_SetupErr j = None \<and> jr_StepResults j \<noteq> [] \<and>
     (\<forall>s \<in> set (jr_StepResults j). sr_Err s = None \<and> sr_ExitCode s = ExitSuccess)"
proof -
  have "stepStatus s = StatusPassed \<longleftrightarrow> sr_Err s = None \<and> sr_ExitCode s = ExitSuccess" for s
    by (simp add: stepStatus_def)
  then show ?thesis
    using aggregate_map_spec(3) [of "jr_StepResults j" stepStatus]
    by (simp add: jobStatus_aggregate)
qed

lemma jobStatus_eq:
  "jobStatus r =
     (if jr_SetupErr r \<noteq> None \<or> (\<exists>sr \<in> set (jr_StepResults r). sr_Err sr \<noteq> None) then StatusErrored
      else if jr_StepResults r = [] then StatusPending
      else if \<exists>sr \<in> set (jr_StepResults r). sr_ExitCode sr \<noteq> ExitSuccess then StatusFailed
      else StatusPassed)"
proof (cases "jr_SetupErr r \<noteq> None \<or> jr_StepResults r = []")
  case True
  then show ?thesis by (auto simp: jobStatus_aggregate aggregate_def)
next
  case False
  note agg = aggregate_map_spec [of "jr_StepResults r" stepStatus, OF status_result(1)]
  have eq: "jobStatus r = aggregate (map stepStatus (jr_StepResults r))"
    using False by (simp add: jobStatus_aggregate)
  have err: "jobStatus r = StatusErrored \<longleftrightarrow> (\<exists>sr \<in> set (jr_StepResults r). sr_Err sr \<noteq> None)"
    unfolding eq agg(1) by (auto simp: stepStatus_def)
  have pass: "jobStatus r = StatusPassed \<longleftrightarrow>
      (\<forall>sr \<in> set (jr_StepResults r). sr_Err sr = None \<and> sr_ExitCode sr = ExitSuccess)"
    using False by (simp add: jobStatus_passed_iff)
  have fail: "jobStatus r = StatusFailed \<longleftrightarrow>
      (\<exists>sr \<in> set (jr_StepResults r). sr_Err sr = None \<and> sr_ExitCode sr \<noteq> ExitSuccess) \<and>
      (\<forall>sr \<in> set (jr_StepResults r). sr_Err sr = None)"
    unfolding eq agg(2) by (auto simp: stepStatus_def)
  show ?thesis
  proof (cases "\<exists>sr \<in> set (jr_StepResults r). sr_Err sr \<noteq> None")
    case True
    then show ?thesis using err by simp
  next
    case noerr: False
    then show ?thesis using False pass fail by auto
  qed
qed

section \<open>Properties\<close>

text \<open>
  A job's status is what the documentation of \<open>JobResult.Status\<close> says: Errored exactly
  when the setup failed or a step hit an infrastructure fault, else Pending exactly when no
  step ran, else Failed exactly when a step's process exited non-zero, else Passed.
\<close>

theorem jobStatus_spec:
  "jobStatus r =
     (if jr_SetupErr r \<noteq> None \<or> (\<exists>sr \<in> set (jr_StepResults r). sr_Err sr \<noteq> None) then StatusErrored
      else if jr_StepResults r = [] then StatusPending
      else if \<exists>sr \<in> set (jr_StepResults r). sr_ExitCode sr \<noteq> ExitSuccess then StatusFailed
      else StatusPassed)"
  by (rule jobStatus_eq)

theorem jobStatus_spec_witness:
  "jobStatus \<lparr>jr_JobName = ''j'', jr_StepResults = [\<lparr>sr_StepName = ''s'', sr_Stdout = [], sr_Stderr = [], sr_ExitCode = 2,
     sr_Duration = 0, sr_Err = None\<rparr>], jr_SetupErr = None\<rparr> = StatusFailed"
  unfolding jobStatus_spec by (simp add: exit_defs)

text \<open>
  C26. A pipeline passes exactly when it ran at least one stage, every stage ran at least one
  job, and every job set up, ran at least one step and had all its steps exit zero without a
  fault; it is Errored exactly when some job is, and Failed exactly when some job failed and
  none is Errored. No empty stage, skipped job or fault can hide in a green pipeline.
\<close>

theorem pipelineStatus_spec:
  "(pipelineStatus p = StatusPassed \<longleftrightarrow>
      pr_StageResults p \<noteq> [] \<and>
      (\<forall>g \<in> set (pr_StageResults p). gr_JobResults g \<noteq> [] \<and>
        (\<forall>j \<in> set (gr_JobResults g). jr_SetupErr j = None \<and> jr_StepResults j \<noteq> [] \<and>
          (\<forall>s \<in> set (jr_StepResults j). sr_Err s = None \<and> sr_ExitCode s = ExitSuccess)))) \<and>
   (pipelineStatus p = StatusErrored \<longleftrightarrow>
      (\<exists>g \<in> set (pr_StageResults p). \<exists>j \<in> set (gr_JobResults g). jobStatus j = StatusErrored)) \<and>
   (pipelineStatus p = StatusFailed \<longleftrightarrow>
      (\<exists>g \<in> set (pr_StageResults p). \<exists>j \<in> set (gr_JobResults g). jobStatus j = StatusFailed) \<and>
      (\<forall>g \<in> set (pr_StageResults p). \<forall>j \<in> set (gr_JobResults g). jobStatus j \<noteq> StatusErrored))"
  unfolding pipelineStatus_iff stageStatus_iff jobStatus_passed_iff by blast

text \<open>One stage with one job that ran one step.\<close>

definition demo_stages :: "goint \<Rightarrow> pipeline_result" where
  "demo_stages code = \<lparr>pr_RunID = ''r'', pr_Duration = 1, pr_PipelineName = ''ci'', pr_StageResults =
     [\<lparr>gr_StageName = ''check'', gr_JobResults = [\<lparr>jr_JobName = ''lint'', jr_StepResults =
        [\<lparr>sr_StepName = ''vet'', sr_Stdout = [], sr_Stderr = [], sr_ExitCode = code, sr_Duration = 1, sr_Err = None\<rparr>],
        jr_SetupErr = None\<rparr>], gr_Duration = 1\<rparr>]\<rparr>"

theorem pipelineStatus_spec_witness:
  "pipelineStatus (demo_stages 0) = StatusPassed \<and> pipelineStatus (demo_stages 3) = StatusFailed"
  using pipelineStatus_spec [of "demo_stages 0"] pipelineStatus_spec [of "demo_stages 3"]
  by (simp add: demo_stages_def exit_defs jobStatus_eq)

end
