(* ===== verification/Process.thy ===== *)
theory Process
  imports Domain
begin

text \<open>
  Effects. The program acts on the world only through calls: the Docker client, the Redis
  client, the event sink, the clock, the context and the file system. A piece of code that
  makes calls is a \<^emph>\<open>process\<close>: it has returned, or it makes one call and goes on with
  whatever the call answers. Processes are finite on every path, so a function translated
  to a process returns whatever its environment answers. A behaviour of a process is the
  trace of its calls with the answers it got; properties are stated over all behaviours,
  that is, for every environment. The answers come from code outside the repository and
  are not constrained.
\<close>

section \<open>Contexts\<close>

text \<open>
  Contexts are kept symbolically, by how the code derives them. The loggers attached
  to them are in theory Logging.
\<close>

datatype ctx =
    Background
  | RequestCtx
  | GroupCtx ctx
  | TimeoutCtx ctx duration
  | WithoutCancel ctx

text \<open>Whether cancelling the request cancels the context.\<close>

fun inherits_cancel :: "ctx \<Rightarrow> bool" where
  "inherits_cancel Background = False"
| "inherits_cancel RequestCtx = True"
| "inherits_cancel (GroupCtx c) = inherits_cancel c"
| "inherits_cancel (TimeoutCtx c d) = inherits_cancel c"
| "inherits_cancel (WithoutCancel c) = False"

section \<open>Calls\<close>

record create_options =
  co_Image :: string
  co_Env :: "string list"
  co_Labels :: "string gomap"
  co_WorkingDir :: string
  co_Cmd :: "string list"

record exec_options =
  eo_Cmd :: "string list"
  eo_Env :: "string list"
  eo_AttachStdout :: bool
  eo_AttachStderr :: bool

datatype redis_value = RString string | ROther

record xmessage =
  msg_ID :: string
  msg_Values :: "redis_value gomap"

text \<open>What the server's main program asks of the host, of SQLite and of its libraries.\<close>

datatype host_call =
    GodotenvLoad
  | NetListen string
  | NewRedisClient string
  | CloseRedis
  | SqlOpen string
  | SetMaxOpenConns nat
  | SqlExec string
  | MigrationFiles
  | NewProvider
  | MigrateUp
  | CloseDB
  | GoConsumer string string
  | StopSignals
  | NewDockerClient
  | CloseDocker
  | PingDocker
  | ServeGRPC

text \<open>Calls that answer with an error or nil.\<close>

datatype ecall =
    ImagePull ctx string
  | ReadPullBody string
  | ClosePullBody string
  | CopyToContainer ctx string string string
  | ContainerStart ctx string
  | ContainerRemove ctx string bool bool
  | ExecAttach ctx string
  | CloseAttach string
  | Publish ctx go_event
  | CtxErr ctx
  | HandleEvent ctx go_event
  | XGroupCreateMkStream ctx string string string
  | XAdd ctx string "(goint \<times> bool) option" "string gomap"
  | XAck ctx string string string
  | WaitAfter ctx duration
  | Host host_call

text \<open>Calls that answer with a string (an identifier or bytes).\<close>

datatype scall =
    ContainerCreate ctx create_options
  | ExecCreate ctx string exec_options
  | CreateArchive string
  | RandRead nat
  | Hostname

datatype ocall = StdCopy string
datatype icall = ExecInspect ctx string
datatype rcall = XReadGroup ctx string string string goint duration
datatype ccall = XAutoClaim ctx string string string duration string goint
datatype pcall = XPendingExt ctx string string string string goint
datatype mcall = XRange ctx string string string

section \<open>Processes\<close>

datatype 'a proc =
    Return 'a
  | CallE ecall "go_error option \<Rightarrow> 'a proc"
  | CallS scall "go_error + string \<Rightarrow> 'a proc"
  | CallO ocall "go_error + string \<times> string \<Rightarrow> 'a proc"
  | CallI icall "go_error + goint \<Rightarrow> 'a proc"
  | CallR rcall "go_error + xmessage list list \<Rightarrow> 'a proc"
  | CallC ccall "go_error + xmessage list \<times> string \<Rightarrow> 'a proc"
  | CallP pcall "go_error + goint list \<Rightarrow> 'a proc"
  | CallM mcall "go_error + xmessage list \<Rightarrow> 'a proc"
  | Now "gotime \<Rightarrow> 'a proc"

primrec pbind :: "'a proc \<Rightarrow> ('a \<Rightarrow> 'b proc) \<Rightarrow> 'b proc" where
  "pbind (Return a) f = f a"
| "pbind (CallE c k) f = CallE c (\<lambda>r. pbind (k r) f)"
| "pbind (CallS c k) f = CallS c (\<lambda>r. pbind (k r) f)"
| "pbind (CallO c k) f = CallO c (\<lambda>r. pbind (k r) f)"
| "pbind (CallI c k) f = CallI c (\<lambda>r. pbind (k r) f)"
| "pbind (CallR c k) f = CallR c (\<lambda>r. pbind (k r) f)"
| "pbind (CallC c k) f = CallC c (\<lambda>r. pbind (k r) f)"
| "pbind (CallP c k) f = CallP c (\<lambda>r. pbind (k r) f)"
| "pbind (CallM c k) f = CallM c (\<lambda>r. pbind (k r) f)"
| "pbind (Now k) f = Now (\<lambda>t. pbind (k t) f)"

lemma pbind_Return [simp]: "pbind p Return = p"
  by (induction p) simp_all

lemma pbind_assoc: "pbind (pbind p f) g = pbind p (\<lambda>a. pbind (f a) g)"
  by (induction p) simp_all

text \<open>Single calls.\<close>

definition callE :: "ecall \<Rightarrow> go_error option proc" where "callE c = CallE c Return"
definition callS :: "scall \<Rightarrow> (go_error + string) proc" where "callS c = CallS c Return"
definition callO :: "ocall \<Rightarrow> (go_error + string \<times> string) proc" where "callO c = CallO c Return"
definition callI :: "icall \<Rightarrow> (go_error + goint) proc" where "callI c = CallI c Return"
definition callR :: "rcall \<Rightarrow> (go_error + xmessage list list) proc" where "callR c = CallR c Return"
definition callC :: "ccall \<Rightarrow> (go_error + xmessage list \<times> string) proc" where "callC c = CallC c Return"
definition callP :: "pcall \<Rightarrow> (go_error + goint list) proc" where "callP c = CallP c Return"
definition callM :: "mcall \<Rightarrow> (go_error + xmessage list) proc" where "callM c = CallM c Return"
definition now :: "gotime proc" where "now = Now Return"

lemmas call_defs = callE_def callS_def callO_def callI_def callR_def callC_def callP_def
  callM_def now_def

section \<open>Behaviours\<close>

text \<open>An observation is a call together with its answer.\<close>

datatype obs =
    ObsE ecall "go_error option"
  | ObsS scall "go_error + string"
  | ObsO ocall "go_error + string \<times> string"
  | ObsI icall "go_error + goint"
  | ObsR rcall "go_error + xmessage list list"
  | ObsC ccall "go_error + xmessage list \<times> string"
  | ObsP pcall "go_error + goint list"
  | ObsM mcall "go_error + xmessage list"
  | ObsT gotime

definition advance :: "'a proc \<Rightarrow> obs \<Rightarrow> 'a proc option" where
  "advance p ob = (case p of
      Return a \<Rightarrow> None
    | CallE c k \<Rightarrow> (case ob of ObsE c' r \<Rightarrow> if c = c' then Some (k r) else None | _ \<Rightarrow> None)
    | CallS c k \<Rightarrow> (case ob of ObsS c' r \<Rightarrow> if c = c' then Some (k r) else None | _ \<Rightarrow> None)
    | CallO c k \<Rightarrow> (case ob of ObsO c' r \<Rightarrow> if c = c' then Some (k r) else None | _ \<Rightarrow> None)
    | CallI c k \<Rightarrow> (case ob of ObsI c' r \<Rightarrow> if c = c' then Some (k r) else None | _ \<Rightarrow> None)
    | CallR c k \<Rightarrow> (case ob of ObsR c' r \<Rightarrow> if c = c' then Some (k r) else None | _ \<Rightarrow> None)
    | CallC c k \<Rightarrow> (case ob of ObsC c' r \<Rightarrow> if c = c' then Some (k r) else None | _ \<Rightarrow> None)
    | CallP c k \<Rightarrow> (case ob of ObsP c' r \<Rightarrow> if c = c' then Some (k r) else None | _ \<Rightarrow> None)
    | CallM c k \<Rightarrow> (case ob of ObsM c' r \<Rightarrow> if c = c' then Some (k r) else None | _ \<Rightarrow> None)
    | Now k \<Rightarrow> (case ob of ObsT t \<Rightarrow> Some (k t) | _ \<Rightarrow> None))"

lemma advance_Call:
  "advance (CallE c k) ob = Some q \<longleftrightarrow> (\<exists>r. ob = ObsE c r \<and> q = k r)"
  "advance (CallS c1 k1) ob = Some q \<longleftrightarrow> (\<exists>r. ob = ObsS c1 r \<and> q = k1 r)"
  "advance (CallO c2 k2) ob = Some q \<longleftrightarrow> (\<exists>r. ob = ObsO c2 r \<and> q = k2 r)"
  "advance (CallI c3 k3) ob = Some q \<longleftrightarrow> (\<exists>r. ob = ObsI c3 r \<and> q = k3 r)"
  "advance (CallR c4 k4) ob = Some q \<longleftrightarrow> (\<exists>r. ob = ObsR c4 r \<and> q = k4 r)"
  "advance (CallC c5 k5) ob = Some q \<longleftrightarrow> (\<exists>r. ob = ObsC c5 r \<and> q = k5 r)"
  "advance (CallP c6 k6) ob = Some q \<longleftrightarrow> (\<exists>r. ob = ObsP c6 r \<and> q = k6 r)"
  "advance (CallM c7 k7) ob = Some q \<longleftrightarrow> (\<exists>r. ob = ObsM c7 r \<and> q = k7 r)"
  "advance (Now k8) ob = Some q \<longleftrightarrow> (\<exists>t. ob = ObsT t \<and> q = k8 t)"
  by (auto simp: advance_def split: obs.splits)

lemma advance_simps [simp]:
  "advance (Return a) ob = None"
  "advance (CallE c k) (ObsE c r) = Some (k r)"
  "advance (CallS c1 k1) (ObsS c1 r1) = Some (k1 r1)"
  "advance (CallO c2 k2) (ObsO c2 r2) = Some (k2 r2)"
  "advance (CallI c3 k3) (ObsI c3 r3) = Some (k3 r3)"
  "advance (CallR c4 k4) (ObsR c4 r4) = Some (k4 r4)"
  "advance (CallC c5 k5) (ObsC c5 r5) = Some (k5 r5)"
  "advance (CallP c6 k6) (ObsP c6 r6) = Some (k6 r6)"
  "advance (CallM c7 k7) (ObsM c7 r7) = Some (k7 r7)"
  "advance (Now k8) (ObsT t) = Some (k8 t)"
  by (simp_all add: advance_def)

fun returned :: "'a proc \<Rightarrow> 'a option" where
  "returned (Return a) = Some a"
| "returned _ = None"

text \<open>\<open>replay p tr\<close> is the result of \<open>p\<close> when \<open>tr\<close> is a complete behaviour of it.\<close>

fun replay :: "'a proc \<Rightarrow> obs list \<Rightarrow> 'a option" where
  "replay p [] = returned p"
| "replay p (ob # tr) = (case advance p ob of None \<Rightarrow> None | Some p' \<Rightarrow> replay p' tr)"

lemma returned_Some [simp]: "returned p = Some a \<longleftrightarrow> p = Return a"
  by (cases p) auto

lemma replay_Return [simp]: "replay (Return a) tr = Some b \<longleftrightarrow> tr = [] \<and> b = a"
  by (cases tr) auto

lemma advance_pbind:
  "returned p = None \<Longrightarrow> advance (pbind p f) ob = map_option (\<lambda>p'. pbind p' f) (advance p ob)"
  by (cases p) (simp_all add: advance_def split: obs.split)

lemma advance_pbind_step: "advance p ob = Some p' \<Longrightarrow> advance (pbind p f) ob = Some (pbind p' f)"
  using advance_pbind [of p f ob] by (cases p) auto

text \<open>A behaviour of a sequential composition is a behaviour of its first part, then one of its second.\<close>

lemma replay_pbindI:
  "replay p tr1 = Some a \<Longrightarrow> replay (f a) tr2 = Some b \<Longrightarrow> replay (pbind p f) (tr1 @ tr2) = Some b"
proof (induction tr1 arbitrary: p)
  case Nil
  then show ?case by simp
next
  case (Cons ob tr1)
  then show ?case by (auto simp: advance_pbind_step split: option.splits)
qed

lemma replay_pbindD:
  "replay (pbind p f) tr = Some b \<Longrightarrow>
     \<exists>tr1 tr2 a. tr = tr1 @ tr2 \<and> replay p tr1 = Some a \<and> replay (f a) tr2 = Some b"
proof (induction tr arbitrary: p)
  case Nil
  then show ?case by (cases p) auto
next
  case (Cons ob tr)
  show ?case
  proof (cases "returned p")
    case (Some a)
    then have "replay p [] = Some a" and "replay (f a) (ob # tr) = Some b" using Cons.prems by auto
    then show ?thesis by (metis append_Nil)
  next
    case None
    then have "advance (pbind p f) ob = map_option (\<lambda>p'. pbind p' f) (advance p ob)"
      by (rule advance_pbind)
    with Cons.prems obtain p' where p': "advance p ob = Some p'" and r: "replay (pbind p' f) tr = Some b"
      by (auto split: option.splits)
    from Cons.IH [OF r] obtain tr1 tr2 a
      where "tr = tr1 @ tr2" "replay p' tr1 = Some a" "replay (f a) tr2 = Some b" by blast
    with p' have "ob # tr = (ob # tr1) @ tr2 \<and> replay p (ob # tr1) = Some a \<and> replay (f a) tr2 = Some b"
      by simp
    then show ?thesis by blast
  qed
qed

lemma replay_pbind:
  "replay (pbind p f) tr = Some b \<longleftrightarrow>
     (\<exists>tr1 tr2 a. tr = tr1 @ tr2 \<and> replay p tr1 = Some a \<and> replay (f a) tr2 = Some b)"
  by (blast intro: replay_pbindI dest: replay_pbindD)

section \<open>Reasoning about all behaviours\<close>

text \<open>
  \<open>spec p Q\<close>: every complete behaviour of \<open>p\<close> satisfies \<open>Q\<close>. The equations for
  the constructors and for sequential composition compute, from a postcondition over the
  trace and the result, what the parts must satisfy.
\<close>

definition spec :: "'a proc \<Rightarrow> (obs list \<Rightarrow> 'a \<Rightarrow> bool) \<Rightarrow> bool" where
  "spec p Q \<longleftrightarrow> (\<forall>tr a. replay p tr = Some a \<longrightarrow> Q tr a)"

lemma specI: "(\<And>tr a. replay p tr = Some a \<Longrightarrow> Q tr a) \<Longrightarrow> spec p Q"
  by (simp add: spec_def)

lemma specD: "spec p Q \<Longrightarrow> replay p tr = Some a \<Longrightarrow> Q tr a"
  by (simp add: spec_def)

lemma spec_mono: "spec p P \<Longrightarrow> (\<And>tr a. P tr a \<Longrightarrow> Q tr a) \<Longrightarrow> spec p Q"
  by (auto simp: spec_def)

lemma spec_conj: "spec p (\<lambda>tr a. P tr a \<and> Q tr a) \<longleftrightarrow> spec p P \<and> spec p Q"
  by (auto simp: spec_def)

lemma spec_Return [simp]: "spec (Return a) Q \<longleftrightarrow> Q [] a"
  by (auto simp: spec_def)

lemma spec_pbind [simp]:
  "spec (pbind p f) Q \<longleftrightarrow> spec p (\<lambda>tr1 a. spec (f a) (\<lambda>tr2. Q (tr1 @ tr2)))"
  unfolding spec_def by (simp add: replay_pbind) blast

lemma replay_Call:
  "replay (CallE c k) tr = Some a \<longleftrightarrow> (\<exists>r tr'. tr = ObsE c r # tr' \<and> replay (k r) tr' = Some a)"
  "replay (CallS c1 k1) tr = Some a \<longleftrightarrow> (\<exists>r tr'. tr = ObsS c1 r # tr' \<and> replay (k1 r) tr' = Some a)"
  "replay (CallO c2 k2) tr = Some a \<longleftrightarrow> (\<exists>r tr'. tr = ObsO c2 r # tr' \<and> replay (k2 r) tr' = Some a)"
  "replay (CallI c3 k3) tr = Some a \<longleftrightarrow> (\<exists>r tr'. tr = ObsI c3 r # tr' \<and> replay (k3 r) tr' = Some a)"
  "replay (CallR c4 k4) tr = Some a \<longleftrightarrow> (\<exists>r tr'. tr = ObsR c4 r # tr' \<and> replay (k4 r) tr' = Some a)"
  "replay (CallC c5 k5) tr = Some a \<longleftrightarrow> (\<exists>r tr'. tr = ObsC c5 r # tr' \<and> replay (k5 r) tr' = Some a)"
  "replay (CallP c6 k6) tr = Some a \<longleftrightarrow> (\<exists>r tr'. tr = ObsP c6 r # tr' \<and> replay (k6 r) tr' = Some a)"
  "replay (CallM c7 k7) tr = Some a \<longleftrightarrow> (\<exists>r tr'. tr = ObsM c7 r # tr' \<and> replay (k7 r) tr' = Some a)"
  "replay (Now k8) tr = Some a \<longleftrightarrow> (\<exists>t tr'. tr = ObsT t # tr' \<and> replay (k8 t) tr' = Some a)"
  by (cases tr; fastforce simp: advance_Call split: option.splits)+

lemma spec_Call [simp]:
  "spec (CallE c k) Q \<longleftrightarrow> (\<forall>r. spec (k r) (\<lambda>tr. Q (ObsE c r # tr)))"
  "spec (CallS c1 k1) Q \<longleftrightarrow> (\<forall>r. spec (k1 r) (\<lambda>tr. Q (ObsS c1 r # tr)))"
  "spec (CallO c2 k2) Q \<longleftrightarrow> (\<forall>r. spec (k2 r) (\<lambda>tr. Q (ObsO c2 r # tr)))"
  "spec (CallI c3 k3) Q \<longleftrightarrow> (\<forall>r. spec (k3 r) (\<lambda>tr. Q (ObsI c3 r # tr)))"
  "spec (CallR c4 k4) Q \<longleftrightarrow> (\<forall>r. spec (k4 r) (\<lambda>tr. Q (ObsR c4 r # tr)))"
  "spec (CallC c5 k5) Q \<longleftrightarrow> (\<forall>r. spec (k5 r) (\<lambda>tr. Q (ObsC c5 r # tr)))"
  "spec (CallP c6 k6) Q \<longleftrightarrow> (\<forall>r. spec (k6 r) (\<lambda>tr. Q (ObsP c6 r # tr)))"
  "spec (CallM c7 k7) Q \<longleftrightarrow> (\<forall>r. spec (k7 r) (\<lambda>tr. Q (ObsM c7 r # tr)))"
  "spec (Now k8) Q \<longleftrightarrow> (\<forall>t. spec (k8 t) (\<lambda>tr. Q (ObsT t # tr)))"
  unfolding spec_def replay_Call by blast+

lemma spec_calls [simp]:
  "spec (callE c) Q \<longleftrightarrow> (\<forall>r. Q [ObsE c r] r)"
  "spec (callS c1) Q1 \<longleftrightarrow> (\<forall>r. Q1 [ObsS c1 r] r)"
  "spec (callO c2) Q2 \<longleftrightarrow> (\<forall>r. Q2 [ObsO c2 r] r)"
  "spec (callI c3) Q3 \<longleftrightarrow> (\<forall>r. Q3 [ObsI c3 r] r)"
  "spec (callR c4) Q4 \<longleftrightarrow> (\<forall>r. Q4 [ObsR c4 r] r)"
  "spec (callC c5) Q5 \<longleftrightarrow> (\<forall>r. Q5 [ObsC c5 r] r)"
  "spec (callP c6) Q6 \<longleftrightarrow> (\<forall>r. Q6 [ObsP c6 r] r)"
  "spec (callM c7) Q7 \<longleftrightarrow> (\<forall>r. Q7 [ObsM c7 r] r)"
  "spec now Q8 \<longleftrightarrow> (\<forall>t. Q8 [ObsT t] t)"
  by (simp_all add: call_defs)

lemma spec_pbindI:
  "spec p P \<Longrightarrow> (\<And>tr1 a. P tr1 a \<Longrightarrow> spec (f a) (\<lambda>tr2. Q (tr1 @ tr2))) \<Longrightarrow> spec (pbind p f) Q"
  by (auto intro: spec_mono)

section \<open>Properties of single calls\<close>

text \<open>\<open>calls_only P p\<close>: every call of every behaviour satisfies \<open>P\<close>.\<close>

definition calls_only :: "(obs \<Rightarrow> bool) \<Rightarrow> 'a proc \<Rightarrow> bool" where
  "calls_only P p \<longleftrightarrow> spec p (\<lambda>tr _. list_all P tr)"

lemma calls_only_Return [beh_intros]: "calls_only P (Return a)"
  by (simp add: calls_only_def)

lemma calls_only_pbind [beh_intros]:
  "calls_only P p \<Longrightarrow> (\<And>a. calls_only P (f a)) \<Longrightarrow> calls_only P (pbind p f)"
  unfolding calls_only_def by (auto intro: spec_mono)

lemma calls_only_calls [beh_intros]:
  "(\<And>r. P (ObsE c r)) \<Longrightarrow> calls_only P (callE c)"
  "(\<And>r. P (ObsS c1 r)) \<Longrightarrow> calls_only P (callS c1)"
  "(\<And>r. P (ObsO c2 r)) \<Longrightarrow> calls_only P (callO c2)"
  "(\<And>r. P (ObsI c3 r)) \<Longrightarrow> calls_only P (callI c3)"
  "(\<And>r. P (ObsR c4 r)) \<Longrightarrow> calls_only P (callR c4)"
  "(\<And>r. P (ObsC c5 r)) \<Longrightarrow> calls_only P (callC c5)"
  "(\<And>r. P (ObsP c6 r)) \<Longrightarrow> calls_only P (callP c6)"
  "(\<And>r. P (ObsM c7 r)) \<Longrightarrow> calls_only P (callM c7)"
  "(\<And>t. P (ObsT t)) \<Longrightarrow> calls_only P now"
  by (simp_all add: calls_only_def)

lemma calls_only_splits [beh_intros]:
  "(b \<Longrightarrow> calls_only P p) \<Longrightarrow> (\<not> b \<Longrightarrow> calls_only P q) \<Longrightarrow> calls_only P (if b then p else q)"
  "(opt = None \<Longrightarrow> calls_only P p) \<Longrightarrow> (\<And>x. opt = Some x \<Longrightarrow> calls_only P (f x)) \<Longrightarrow> calls_only P (case opt of None \<Rightarrow> p | Some x \<Rightarrow> f x)"
  "(\<And>l. s = Inl l \<Longrightarrow> calls_only P (g l)) \<Longrightarrow> (\<And>r. s = Inr r \<Longrightarrow> calls_only P (h r)) \<Longrightarrow>
     calls_only P (case s of Inl l \<Rightarrow> g l | Inr r \<Rightarrow> h r)"
  "(\<And>x y. xy = (x, y) \<Longrightarrow> calls_only P (k x y)) \<Longrightarrow> calls_only P (case xy of (x, y) \<Rightarrow> k x y)"
  by (auto split: option.split sum.split prod.split)

lemma calls_onlyD: "calls_only P p \<Longrightarrow> replay p tr = Some a \<Longrightarrow> ob \<in> set tr \<Longrightarrow> P ob"
  by (auto simp: calls_only_def list_all_iff dest: specD)

text \<open>
  \<open>deaf p\<close>: the answers to \<open>Publish\<close> make no difference. Changing them in a behaviour
  gives a behaviour with the same result.
\<close>

fun reanswer :: "(ctx \<Rightarrow> go_event \<Rightarrow> go_error option) \<Rightarrow> obs \<Rightarrow> obs" where
  "reanswer g (ObsE (Publish c e) r) = ObsE (Publish c e) (g c e)"
| "reanswer g ob = ob"

definition deaf :: "'a proc \<Rightarrow> bool" where
  "deaf p \<longleftrightarrow> (\<forall>tr a g. replay p tr = Some a \<longrightarrow> replay p (map (reanswer g) tr) = Some a)"

lemma deaf_Return [beh_intros]: "deaf (Return a)"
  by (simp add: deaf_def)

lemma deaf_pbind [beh_intros]: "deaf p \<Longrightarrow> (\<And>a. deaf (f a)) \<Longrightarrow> deaf (pbind p f)"
  unfolding deaf_def by (auto dest!: replay_pbindD intro!: replay_pbindI)

lemma deaf_publish [beh_intros]: "deaf (pbind (callE (Publish c e)) (\<lambda>_. Return ()))"
  by (auto simp: deaf_def callE_def replay_Call)

lemma deaf_callE [beh_intros]: "(\<And>x e. c \<noteq> Publish x e) \<Longrightarrow> deaf (callE c)"
  by (cases c) (auto simp: deaf_def callE_def replay_Call)

lemma deaf_calls [beh_intros]:
  "deaf (callS c1)" "deaf (callO c2)" "deaf (callI c3)" "deaf (callR c4)" "deaf (callC c5)"
  "deaf (callP c6)" "deaf (callM c7)" "deaf now"
  by (auto simp: deaf_def call_defs replay_Call)

lemma deafD: "deaf p \<Longrightarrow> replay p tr = Some a \<Longrightarrow> replay p (map (reanswer g) tr) = Some a"
  by (simp add: deaf_def)

lemma deaf_splits [beh_intros]:
  "(b \<Longrightarrow> deaf p) \<Longrightarrow> (\<not> b \<Longrightarrow> deaf q) \<Longrightarrow> deaf (if b then p else q)"
  "(opt = None \<Longrightarrow> deaf p) \<Longrightarrow> (\<And>x. opt = Some x \<Longrightarrow> deaf (f x)) \<Longrightarrow> deaf (case opt of None \<Rightarrow> p | Some x \<Rightarrow> f x)"
  "(\<And>l. s = Inl l \<Longrightarrow> deaf (g l)) \<Longrightarrow> (\<And>r. s = Inr r \<Longrightarrow> deaf (h r)) \<Longrightarrow>
     deaf (case s of Inl l \<Rightarrow> g l | Inr r \<Rightarrow> h r)"
  "(\<And>x y. xy = (x, y) \<Longrightarrow> deaf (k x y)) \<Longrightarrow> deaf (case xy of (x, y) \<Rightarrow> k x y)"
  by (auto split: option.split sum.split prod.split)

section \<open>Running a process in an environment\<close>

text \<open>
  An environment answers every call from its own state, which the call may change. A run
  returns for every environment and every process, and what it did is a behaviour.
\<close>

record 'w env =
  ansE :: "'w \<Rightarrow> ecall \<Rightarrow> go_error option \<times> 'w"
  ansS :: "'w \<Rightarrow> scall \<Rightarrow> (go_error + string) \<times> 'w"
  ansO :: "'w \<Rightarrow> ocall \<Rightarrow> (go_error + string \<times> string) \<times> 'w"
  ansI :: "'w \<Rightarrow> icall \<Rightarrow> (go_error + goint) \<times> 'w"
  ansR :: "'w \<Rightarrow> rcall \<Rightarrow> (go_error + xmessage list list) \<times> 'w"
  ansC :: "'w \<Rightarrow> ccall \<Rightarrow> (go_error + xmessage list \<times> string) \<times> 'w"
  ansP :: "'w \<Rightarrow> pcall \<Rightarrow> (go_error + goint list) \<times> 'w"
  ansM :: "'w \<Rightarrow> mcall \<Rightarrow> (go_error + xmessage list) \<times> 'w"
  ansT :: "'w \<Rightarrow> gotime \<times> 'w"

text \<open>One call of an unfinished process, answered by the environment.\<close>

fun answer :: "'w env \<Rightarrow> 'w \<Rightarrow> 'a proc \<Rightarrow> (obs \<times> 'a proc \<times> 'w) option" where
  "answer h w (Return a) = None"
| "answer h w (CallE c k) = (let (r, w') = ansE h w c in Some (ObsE c r, k r, w'))"
| "answer h w (CallS c k) = (let (r, w') = ansS h w c in Some (ObsS c r, k r, w'))"
| "answer h w (CallO c k) = (let (r, w') = ansO h w c in Some (ObsO c r, k r, w'))"
| "answer h w (CallI c k) = (let (r, w') = ansI h w c in Some (ObsI c r, k r, w'))"
| "answer h w (CallR c k) = (let (r, w') = ansR h w c in Some (ObsR c r, k r, w'))"
| "answer h w (CallC c k) = (let (r, w') = ansC h w c in Some (ObsC c r, k r, w'))"
| "answer h w (CallP c k) = (let (r, w') = ansP h w c in Some (ObsP c r, k r, w'))"
| "answer h w (CallM c k) = (let (r, w') = ansM h w c in Some (ObsM c r, k r, w'))"
| "answer h w (Now k) = (let (t, w') = ansT h w in Some (ObsT t, k t, w'))"

lemma answer_advance: "answer h w p = Some (ob, p', w') \<Longrightarrow> advance p ob = Some p'"
  by (cases p) (auto simp: Let_def split: prod.splits)

lemma answer_None [simp]: "answer h w p = None \<longleftrightarrow> (\<exists>a. p = Return a)"
  by (cases p) (auto simp: Let_def split: prod.splits)

text \<open>Every call leads to a part of the process, so no sequence of calls goes on for ever.\<close>

inductive subproc :: "'a proc \<Rightarrow> 'a proc \<Rightarrow> bool" where
  "advance p ob = Some p' \<Longrightarrow> subproc p' p"

lemma wfp_subproc: "wfp subproc"
proof (rule wfpUNIVI)
  fix P :: "'a proc \<Rightarrow> bool" and p
  assume step: "\<forall>p. (\<forall>q. subproc q p \<longrightarrow> P q) \<longrightarrow> P p"
  have ind: "P p" if "\<And>ob q. advance p ob = Some q \<Longrightarrow> P q" for p
    using step that by (auto elim: subproc.cases)
  show "P p"
    by (induction p) (rule ind, auto simp: advance_Call)+
qed

function run :: "'w env \<Rightarrow> 'w \<Rightarrow> 'a proc \<Rightarrow> obs list \<times> 'a \<times> 'w" where
  "run h w p = (case answer h w p of
      None \<Rightarrow> ([], the (returned p), w)
    | Some (ob, p', w') \<Rightarrow> (let (tr, a, w'') = run h w' p' in (ob # tr, a, w'')))"
  by pat_completeness auto
termination
  by (relation "inv_image {(p', p). subproc p' p} (\<lambda>(h, w, p). p)")
    (auto intro: wf_inv_image subproc.intros answer_advance simp: wfp_subproc [unfolded wfp_def])

declare run.simps [simp del]

lemma run_replay: "run h w p = (tr, a, w') \<Longrightarrow> replay p tr = Some a"
proof (induction h w p arbitrary: tr a w' rule: run.induct)
  case (1 h w p)
  show ?case
  proof (cases "answer h w p")
    case None
    then show ?thesis using "1.prems" by (auto simp: run.simps [of h w p])
  next
    case (Some y)
    obtain ob p' w1 where y: "y = (ob, p', w1)" by (cases y)
    obtain tr1 a1 w2 where r: "run h w1 p' = (tr1, a1, w2)" by (cases "run h w1 p'")
    have "tr = ob # tr1" "a = a1" using "1.prems" Some y r by (auto simp: run.simps [of h w p])
    moreover have "replay p' tr1 = Some a1" using "1.IH" [OF Some] y r by auto
    ultimately show ?thesis using answer_advance [OF Some [unfolded y]] by simp
  qed
qed

lemma spec_run: "spec p Q \<Longrightarrow> run h w p = (tr, a, w') \<Longrightarrow> Q tr a"
  by (blast intro: specD run_replay)

end
