(* ===== verification/RunnerContract.thy ===== *)
theory RunnerContract
  imports Process
begin

text \<open>
  The interface between the orchestrator and a runner (\<open>internal/runner/runner.go\<close>): the
  step sink, the step events, and the contract that the orchestrator's correctness rests
  on, as the locale \<open>runner_contract\<close>. The Docker runner is its provider.
\<close>

section \<open>Step sinks and step events\<close>

text \<open>
  The runner's view of the event sink: nil when the bus is disabled, otherwise the
  orchestrator's \<open>stampedSink\<close> with its pipeline name and run ID.
\<close>

datatype step_sink = NilSink | StampedSink string string

definition stampedSink_Publish :: "string \<Rightarrow> string \<Rightarrow> ctx \<Rightarrow> go_event \<Rightarrow> go_error option proc" where
  "stampedSink_Publish pipeline runID ctx event =
     callE (Publish ctx (event\<lparr>ev_Pipeline := pipeline, ev_RunID := runID\<rparr>))"

definition finishedPayload :: "step_result \<Rightarrow> string gomap" where
  "finishedPayload r =
     (let payload = [(''status'', status_String (stepStatus r)),
                     (''duration_ms'', itoa (sint (milliseconds (sr_Duration r))))]
      in if sr_ExitCode r \<noteq> ExitNone then gm_set payload ''exit_code'' (itoa (sint (sr_ExitCode r)))
         else payload)"

definition stepFinishedEvent :: "string \<Rightarrow> step_result \<Rightarrow> gotime \<Rightarrow> go_event" where
  "stepFinishedEvent jobName r t =
     \<lparr>ev_Type = EventStepFinished, ev_OccurredAt = t, ev_RunID = [], ev_Pipeline = [],
      ev_Job = jobName, ev_Step = sr_StepName r, ev_Payload = finishedPayload r\<rparr>"

definition stepStartedEvent :: "string \<Rightarrow> string \<Rightarrow> gotime \<Rightarrow> go_event" where
  "stepStartedEvent jobName stepName t =
     \<lparr>ev_Type = EventStepStarted, ev_OccurredAt = t, ev_RunID = [], ev_Pipeline = [],
      ev_Job = jobName, ev_Step = stepName, ev_Payload = []\<rparr>"

section \<open>Projections of traces\<close>

fun published_event :: "obs \<Rightarrow> go_event list" where
  "published_event (ObsE (Publish c e) r) = [e]"
| "published_event _ = []"

definition published :: "obs list \<Rightarrow> go_event list" where
  "published tr = concat (map published_event tr)"

text \<open>The published events without their time stamps.\<close>

definition untimed :: "go_event \<Rightarrow> go_event" where
  "untimed e = e\<lparr>ev_OccurredAt := 0\<rparr>"

definition announced :: "obs list \<Rightarrow> go_event list" where
  "announced tr = map untimed (published tr)"

lemma announced_simps [simp, trace_simps]:
  "announced [] = []" "announced (ob # tr) = map untimed (published_event ob) @ announced tr"
  "announced (tr @ tr') = announced tr @ announced tr'"
  by (simp_all add: announced_def published_def)

fun stamped :: "step_sink \<Rightarrow> go_event \<Rightarrow> go_event list" where
  "stamped NilSink e = []"
| "stamped (StampedSink pipeline runID) e = [e\<lparr>ev_Pipeline := pipeline, ev_RunID := runID\<rparr>]"

lemma untimed_stamped [simp]: "map untimed (stamped s e) = stamped s (untimed e)"
  by (cases s) (simp_all add: untimed_def)

lemma untimed_step_events [simp]:
  "untimed (stepFinishedEvent j r t) = stepFinishedEvent j r 0"
  "untimed (stepStartedEvent j n t) = stepStartedEvent j n 0"
  by (simp_all add: untimed_def stepFinishedEvent_def stepStartedEvent_def)

section \<open>The contract\<close>

definition group_events :: "step_sink \<Rightarrow> string \<Rightarrow> string \<times> step_result list \<Rightarrow> go_event list" where
  "group_events ev j g = stamped ev (stepStartedEvent j (fst g) 0) @
     concat (map (\<lambda>r. stamped ev (stepFinishedEvent j r 0)) (snd g))"

text \<open>The job result and its error, as the runner guarantees them to the orchestrator.\<close>

definition result_post :: "go_job \<Rightarrow> job_result \<times> go_error option \<Rightarrow> bool" where
  "result_post job res \<longleftrightarrow> jr_JobName (fst res) = job_Name job \<and>
     (snd res = None \<longrightarrow> jr_SetupErr (fst res) = None \<and>
        map sr_StepName (jr_StepResults (fst res)) = map step_Name (job_Steps job) \<and>
        (\<forall>r \<in> set (jr_StepResults (fst res)). sr_Err r = None)) \<and>
     (snd res \<noteq> None \<longrightarrow> jobStatus (fst res) \<in> {StatusErrored, StatusFailed}) \<and>
     (jr_SetupErr (fst res) \<noteq> None \<longrightarrow> jr_StepResults (fst res) = [])"

text \<open>The events of a job: none after a setup fault, else one group for each step that ran.\<close>

definition events_post :: "go_job \<Rightarrow> step_sink \<Rightarrow> obs list \<Rightarrow> job_result \<Rightarrow> bool" where
  "events_post job ev tr jr \<longleftrightarrow>
     (\<exists>groups k. announced tr = concat (map (group_events ev (job_Name job)) groups) \<and>
        map fst groups = take k (map step_Name (job_Steps job)) \<and>
        concat (map snd groups) = jr_StepResults jr \<and>
        (\<forall>g \<in> set groups. snd g \<noteq> [] \<and> (\<forall>r \<in> set (snd g). sr_StepName r = fst g)))"

definition job_post :: "go_job \<Rightarrow> step_sink \<Rightarrow> obs list \<Rightarrow> job_result \<times> go_error option \<Rightarrow> bool" where
  "job_post job ev tr res \<longleftrightarrow> result_post job res \<and> events_post job ev tr (fst res)"

type_synonym runner = "ctx \<Rightarrow> go_job \<Rightarrow> string \<Rightarrow> step_sink \<Rightarrow> (job_result \<times> go_error option) proc"

locale runner_contract =
  fixes run_job :: runner
  assumes run_job_post: "spec (run_job ctx job path ev) (job_post job ev)"
begin

lemma result: "replay (run_job ctx job path ev) tr = Some res \<Longrightarrow> result_post job res"
  using specD [OF run_job_post] by (auto simp: job_post_def)

lemma job_name: "replay (run_job ctx job path ev) tr = Some (jr, err) \<Longrightarrow> jr_JobName jr = job_Name job"
  using result by (fastforce simp: result_post_def)

text \<open>A job with steps never ends Pending, and a passed job ran all of them.\<close>

lemma job_settled:
  assumes "replay (run_job ctx job path ev) tr = Some (jr, err)" and "job_Steps job \<noteq> []"
  shows "jobStatus jr \<in> {StatusPassed, StatusFailed, StatusErrored}"
proof (cases err)
  case None
  with result [OF assms(1)] have "map sr_StepName (jr_StepResults jr) = map step_Name (job_Steps job)"
    by (simp add: result_post_def)
  then have "jr_StepResults jr \<noteq> []" using assms(2) by auto
  then show ?thesis by (simp add: jobStatus_eq)
next
  case (Some e)
  with result [OF assms(1)] show ?thesis by (auto simp: result_post_def)
qed

lemma job_passed:
  assumes "replay (run_job ctx job path ev) tr = Some (jr, err)" and "jobStatus jr = StatusPassed"
  shows "map sr_StepName (jr_StepResults jr) = map step_Name (job_Steps job) \<and>
    (\<forall>r \<in> set (jr_StepResults jr). sr_Err r = None \<and> sr_ExitCode r = ExitSuccess)"
proof -
  have "err = None" using result [OF assms(1)] assms(2) by (cases err) (auto simp: result_post_def)
  then show ?thesis using result [OF assms(1)] assms(2) by (simp add: result_post_def jobStatus_passed_iff)
qed

end

end
