(* ===== verification/EnvFile.thy ===== *)
theory EnvFile
  imports Prelude
begin

text \<open>
  The env file by which a step exports variables to later steps
  (\<open>internal/runner/envfile.go\<close>): its parser, the conversion of a map to Docker's
  \<open>KEY=value\<close> list, and the report of newly exported keys.
\<close>

definition envFilePath :: string where "envFilePath = ''/tmp/.odyssey_env''"
definition envFileVar :: string where "envFileVar = ''ODYSSEY_ENV_FILE''"

fun parseEnvLines :: "string list \<Rightarrow> string gomap \<Rightarrow> string gomap" where
  "parseEnvLines [] env = env"
| "parseEnvLines (raw # lines) env =
     (let line = TrimSpace raw
      in if line = [] then parseEnvLines lines env
         else case cut (CHR ''='') line of
                (key, val, ok) \<Rightarrow>
                  if \<not> ok then parseEnvLines lines env
                  else parseEnvLines lines (gm_set env key val))"

definition parseEnvFile :: "string \<Rightarrow> string gomap" where
  "parseEnvFile contents = parseEnvLines (split_on newline contents) []"

definition envSlice :: "string gomap \<Rightarrow> string list" where
  "envSlice env = (if length env = 0 then [] else map (\<lambda>(k, v). k @ CHR ''='' # v) env)"

definition newlyExportedKeys :: "string gomap \<Rightarrow> string gomap \<Rightarrow> string list" where
  "newlyExportedKeys before after =
     sort (map fst (filter (\<lambda>(k, v). case map_of before k of None \<Rightarrow> True | Some old \<Rightarrow> old \<noteq> v) after))"

section \<open>Lemmas\<close>

text \<open>The assignments a file contains, in file order.\<close>

definition assignment :: "string \<Rightarrow> (string \<times> string) option" where
  "assignment raw = (case cut (CHR ''='') (TrimSpace raw) of (k, v, ok) \<Rightarrow> if ok then Some (k, v) else None)"

definition assignments :: "string \<Rightarrow> (string \<times> string) list" where
  "assignments contents = List.map_filter assignment (split_on newline contents)"

lemma parseEnvLines_foldl:
  "parseEnvLines ls env = foldl (\<lambda>m (k, v). gm_set m k v) env (List.map_filter assignment ls)"
  by (induction ls arbitrary: env)
    (auto simp: assignment_def Let_def split: prod.splits)

lemma map_of_foldl_set:
  "map_of (foldl (\<lambda>m (k, v). gm_set m k v) env ps) = map_of env ++ map_of (rev ps)"
proof (induction ps arbitrary: env)
  case (Cons p ps)
  obtain k v where p: "p = (k, v)" by (cases p)
  have "map_of (foldl (\<lambda>m (k, v). gm_set m k v) env (p # ps)) = (map_of env)(k \<mapsto> v) ++ map_of (rev ps)"
    by (simp only: p foldl.simps prod.case Cons.IH map_of_gm_set)
  also have "\<dots> = map_of env ++ map_of (rev (p # ps))"
    by (auto simp: p map_add_def fun_eq_iff split: option.splits)
  finally show ?case .
qed simp

lemma gm_ok_foldl_set: "gm_ok env \<Longrightarrow> gm_ok (foldl (\<lambda>m (k, v). gm_set m k v) env ps)"
  by (induction ps arbitrary: env) auto

lemma gm_ok_parseEnvFile [simp]: "gm_ok (parseEnvFile contents)"
  by (simp add: parseEnvFile_def parseEnvLines_foldl gm_ok_foldl_set)

lemma map_of_parseEnvFile: "map_of (parseEnvFile contents) = map_of (rev (assignments contents))"
  by (simp add: parseEnvFile_def parseEnvLines_foldl map_of_foldl_set assignments_def)

text \<open>What a step can export without its lines being changed by the parser.\<close>

definition clean_entry :: "string \<Rightarrow> string \<Rightarrow> bool" where
  "clean_entry k v \<longleftrightarrow> CHR ''='' \<notin> set k \<and> newline \<notin> set k \<and> newline \<notin> set v \<and> trimmed (k @ CHR ''='' # v)"

definition env_lines :: "string list \<Rightarrow> string" where
  "env_lines ls = concat (map (\<lambda>l. l @ [newline]) ls)"

lemma assignment_clean: "clean_entry k v \<Longrightarrow> assignment (k @ CHR ''='' # v) = Some (k, v)"
  by (simp add: assignment_def clean_entry_def)

lemma assignment_Nil [simp]: "assignment [] = None"
  by (simp add: assignment_def)

lemma split_on_env_lines:
  "(\<And>l. l \<in> set ls \<Longrightarrow> newline \<notin> set l) \<Longrightarrow> split_on newline (env_lines ls) = ls @ [[]]"
  by (induction ls) (simp_all add: env_lines_def)

lemma assignments_env_lines:
  assumes "\<And>k v. (k, v) \<in> set ps \<Longrightarrow> clean_entry k v"
  shows "assignments (env_lines (map (\<lambda>(k, v). k @ CHR ''='' # v) ps)) = ps"
proof -
  have "newline \<notin> set l" if "l \<in> set (map (\<lambda>(k, v). k @ CHR ''='' # v) ps)" for l
    using that assms by (auto simp: clean_entry_def newline_def)
  note split = split_on_env_lines [OF this]
  have "List.map_filter assignment (map (\<lambda>(k, v). k @ CHR ''='' # v) ps @ [[]]) = ps"
    using assms by (induction ps) (auto simp: assignment_clean)
  then show ?thesis by (simp only: assignments_def split)
qed

section \<open>Properties\<close>

text \<open>
  The parsed map has each key once, with the value of the last line that
  assigns it: blank lines and lines without an equals sign contribute nothing, and the
  append order of the shell decides between repeated keys.
\<close>

theorem parseEnvFile_spec:
  "gm_ok (parseEnvFile contents) \<and>
   (map_of (parseEnvFile contents) k = None \<longleftrightarrow> k \<notin> fst ` set (assignments contents)) \<and>
   (map_of (parseEnvFile contents) k = Some v \<longleftrightarrow>
      (\<exists>xs ys. assignments contents = xs @ (k, v) # ys \<and> k \<notin> fst ` set ys))"
proof -
  have "map_of (rev ps) k = Some v \<longleftrightarrow> (\<exists>xs ys. ps = xs @ (k, v) # ys \<and> k \<notin> fst ` set ys)" for ps :: "(string \<times> string) list"
  proof (induction ps rule: rev_induct)
    case (snoc p ps)
    obtain k' v' where p: "p = (k', v')" by (cases p)
    show ?case
    proof (cases "k' = k")
      case True
      have "ps @ [(k, v')] = xs @ (k, v) # ys \<and> k \<notin> fst ` set ys \<Longrightarrow> v' = v" for xs ys
        by (cases ys rule: rev_cases) auto
      moreover have "ps @ [(k, v')] = ps @ (k, v') # [] \<and> k \<notin> fst ` set []" by simp
      ultimately have "v' = v \<longleftrightarrow> (\<exists>xs ys. ps @ [(k, v')] = xs @ (k, v) # ys \<and> k \<notin> fst ` set ys)"
        by blast
      then show ?thesis using True p by simp
    next
      case False
      have "(\<exists>xs ys. ps @ [(k', v')] = xs @ (k, v) # ys \<and> k \<notin> fst ` set ys) \<longleftrightarrow>
        (\<exists>xs ys. ps = xs @ (k, v) # ys \<and> k \<notin> fst ` set ys)" (is "?L \<longleftrightarrow> ?R")
      proof
        assume ?L
        then obtain xs ys where eq: "ps @ [(k', v')] = xs @ (k, v) # ys" and n: "k \<notin> fst ` set ys" by blast
        from eq False obtain zs where "ys = zs @ [(k', v')]" by (cases ys rule: rev_cases) auto
        then show ?R using eq n by auto
      next
        assume ?R
        then obtain xs ys where "ps = xs @ (k, v) # ys" "k \<notin> fst ` set ys" by blast
        then have "ps @ [(k', v')] = xs @ (k, v) # (ys @ [(k', v')]) \<and> k \<notin> fst ` set (ys @ [(k', v')])"
          using False by auto
        then show ?L by blast
      qed
      then show ?thesis using False p snoc.IH by simp
    qed
  qed simp
  then show ?thesis by (simp add: map_of_parseEnvFile map_of_eq_None_iff)
qed



text \<open>
  The report of what a step exported is the sorted list, without
  repetition, of exactly the keys that the step added or changed.
\<close>

theorem newlyExportedKeys_spec:
  assumes "gm_ok after"
  shows "sorted (newlyExportedKeys before after) \<and> distinct (newlyExportedKeys before after) \<and>
    set (newlyExportedKeys before after) =
      {k. \<exists>v. map_of after k = Some v \<and> map_of before k \<noteq> Some v}"
proof (intro conjI)
  let ?P = "\<lambda>(k, v). case map_of before k of None \<Rightarrow> True | Some old \<Rightarrow> old \<noteq> v"
  show "sorted (newlyExportedKeys before after)" by (simp add: newlyExportedKeys_def)
  show "distinct (newlyExportedKeys before after)"
    using assms by (simp add: newlyExportedKeys_def gm_ok_def distinct_map_filter)
  have P: "?P p \<longleftrightarrow> map_of before (fst p) \<noteq> Some (snd p)" for p
    by (cases p) (simp split: option.split)
  have "set (newlyExportedKeys before after) = fst ` {p \<in> set after. ?P p}"
    by (simp only: newlyExportedKeys_def set_sort set_map set_filter)
  also have "\<dots> = {k. \<exists>v. (k, v) \<in> set after \<and> map_of before k \<noteq> Some v}"
    unfolding P by force
  finally show "set (newlyExportedKeys before after) =
      {k. \<exists>v. map_of after k = Some v \<and> map_of before k \<noteq> Some v}"
    using assms by (simp add: gm_ok_def)
qed

theorem newlyExportedKeys_spec_witness:
  "sorted (newlyExportedKeys [(''FOO'', ''old'')] [(''FOO'', ''new''), (''ABC'', ''2'')]) \<and>
   distinct (newlyExportedKeys [(''FOO'', ''old'')] [(''FOO'', ''new''), (''ABC'', ''2'')]) \<and>
   set (newlyExportedKeys [(''FOO'', ''old'')] [(''FOO'', ''new''), (''ABC'', ''2'')]) =
     {k. \<exists>v. map_of [(''FOO'', ''new''), (''ABC'', ''2'')] k = Some v \<and> map_of [(''FOO'', ''old'')] k \<noteq> Some v}"
  by (rule newlyExportedKeys_spec) (simp add: gm_ok_def)

end
