(* ===== verification/Runner.thy ===== *)
theory Runner
  imports RunnerContract EnvFile
begin

text \<open>
  The Docker runner (\<open>internal/runner/docker.go\<close>, \<open>runner.go\<close>): one job is run in one
  container, its setup commands and its steps by exec. Every call of the Docker client, of
  the event sink, of the context and of the clock is a call of the process, in the order of
  the code. Log lines are left out.
\<close>

definition workDir :: string where "workDir = ''/app''"

definition shortID :: "string \<Rightarrow> string" where
  "shortID cid = (if length cid > 12 then take 12 cid else cid)"

definition emitStep :: "ctx \<Rightarrow> step_sink \<Rightarrow> go_event \<Rightarrow> unit proc" where
  "emitStep ctx events event =
     (case events of
        NilSink \<Rightarrow> Return ()
      | StampedSink pipeline runID \<Rightarrow>
          pbind (stampedSink_Publish pipeline runID ctx event) (\<lambda>err. Return ()))"

definition execCommand ::
    "ctx \<Rightarrow> string \<Rightarrow> string \<Rightarrow> string list \<Rightarrow> (goint \<times> string \<times> string \<times> go_error option) proc" where
  "execCommand ctx cid command env =
     pbind (callS (ExecCreate ctx cid
        \<lparr>eo_Cmd = [''sh'', ''-c'', command], eo_Env = env, eo_AttachStdout = True, eo_AttachStderr = True\<rparr>))
     (\<lambda>created. case created of
        Inl err \<Rightarrow> Return (ExitNone, [], [], Some err)
      | Inr execID \<Rightarrow>
          pbind (callE (ExecAttach ctx execID)) (\<lambda>attachErr. case attachErr of
             Some err \<Rightarrow> Return (ExitNone, [], [], Some err)
           | None \<Rightarrow>
               pbind
                 (pbind (callO (StdCopy execID)) (\<lambda>copied. case copied of
                    Inl err \<Rightarrow> Return (ExitNone, [], [], Some err)
                  | Inr (stdout, stderr) \<Rightarrow>
                      pbind (callI (ExecInspect ctx execID)) (\<lambda>inspect. case inspect of
                         Inl err \<Rightarrow> Return (ExitNone, [], [], Some err)
                       | Inr code \<Rightarrow> Return (code, stdout, stderr, None))))
                 (\<lambda>res. pbind (callE (CloseAttach execID)) (\<lambda>_. Return res))))"

definition readExportedEnv :: "ctx \<Rightarrow> string \<Rightarrow> (go_error + string gomap) proc" where
  "readExportedEnv ctx cid =
     pbind (execCommand ctx cid (''cat '' @ envFilePath) []) (\<lambda>(code, stdout, _, err).
       case err of
         Some e \<Rightarrow> Return (Inl e)
       | None \<Rightarrow>
           if code \<noteq> ExitSuccess
           then Return (Inl (Errorf [Lit ''env file read exited with code '', Num (sint code)]))
           else Return (Inr (parseEnvFile stdout)))"

definition removeContainer :: "ctx \<Rightarrow> string \<Rightarrow> go_error option proc" where
  "removeContainer ctx cid = callE (ContainerRemove ctx cid True True)"

definition mountArchive :: "ctx \<Rightarrow> string \<Rightarrow> string \<Rightarrow> string \<Rightarrow> go_error option proc" where
  "mountArchive ctx cid projectPath destinationPath =
     pbind (callS (CreateArchive projectPath)) (\<lambda>archive. case archive of
        Inl err \<Rightarrow> Return (Some err)
      | Inr bytes \<Rightarrow>
          if length bytes = 0 then Return (Some (Errorf [Lit ''cannot mount an empty archive'']))
          else pbind (callE (CopyToContainer ctx cid destinationPath bytes)) (\<lambda>err. case err of
                 Some e \<Rightarrow> Return (Some e) | None \<Rightarrow> Return None))"

definition pullImage :: "ctx \<Rightarrow> string \<Rightarrow> go_error option proc" where
  "pullImage ctx img =
     pbind (callE (ImagePull ctx img)) (\<lambda>err. case err of
        Some e \<Rightarrow> Return (Some e)
      | None \<Rightarrow>
          pbind (callE (ReadPullBody img)) (\<lambda>copyErr.
          pbind (callE (ClosePullBody img)) (\<lambda>closeErr. Return copyErr)))"

definition containerEnv :: "string gomap \<Rightarrow> string list" where
  "containerEnv env = map (\<lambda>(k, v). k @ CHR ''='' # v) env @ [envFileVar @ CHR ''='' # envFilePath]"

definition createContainer :: "ctx \<Rightarrow> go_job \<Rightarrow> string \<Rightarrow> (go_error + string) proc" where
  "createContainer ctx job projectPath =
     pbind (callS (ContainerCreate ctx
        \<lparr>co_Image = job_Image job, co_Env = containerEnv (job_Env job),
         co_Labels = [(''odyssey.job'', job_Name job)], co_WorkingDir = workDir,
         co_Cmd = [''sh'', ''-c'', ''tail -f /dev/null'']\<rparr>))
     (\<lambda>resp. case resp of
        Inl err \<Rightarrow> Return (Inl err)
      | Inr cid \<Rightarrow>
          pbind (mountArchive ctx cid projectPath workDir) (\<lambda>mounted. case mounted of
             None \<Rightarrow> Return (Inr cid)
           | Some err \<Rightarrow>
               pbind (removeContainer ctx cid) (\<lambda>removeErr.
                 let err' = (case removeErr of
                       None \<Rightarrow> err
                     | Some re \<Rightarrow> Errorf [Wrapped err, Lit ''; additionally, failed to remove container: '', Wrapped re])
                 in Return (Inl (Errorf [Lit ''failed to mount project path to container: '', Wrapped err'])))))"

fun runSetupCommands :: "ctx \<Rightarrow> string \<Rightarrow> string list \<Rightarrow> go_error option proc" where
  "runSetupCommands ctx cid [] = Return None"
| "runSetupCommands ctx cid (command # rest) =
     pbind (execCommand ctx cid command []) (\<lambda>(code, _, _, err).
       case err of
         Some e \<Rightarrow> Return (Some e)
       | None \<Rightarrow>
           if code \<noteq> ExitSuccess
           then Return (Some (Errorf [Lit ''setup command '', Quoted command, Lit '' exited with code '', Num (sint code)]))
           else runSetupCommands ctx cid rest)"

definition runSetup :: "ctx \<Rightarrow> string \<Rightarrow> string list \<Rightarrow> go_error option proc" where
  "runSetup ctx cid setupCmd =
     pbind (runSetupCommands ctx cid setupCmd) (\<lambda>err. case err of
        Some e \<Rightarrow> Return (Some e)
      | None \<Rightarrow>
          pbind (execCommand ctx cid ('': > '' @ envFilePath) []) (\<lambda>(_, _, _, initErr). case initErr of
             Some e \<Rightarrow> Return (Some (Errorf [Lit ''failed to initialize env file: '', Wrapped e]))
           | None \<Rightarrow> Return None))"

text \<open>
  The deadline of a step: \<open>time.Duration(step.Timeout) * time.Millisecond\<close> is a 64-bit
  product, which wraps around for timeouts beyond about 292 years.
\<close>

definition stepContext :: "ctx \<Rightarrow> go_step \<Rightarrow> ctx" where
  "stepContext ctx step = (if sint (step_Timeout step) > 0 then TimeoutCtx ctx (step_Timeout step * 1000000) else ctx)"

text \<open>Appending a result is always followed by publishing its finished event.\<close>

definition emitFinished :: "ctx \<Rightarrow> step_sink \<Rightarrow> string \<Rightarrow> step_result \<Rightarrow> unit proc" where
  "emitFinished ctx events jobName r =
     pbind now (\<lambda>t. emitStep ctx events (stepFinishedEvent jobName r t))"

text \<open>The result of a step whose env file could not be read, before or after it.\<close>

definition envReadFault :: "ctx \<Rightarrow> step_sink \<Rightarrow> string \<Rightarrow> string \<Rightarrow> gotime \<Rightarrow> string \<Rightarrow> step_result list \<Rightarrow>
    go_error \<Rightarrow> (step_result list \<times> go_error option) proc" where
  "envReadFault ctx events jobName stepName start when results err =
     pbind now (\<lambda>t.
     let r = \<lparr>sr_StepName = stepName, sr_Stdout = [], sr_Stderr = [], sr_ExitCode = ExitNone,
              sr_Duration = time_sub t start, sr_Err = Some err\<rparr>
     in pbind (emitFinished ctx events jobName r) (\<lambda>_.
        Return (results @ [r], Some (Errorf [Lit ''failed to read exported env '', Lit when,
          Lit '' step '', Quoted stepName, Lit '': '', Wrapped err]))))"

text \<open>
  The end of one iteration of the loop of \<open>runSteps\<close>, from the \<open>switch\<close> on: the
  results it appends, and the error with which the function returns, if it does.
  \<open>ctx.Err()\<close> is asked once where the code asks again in the same branch: once non-nil,
  its documented value does not change.
\<close>

definition settleStep :: "ctx \<Rightarrow> string \<Rightarrow> string \<Rightarrow> step_sink \<Rightarrow> go_step \<Rightarrow> gotime \<Rightarrow> step_result \<Rightarrow>
    go_error option \<Rightarrow> (step_result list \<times> go_error option) proc" where
  "settleStep ctx cid jobName events step start stepRes runErr =
     (case runErr of
        Some e \<Rightarrow>
          pbind (callE (CtxErr ctx)) (\<lambda>ctxErr. case ctxErr of
            Some ce \<Rightarrow>
              let r = stepRes\<lparr>sr_ExitCode := ExitNone, sr_Err := Some (Errorf [Lit ''run cancelled: '', Wrapped ce])\<rparr>
              in pbind (emitFinished ctx events jobName r) (\<lambda>_. Return ([r], Some ce))
          | None \<Rightarrow>
              if sint (step_Timeout step) > 0 \<and> errors_Is e DeadlineExceeded then
                let timeoutErr = Errorf [Lit ''step '', Lit (step_Name step), Lit '' timed out after '',
                                         Num (sint (step_Timeout step)), Lit ''ms''];
                    r = stepRes\<lparr>sr_ExitCode := ExitFailure\<rparr>
                in pbind (emitFinished ctx events jobName r) (\<lambda>_. Return ([r], Some timeoutErr))
              else
                let r = stepRes\<lparr>sr_Err := Some e\<rparr>
                in pbind (emitFinished ctx events jobName r) (\<lambda>_. Return ([r], Some e)))
      | None \<Rightarrow>
          pbind (emitFinished ctx events jobName stepRes) (\<lambda>_.
          pbind (readExportedEnv ctx cid) (\<lambda>after. case after of
            Inl err \<Rightarrow> envReadFault ctx events jobName (step_Name step) start ''after'' [stepRes] err
          | Inr _ \<Rightarrow> Return ([stepRes], None))))"

definition runStep :: "ctx \<Rightarrow> string \<Rightarrow> string \<Rightarrow> step_sink \<Rightarrow> go_step \<Rightarrow>
    (step_result list \<times> go_error option) proc" where
  "runStep ctx cid jobName events step =
     pbind now (\<lambda>start.
     pbind now (\<lambda>t0.
     pbind (emitStep ctx events (stepStartedEvent jobName (step_Name step) t0)) (\<lambda>_.
     pbind (readExportedEnv ctx cid) (\<lambda>before. case before of
       Inl err \<Rightarrow> envReadFault ctx events jobName (step_Name step) start ''before'' [] err
     | Inr exported \<Rightarrow>
         pbind (execCommand (stepContext ctx step) cid (step_Run step) (envSlice exported))
           (\<lambda>(exitCode, stdout, stderr, runErr).
         pbind now (\<lambda>t1.
         settleStep ctx cid jobName events step start
           \<lparr>sr_StepName = step_Name step, sr_Stdout = stdout, sr_Stderr = stderr,
            sr_ExitCode = exitCode, sr_Duration = time_sub t1 start, sr_Err = None\<rparr> runErr))))))"

fun runStepsFrom :: "ctx \<Rightarrow> string \<Rightarrow> string \<Rightarrow> step_sink \<Rightarrow> step_result list \<Rightarrow> go_step list \<Rightarrow>
    (step_result list \<times> go_error option) proc" where
  "runStepsFrom ctx cid jobName events stepResults [] = Return (stepResults, None)"
| "runStepsFrom ctx cid jobName events stepResults (step # steps) =
     pbind (runStep ctx cid jobName events step) (\<lambda>(rs, err).
       case err of
         Some e \<Rightarrow> Return (stepResults @ rs, Some e)
       | None \<Rightarrow> runStepsFrom ctx cid jobName events (stepResults @ rs) steps)"

definition runSteps :: "ctx \<Rightarrow> string \<Rightarrow> go_job \<Rightarrow> step_sink \<Rightarrow> (step_result list \<times> go_error option) proc" where
  "runSteps ctx cid job events = runStepsFrom ctx cid (job_Name job) events [] (job_Steps job)"

definition setupFault :: "string \<Rightarrow> go_error \<Rightarrow> job_result \<times> go_error option" where
  "setupFault jobName err = (\<lparr>jr_JobName = jobName, jr_StepResults = [], jr_SetupErr = Some err\<rparr>, Some err)"

definition teardownCtx :: "ctx \<Rightarrow> ctx" where
  "teardownCtx ctx = TimeoutCtx (WithoutCancel ctx) 30000000000"

text \<open>The part of \<open>Run\<close> between the creation of the container and its deferred removal.\<close>

definition runInContainer :: "ctx \<Rightarrow> go_job \<Rightarrow> step_sink \<Rightarrow> string \<Rightarrow> (job_result \<times> go_error option) proc" where
  "runInContainer ctx job events cid =
     pbind (callE (ContainerStart ctx cid)) (\<lambda>startErr. case startErr of
        Some err \<Rightarrow> Return (setupFault (job_Name job) (Errorf [Lit ''failed to start container: '', Wrapped err]))
      | None \<Rightarrow>
          pbind (runSetup ctx cid (job_Setup job)) (\<lambda>setupErr. case setupErr of
             Some err \<Rightarrow> Return (setupFault (job_Name job) (Errorf [Lit ''job setup failed: '', Wrapped err]))
           | None \<Rightarrow>
               pbind (runSteps ctx cid job events) (\<lambda>(stepResults, stepRunErr).
                 let stepRunErr' = map_option (\<lambda>e. Errorf [Lit ''failed to run steps: '', Wrapped e]) stepRunErr
                 in Return (\<lparr>jr_JobName = job_Name job, jr_StepResults = stepResults, jr_SetupErr = None\<rparr>,
                            stepRunErr'))))"

definition DockerRunner_Run :: "ctx \<Rightarrow> go_job \<Rightarrow> string \<Rightarrow> step_sink \<Rightarrow> (job_result \<times> go_error option) proc" where
  "DockerRunner_Run ctx job projectPath events =
     pbind (pullImage ctx (job_Image job)) (\<lambda>pullErr. case pullErr of
        Some err \<Rightarrow> Return (setupFault (job_Name job)
          (Errorf [Lit ''failed to pull image '', Quoted (job_Image job), Lit '': '', Wrapped err]))
      | None \<Rightarrow>
          pbind (createContainer ctx job projectPath) (\<lambda>created. case created of
             Inl err \<Rightarrow> Return (setupFault (job_Name job) (Errorf [Lit ''failed to create container: '', Wrapped err]))
           | Inr cid \<Rightarrow>
               pbind (runInContainer ctx job events cid) (\<lambda>res.
               pbind (removeContainer (teardownCtx ctx) cid) (\<lambda>_. Return res))))"

end
