(* ===== verification/Goroutines.thy ===== *)
theory Goroutines
  imports Process
begin

text \<open>
  Goroutines that run until all have returned (\<open>errgroup\<close> with functions that never
  fail, as the orchestrator uses it): a list of processes of which, at each step, some one
  makes its next call. The step relation allows every interleaving; a scheduler picks one.
\<close>

section \<open>Interleavings\<close>

inductive par_step :: "'a proc list \<Rightarrow> nat \<times> obs \<Rightarrow> 'a proc list \<Rightarrow> bool" where
  "i < length ps \<Longrightarrow> advance (ps ! i) ob = Some p' \<Longrightarrow> par_step ps (i, ob) (ps[i := p'])"

inductive_cases par_stepE: "par_step ps l ps'"
inductive_simps par_step_iff: "par_step ps (i, ob) ps'"

inductive par_run :: "'a proc list \<Rightarrow> (nat \<times> obs) list \<Rightarrow> 'a list \<Rightarrow> bool" where
  par_done: "par_run (map Return as) [] as"
| par_move: "par_step ps l ps' \<Longrightarrow> par_run ps' tr as \<Longrightarrow> par_run ps (l # tr) as"

inductive_cases par_run_NilE: "par_run ps [] as"
inductive_cases par_run_ConsE: "par_run ps (l # tr) as"

text \<open>The calls that one of the processes made.\<close>

definition own :: "nat \<Rightarrow> (nat \<times> obs) list \<Rightarrow> obs list" where
  "own i tr = map snd (filter (\<lambda>l. fst l = i) tr)"

lemma own_simps [simp, trace_simps]:
  "own i [] = []" "own i ((j, ob) # tr) = (if j = i then ob # own i tr else own i tr)"
  "own i (tr @ tr') = own i tr @ own i tr'"
  by (simp_all add: own_def)

lemma par_run_own:
  "par_run ps tr as \<Longrightarrow> length as = length ps \<and> (\<forall>l \<in> set tr. fst l < length ps) \<and>
     (\<forall>i < length ps. replay (ps ! i) (own i tr) = Some (as ! i))"
proof (induction rule: par_run.induct)
  case (par_done as)
  then show ?case by simp
next
  case (par_move ps l ps' tr as)
  from par_move.hyps(1) obtain i ob p' where s: "l = (i, ob)" "i < length ps" "advance (ps ! i) ob = Some p'" "ps' = ps[i := p']"
    by (auto elim: par_stepE)
  have "replay (ps ! j) (own j (l # tr)) = Some (as ! j)" if "j < length ps" for j
    using par_move.IH s that by (cases "j = i") auto
  then show ?case using par_move.IH s by auto
qed

lemma own_run_par:
  "length as = length ps \<Longrightarrow> \<forall>l \<in> set tr. fst l < length ps \<Longrightarrow>
     \<forall>i < length ps. replay (ps ! i) (own i tr) = Some (as ! i) \<Longrightarrow> par_run ps tr as"
proof (induction tr arbitrary: ps)
  case Nil
  then have "ps = map Return as" by (auto intro!: nth_equalityI)
  then show ?case by (simp add: par_done)
next
  case (Cons l tr)
  obtain i ob where l: "l = (i, ob)" by (cases l)
  with Cons.prems have i: "i < length ps" and r: "replay (ps ! i) (ob # own i tr) = Some (as ! i)" by auto
  then obtain p' where p': "advance (ps ! i) ob = Some p'" "replay p' (own i tr) = Some (as ! i)"
    by (auto split: option.splits)
  have "replay (ps[i := p'] ! j) (own j tr) = Some (as ! j)" if "j < length ps" for j
    using Cons.prems(3) that p' i l by (cases "j = i") auto
  then have "par_run (ps[i := p']) tr as" using Cons.prems by (intro Cons.IH) auto
  moreover have "par_step ps l (ps[i := p'])" using i p' by (simp add: l par_step.intros)
  ultimately show ?case by (rule par_move [rotated])
qed

text \<open>
  The composition theorem: the complete interleaved behaviours are exactly the traces whose
  projection on each process is a complete behaviour of it.
\<close>

theorem par_run_iff:
  "par_run ps tr as \<longleftrightarrow> length as = length ps \<and> (\<forall>l \<in> set tr. fst l < length ps) \<and>
     (\<forall>i < length ps. replay (ps ! i) (own i tr) = Some (as ! i))"
  using par_run_own own_run_par by blast

section \<open>Running under a scheduler\<close>

definition live :: "'a proc list \<Rightarrow> nat list" where
  "live ps = filter (\<lambda>i. returned (ps ! i) = None) [0..<length ps]"

lemma live_iff: "i \<in> set (live ps) \<longleftrightarrow> i < length ps \<and> returned (ps ! i) = None"
  by (auto simp: live_def)

lemma live_Nil: "live ps = [] \<Longrightarrow> ps = map Return (map (\<lambda>p. the (returned p)) ps)"
proof (rule nth_equalityI)
  fix i assume nil: "live ps = []" and i: "i < length ps"
  then have "returned (ps ! i) \<noteq> None" using live_iff [of i ps] by auto
  then show "ps ! i = map Return (map (\<lambda>p. the (returned p)) ps) ! i" using i by auto
qed simp

text \<open>The scheduler looks at the state of the world and picks one of the live processes.\<close>

definition pick_live :: "('w \<Rightarrow> nat) \<Rightarrow> 'w \<Rightarrow> 'a proc list \<Rightarrow> nat" where
  "pick_live pick w ps = live ps ! (pick w mod length (live ps))"

lemma pick_live_in: "live ps \<noteq> [] \<Longrightarrow> pick_live pick w ps \<in> set (live ps)"
  by (simp add: pick_live_def)

function par_exec :: "'w env \<Rightarrow> ('w \<Rightarrow> nat) \<Rightarrow> 'w \<Rightarrow> 'a proc list \<Rightarrow> (nat \<times> obs) list \<times> 'a list \<times> 'w" where
  "par_exec h pick w ps =
     (if live ps = [] then ([], map (\<lambda>p. the (returned p)) ps, w)
      else let i = pick_live pick w ps
           in case answer h w (ps ! i) of
                None \<Rightarrow> ([], map (\<lambda>p. the (returned p)) ps, w)
              | Some (ob, p', w') \<Rightarrow>
                  (let (tr, as, w'') = par_exec h pick w' (ps[i := p']) in ((i, ob) # tr, as, w'')))"
  by pat_completeness auto
termination
proof (relation "inv_image (listrel1 {(p', p). subproc p' p}) (\<lambda>(h, pick, w, ps). ps)", goal_cases)
  case 1
  show ?case by (intro wf_inv_image) (simp add: wfp_subproc [unfolded wfp_def])
next
  case (2 h pick w ps i y ob yy p' w')
  then have i: "i < length ps" using pick_live_in [of ps pick w] by (simp add: live_iff)
  have "subproc p' (ps ! i)" using 2 by (auto intro: subproc.intros answer_advance)
  then have "(ps[i := p'], ps) \<in> listrel1 {(p', p). subproc p' p}"
    by (intro listrel1I [OF _ upd_conv_take_nth_drop [OF i] id_take_nth_drop [OF i]]) simp
  then show ?case by simp
qed

declare par_exec.simps [simp del]

text \<open>Under every scheduler all processes return, and what happened is an interleaving.\<close>

lemma par_exec_run: "par_exec h pick w ps = (tr, as, w') \<Longrightarrow> par_run ps tr as"
proof (induction h pick w ps arbitrary: tr as w' rule: par_exec.induct)
  case (1 h pick w ps)
  show ?case
  proof (cases "live ps = []")
    case True
    then have "tr = []" "as = map (\<lambda>p. the (returned p)) ps"
      using "1.prems" by (simp_all add: par_exec.simps [of h pick w ps])
    then show ?thesis using par_done live_Nil [OF True] by metis
  next
    case False
    let ?i = "pick_live pick w ps"
    have i: "?i < length ps" "returned (ps ! ?i) = None"
      using pick_live_in [OF False, of pick w] by (simp_all add: live_iff)
    then obtain ob p' w1 where a: "answer h w (ps ! ?i) = Some (ob, p', w1)"
      by (cases "answer h w (ps ! ?i)") auto
    obtain tr1 as1 w2 where r: "par_exec h pick w1 (ps[?i := p']) = (tr1, as1, w2)"
      by (cases "par_exec h pick w1 (ps[?i := p'])")
    have eq: "tr = (?i, ob) # tr1" "as = as1"
      using "1.prems" False a r by (simp_all add: par_exec.simps [of h pick w ps] Let_def)
    have "par_run (ps[?i := p']) tr1 as1" using "1.IH" [OF False refl a] r by auto
    moreover have "par_step ps (?i, ob) (ps[?i := p'])" using i(1) answer_advance [OF a] by (rule par_step.intros)
    ultimately show ?thesis unfolding eq by (rule par_move [rotated])
  qed
qed

end
