(* ===== verification/Config.thy ===== *)
theory Config
  imports Domain Paths "HOL-Library.Multiset"
begin

text \<open>
  Configuration (package \<open>internal/config\<close>, and \<open>ReadToml\<close> of
  \<open>internal/common/utils.go\<close>): the decoded TOML model, its validation, and the
  translation to a pipeline. TOML decoding itself is a parameter; so is the file system.
\<close>

section \<open>The model (\<open>models.go\<close>)\<close>

record StepConfig =
  sc_Name :: string
  sc_Run :: string
  sc_Timeout :: goint

record JobConfig =
  jc_Stage :: string
  jc_Image :: string
  jc_Setup :: "string list"
  jc_Env :: "string gomap"
  jc_Steps :: "StepConfig list"

record PipelineConfig =
  pc_Name :: string
  pc_Stages :: "string list"

record EnvConfig =
  ec_Env :: "string gomap"

record RootConfig =
  rc_Pipeline :: PipelineConfig
  rc_Jobs :: "JobConfig gomap"

section \<open>Validation\<close>

fun checkStages :: "bool gomap \<Rightarrow> string list \<Rightarrow> bool gomap \<times> go_error list" where
  "checkStages seen [] = (seen, [])"
| "checkStages seen (stage # stages) =
     (let errs = (if gm_get False seen stage then [Errorf [Lit ''duplicate stage name: '', Quoted stage]] else []);
          (seen', errs') = checkStages (gm_set seen stage True) stages
      in (seen', errs @ errs'))"

definition checkStep :: "string \<Rightarrow> nat \<Rightarrow> StepConfig \<Rightarrow> go_error list" where
  "checkStep jobName stepNumber step =
     (if sc_Name step = []
      then [Errorf [Lit ''job '', Quoted jobName, Lit '': step '', Num (int stepNumber + 1), Lit '': name must not be empty'']]
      else []) @
     (if sc_Run step = []
      then [Errorf [Lit ''job '', Quoted jobName, Lit '': step '', Num (int stepNumber + 1), Lit '' ('', Quoted (sc_Name step),
              Lit ''): run must not be empty'']]
      else []) @
     (if sint (sc_Timeout step) < 0
      then [Errorf [Lit ''job '', Quoted jobName, Lit '': step '', Num (int stepNumber + 1), Lit '' ('', Quoted (sc_Name step),
              Lit ''): timeout must not be negative (milliseconds)'']]
      else [])"

fun checkSteps :: "string \<Rightarrow> nat \<Rightarrow> StepConfig list \<Rightarrow> go_error list" where
  "checkSteps jobName i [] = []"
| "checkSteps jobName i (step # steps) = checkStep jobName i step @ checkSteps jobName (Suc i) steps"

definition checkJob :: "bool gomap \<Rightarrow> string \<Rightarrow> JobConfig \<Rightarrow> go_error list" where
  "checkJob seen jobName job =
     (if jc_Stage job = [] then [Errorf [Lit ''job '', Quoted jobName, Lit '': stage must not be empty'']]
      else if \<not> gm_get False seen (jc_Stage job)
      then [Errorf [Lit ''job '', Quoted jobName, Lit '': stage '', Quoted (jc_Stage job),
              Lit '' is not declared in pipeline.stages'']]
      else []) @
     (if jc_Image job = [] then [Errorf [Lit ''job '', Quoted jobName, Lit '': image must not be empty'']] else []) @
     (if length (jc_Steps job) = 0
      then [Errorf [Lit ''job '', Quoted jobName, Lit '': must define at least one step'']] else []) @
     checkSteps jobName 0 (jc_Steps job)"

fun checkJobs :: "bool gomap \<Rightarrow> nat gomap \<Rightarrow> JobConfig gomap \<Rightarrow> nat gomap \<times> go_error list" where
  "checkJobs seen jobsPerStage [] = (jobsPerStage, [])"
| "checkJobs seen jobsPerStage ((jobName, job) # jobs) =
     (let jobsPerStage' = gm_set jobsPerStage (jc_Stage job) (Suc (gm_get 0 jobsPerStage (jc_Stage job)));
          (counts, errs) = checkJobs seen jobsPerStage' jobs
      in (counts, checkJob seen jobName job @ errs))"

definition checkEmptyStages :: "nat gomap \<Rightarrow> string list \<Rightarrow> go_error list" where
  "checkEmptyStages jobsPerStage stages =
     map (\<lambda>stage. Errorf [Lit ''stage '', Quoted stage, Lit '' has no jobs''])
       (filter (\<lambda>stage. gm_get 0 jobsPerStage stage = 0) stages)"

definition validationErrors :: "RootConfig \<Rightarrow> go_error list" where
  "validationErrors root =
     (let stages = pc_Stages (rc_Pipeline root);
          noStages = (if length stages = 0 then [Errorf [Lit ''pipeline must declare at least one stage'']] else []);
          (seen, stageErrs) = checkStages [] stages;
          noJobs = (if length (rc_Jobs root) = 0 then [Errorf [Lit ''pipeline must define at least one job'']] else []);
          (jobsPerStage, jobErrs) = checkJobs seen [] (rc_Jobs root)
      in noStages @ stageErrs @ noJobs @ jobErrs @ checkEmptyStages jobsPerStage stages)"

definition Validate :: "RootConfig \<Rightarrow> go_error option" where
  "Validate root = errors_Join (validationErrors root)"

section \<open>Translation (\<open>loader.go\<close>)\<close>

definition odysseyDir :: string where "odysseyDir = ''.odyssey''"
definition pipelineFile :: string where "pipelineFile = ''pipeline.toml''"
definition envFile :: string where "envFile = ''env.toml''"

definition mergeEnv :: "string gomap \<Rightarrow> string gomap \<Rightarrow> string gomap" where
  "mergeEnv global jobLevel = maps_Copy (maps_Copy [] global) jobLevel"

definition translateStep :: "StepConfig \<Rightarrow> go_step" where
  "translateStep s = \<lparr>step_Name = sc_Name s, step_Run = sc_Run s, step_Timeout = sc_Timeout s\<rparr>"

definition translateJob :: "string gomap \<Rightarrow> string \<Rightarrow> JobConfig \<Rightarrow> go_job" where
  "translateJob globalEnv jobKey jobCfg =
     \<lparr>job_Name = jobKey, job_Image = jc_Image jobCfg, job_Setup = jc_Setup jobCfg,
      job_Steps = map translateStep (jc_Steps jobCfg), job_Env = mergeEnv globalEnv (jc_Env jobCfg)\<rparr>"

definition zeroJobConfig :: JobConfig where
  "zeroJobConfig = \<lparr>jc_Stage = [], jc_Image = [], jc_Setup = [], jc_Env = [], jc_Steps = []\<rparr>"

fun groupJobs :: "RootConfig \<Rightarrow> string gomap \<Rightarrow> go_job list gomap \<Rightarrow> string list \<Rightarrow> go_job list gomap" where
  "groupJobs root globalEnv jobsByStage [] = jobsByStage"
| "groupJobs root globalEnv jobsByStage (jobKey # keys) =
     (let jobCfg = gm_get zeroJobConfig (rc_Jobs root) jobKey;
          job = translateJob globalEnv jobKey jobCfg
      in groupJobs root globalEnv
           (gm_set jobsByStage (jc_Stage jobCfg) (gm_get [] jobsByStage (jc_Stage jobCfg) @ [job])) keys)"

definition translate :: "RootConfig \<Rightarrow> string gomap \<Rightarrow> go_pipeline" where
  "translate root globalEnv =
     (let jobsByStage = groupJobs root globalEnv [] (sorted_keys (rc_Jobs root))
      in \<lparr>pipeline_Name = pc_Name (rc_Pipeline root),
          pipeline_Stages = map (\<lambda>stageName. \<lparr>stage_Name = stageName, stage_Jobs = gm_get [] jobsByStage stageName\<rparr>)
            (pc_Stages (rc_Pipeline root))\<rparr>)"

section \<open>Loading\<close>

text \<open>
  \<open>ReadToml\<close>: the decoder is a parameter that answers, for a path, with an error or with
  the decoded model and the keys of the file that the model does not have.
\<close>

fun join_comma :: "string list \<Rightarrow> string" where
  "join_comma [] = []"
| "join_comma [k] = k"
| "join_comma (k # ks) = k @ '', '' @ join_comma ks"

definition ReadToml :: "(string \<Rightarrow> go_error + 'a \<times> string list) \<Rightarrow> string \<Rightarrow> go_error + 'a" where
  "ReadToml decode tomlPath =
     (case decode tomlPath of
        Inl err \<Rightarrow> Inl err
      | Inr (model, undecoded) \<Rightarrow>
          if length undecoded > 0
          then Inl (Errorf [Lit tomlPath, Lit '': unknown configuration keys: '', Lit (join_comma undecoded)])
          else Inr model)"

text \<open>The files a load reads: the two decoders, and whether \<open>os.Stat\<close> reports that a path does not exist.\<close>

record config_files =
  decodeRoot :: "string \<Rightarrow> go_error + RootConfig \<times> string list"
  decodeEnv :: "string \<Rightarrow> go_error + EnvConfig \<times> string list"
  statNotExist :: "string \<Rightarrow> bool"

definition loadEnv :: "config_files \<Rightarrow> string \<Rightarrow> go_error + string gomap" where
  "loadEnv fs odysseyPath =
     (let envPath = JoinPath odysseyPath envFile
      in if statNotExist fs envPath then Inr []
         else case ReadToml (decodeEnv fs) envPath of
                Inl err \<Rightarrow> Inl err
              | Inr envConfig \<Rightarrow> Inr (ec_Env envConfig))"

definition Load :: "config_files \<Rightarrow> string \<Rightarrow> go_error + go_pipeline" where
  "Load fs projectPath =
     (let odysseyPath = JoinPath projectPath odysseyDir
      in case ReadToml (decodeRoot fs) (JoinPath odysseyPath pipelineFile) of
           Inl err \<Rightarrow> Inl (Errorf [Lit ''failed to read pipeline.toml: '', Wrapped err])
         | Inr root \<Rightarrow>
             (case Validate root of
                Some err \<Rightarrow> Inl (Errorf [Lit ''invalid pipeline config: '', Wrapped err])
              | None \<Rightarrow>
                  (case loadEnv fs odysseyPath of
                     Inl err \<Rightarrow> Inl (Errorf [Lit ''failed to read env.toml: '', Wrapped err])
                   | Inr env \<Rightarrow> Inr (translate root env))))"

section \<open>Lemmas\<close>

lemma gm_get_set [simp]: "gm_get z (gm_set m k v) k' = (if k' = k then v else gm_get z m k')"
  by (simp add: gm_get_def)

lemma gm_get_Nil [simp]: "gm_get z [] k = z"
  by (simp add: gm_get_def)

lemma checkStages_seen: "gm_get False (fst (checkStages seen stages)) s \<longleftrightarrow> gm_get False seen s \<or> s \<in> set stages"
proof (induction stages arbitrary: seen)
  case (Cons x stages)
  have "fst (checkStages seen (x # stages)) = fst (checkStages (gm_set seen x True) stages)"
    by (simp add: Let_def case_prod_beta)
  then show ?case by (simp add: Cons.IH)
qed simp

lemma checkStages_ok:
  "snd (checkStages seen stages) = [] \<longleftrightarrow> distinct stages \<and> (\<forall>s \<in> set stages. \<not> gm_get False seen s)"
proof (induction stages arbitrary: seen)
  case (Cons s stages)
  have "snd (checkStages seen (s # stages)) = [] \<longleftrightarrow>
      \<not> gm_get False seen s \<and> snd (checkStages (gm_set seen s True) stages) = []"
    by (simp add: Let_def case_prod_beta)
  then show ?case unfolding Cons.IH by (auto split: if_splits)
qed simp

definition step_ok :: "StepConfig \<Rightarrow> bool" where
  "step_ok s \<longleftrightarrow> sc_Name s \<noteq> [] \<and> sc_Run s \<noteq> [] \<and> 0 \<le> sint (sc_Timeout s)"

lemma checkSteps_ok: "checkSteps n i steps = [] \<longleftrightarrow> (\<forall>s \<in> set steps. step_ok s)"
  by (induction steps arbitrary: i) (auto simp: checkStep_def step_ok_def)

definition job_ok :: "string list \<Rightarrow> JobConfig \<Rightarrow> bool" where
  "job_ok stages j \<longleftrightarrow> jc_Stage j \<noteq> [] \<and> jc_Stage j \<in> set stages \<and> jc_Image j \<noteq> [] \<and>
     jc_Steps j \<noteq> [] \<and> (\<forall>s \<in> set (jc_Steps j). step_ok s)"

lemma checkJob_ok:
  "checkJob (fst (checkStages [] stages)) n j = [] \<longleftrightarrow> job_ok stages j"
  by (auto simp: checkJob_def job_ok_def checkSteps_ok checkStages_seen)

lemma checkJobs_errs: "snd (checkJobs seen counts jobs) = concat (map (\<lambda>(n, j). checkJob seen n j) jobs)"
  by (induction seen counts jobs rule: checkJobs.induct) (auto simp: Let_def split: prod.split)

lemma checkJobs_count:
  "gm_get 0 (fst (checkJobs seen counts jobs)) s =
     gm_get 0 counts s + length (filter (\<lambda>(n, j). jc_Stage j = s) jobs)"
  by (induction seen counts jobs rule: checkJobs.induct) (auto simp: Let_def split: prod.split)

text \<open>The specification of a valid configuration.\<close>

definition config_ok :: "RootConfig \<Rightarrow> bool" where
  "config_ok root \<longleftrightarrow>
     (let stages = pc_Stages (rc_Pipeline root); jobs = map snd (rc_Jobs root)
      in stages \<noteq> [] \<and> distinct stages \<and> jobs \<noteq> [] \<and> (\<forall>j \<in> set jobs. job_ok stages j) \<and>
         (\<forall>s \<in> set stages. \<exists>j \<in> set jobs. jc_Stage j = s))"

lemma validationErrors_eq:
  "validationErrors root =
     (let stages = pc_Stages (rc_Pipeline root); seen = fst (checkStages [] stages) in
      (if stages = [] then [Errorf [Lit ''pipeline must declare at least one stage'']] else []) @
      snd (checkStages [] stages) @
      (if rc_Jobs root = [] then [Errorf [Lit ''pipeline must define at least one job'']] else []) @
      concat (map (\<lambda>(n, j). checkJob seen n j) (rc_Jobs root)) @
      checkEmptyStages (fst (checkJobs seen [] (rc_Jobs root))) stages)"
  by (simp add: validationErrors_def Let_def case_prod_beta checkJobs_errs)

lemma checkEmptyStages_eq:
  "checkEmptyStages (fst (checkJobs seen [] jobs)) stages =
     map (\<lambda>s. Errorf [Lit ''stage '', Quoted s, Lit '' has no jobs''])
       (filter (\<lambda>s. \<forall>j \<in> set (map snd jobs). jc_Stage j \<noteq> s) stages)"
  unfolding checkEmptyStages_def checkJobs_count
  by (rule arg_cong [where f = "map _"], rule filter_cong) (auto simp: filter_empty_conv)

lemma groupJobs_get:
  "gm_get [] (groupJobs root env m keys) s =
     gm_get [] m s @ map (\<lambda>k. translateJob env k (gm_get zeroJobConfig (rc_Jobs root) k))
       (filter (\<lambda>k. jc_Stage (gm_get zeroJobConfig (rc_Jobs root) k) = s) keys)"
  by (induction root env m keys rule: groupJobs.induct) (auto simp: Let_def)

text \<open>The jobs of a stage: those configured for it, in key order.\<close>

definition stage_keys :: "RootConfig \<Rightarrow> string \<Rightarrow> string list" where
  "stage_keys root s = filter (\<lambda>k. jc_Stage (gm_get zeroJobConfig (rc_Jobs root) k) = s) (sorted_keys (rc_Jobs root))"

lemma translate_stages:
  "pipeline_Stages (translate root env) =
     map (\<lambda>s. \<lparr>stage_Name = s,
       stage_Jobs = map (\<lambda>k. translateJob env k (gm_get zeroJobConfig (rc_Jobs root) k)) (stage_keys root s)\<rparr>)
     (pc_Stages (rc_Pipeline root))"
  by (simp add: translate_def Let_def groupJobs_get stage_keys_def)

lemma gm_get_job: "gm_ok jobs \<Longrightarrow> (k, j) \<in> set jobs \<Longrightarrow> gm_get z jobs k = j"
  by (simp add: gm_get_def gm_ok_def)

lemma stage_keys_set:
  assumes "gm_ok (rc_Jobs root)"
  shows "set (stage_keys root s) = {k. \<exists>j. (k, j) \<in> set (rc_Jobs root) \<and> jc_Stage j = s}"
  using assms by (force simp: stage_keys_def gm_get_job image_iff)

lemma stage_keys_sorted: "sorted (stage_keys root s)" "gm_ok (rc_Jobs root) \<Longrightarrow> distinct (stage_keys root s)"
  by (simp_all add: stage_keys_def sorted_wrt_filter)

lemma distinct_concat_stage_keys:
  assumes "gm_ok (rc_Jobs root)" and "distinct stages"
  shows "distinct (concat (map (stage_keys root) stages))"
  using assms(2)
proof (induction stages)
  case (Cons s stages)
  have "set (stage_keys root s) \<inter> set (stage_keys root s') = {}" if "s' \<noteq> s" for s'
    using that by (auto simp: stage_keys_def)
  then show ?case using Cons stage_keys_sorted(2) [OF assms(1)] by fastforce
qed simp

section \<open>What a loaded pipeline satisfies\<close>

definition pipeline_job_names :: "go_pipeline \<Rightarrow> string list" where
  "pipeline_job_names p = concat (map (\<lambda>g. map job_Name (stage_Jobs g)) (pipeline_Stages p))"

definition pipeline_ok :: "go_pipeline \<Rightarrow> bool" where
  "pipeline_ok p \<longleftrightarrow> pipeline_Stages p \<noteq> [] \<and> distinct (map stage_Name (pipeline_Stages p)) \<and>
     distinct (pipeline_job_names p) \<and>
     (\<forall>g \<in> set (pipeline_Stages p). stage_Jobs g \<noteq> [] \<and> sorted (map job_Name (stage_Jobs g)) \<and>
       (\<forall>j \<in> set (stage_Jobs g). job_Image j \<noteq> [] \<and> job_Steps j \<noteq> [] \<and> gm_ok (job_Env j) \<and>
         (\<forall>s \<in> set (job_Steps j). step_Name s \<noteq> [] \<and> step_Run s \<noteq> [] \<and> 0 \<le> sint (step_Timeout s))))"

lemma translate_job_names:
  "map (\<lambda>g. map job_Name (stage_Jobs g)) (pipeline_Stages (translate root env)) =
     map (stage_keys root) (pc_Stages (rc_Pipeline root))"
  by (simp add: translate_stages translateJob_def comp_def)

lemma translate_ok:
  assumes ok: "config_ok root" and jobs: "gm_ok (rc_Jobs root)"
  shows "pipeline_ok (translate root env)"
proof -
  let ?p = "translate root env" and ?ss = "pc_Stages (rc_Pipeline root)"
  have ss: "?ss \<noteq> []" "distinct ?ss" and all: "\<And>k j. (k, j) \<in> set (rc_Jobs root) \<Longrightarrow> job_ok ?ss j"
    and used: "\<And>s. s \<in> set ?ss \<Longrightarrow> \<exists>k j. (k, j) \<in> set (rc_Jobs root) \<and> jc_Stage j = s"
    using ok by (fastforce simp: config_ok_def Let_def)+
  have names: "map stage_Name (pipeline_Stages ?p) = ?ss" by (simp add: translate_stages comp_def)
  have "stage_Jobs g \<noteq> [] \<and> sorted (map job_Name (stage_Jobs g)) \<and>
      (\<forall>j \<in> set (stage_Jobs g). job_Image j \<noteq> [] \<and> job_Steps j \<noteq> [] \<and> gm_ok (job_Env j) \<and>
         (\<forall>s \<in> set (job_Steps j). step_Name s \<noteq> [] \<and> step_Run s \<noteq> [] \<and> 0 \<le> sint (step_Timeout s)))"
    if g: "g \<in> set (pipeline_Stages ?p)" for g
  proof -
    from g obtain s where s: "s \<in> set ?ss"
      and gj: "stage_Jobs g = map (\<lambda>k. translateJob env k (gm_get zeroJobConfig (rc_Jobs root) k)) (stage_keys root s)"
      by (auto simp: translate_stages)
    have "stage_keys root s \<noteq> []" using used [OF s] stage_keys_set [OF jobs, of s] by force
    moreover have "map job_Name (stage_Jobs g) = stage_keys root s"
      by (simp add: gj translateJob_def comp_def)
    moreover have "job_ok ?ss (gm_get zeroJobConfig (rc_Jobs root) k)" if "k \<in> set (stage_keys root s)" for k
      using that all gm_get_job [OF jobs] by (auto simp: stage_keys_set [OF jobs])
    ultimately show ?thesis
      by (auto simp: gj translateJob_def translateStep_def mergeEnv_def job_ok_def step_ok_def stage_keys_sorted)
  qed
  moreover have "distinct (pipeline_job_names ?p)"
    unfolding pipeline_job_names_def translate_job_names by (rule distinct_concat_stage_keys [OF jobs ss(2)])
  moreover have "pipeline_Stages ?p \<noteq> []" using ss(1) by (simp add: translate_stages)
  ultimately show ?thesis using ss(2) names by (simp add: pipeline_ok_def)
qed

lemma Validate_iff: "Validate root = None \<longleftrightarrow> config_ok root"
proof -
  let ?ss = "pc_Stages (rc_Pipeline root)"
  have jobs: "concat (map (\<lambda>(n, j). checkJob (fst (checkStages [] ?ss)) n j) (rc_Jobs root)) = [] \<longleftrightarrow>
      (\<forall>j \<in> set (map snd (rc_Jobs root)). job_ok ?ss j)"
    by (auto simp: checkJob_ok case_prod_beta)
  have used: "checkEmptyStages (fst (checkJobs seen [] (rc_Jobs root))) ?ss = [] \<longleftrightarrow>
      (\<forall>s \<in> set ?ss. \<exists>j \<in> set (map snd (rc_Jobs root)). jc_Stage j = s)" for seen
    unfolding checkEmptyStages_eq by (auto simp: filter_empty_conv)
  show ?thesis
    unfolding Validate_def errors_Join_None validationErrors_eq Let_def
    by (simp only: append_is_Nil_conv jobs used checkStages_ok) (auto simp: config_ok_def Let_def)
qed

lemma ReadToml_Inr: "ReadToml decode p = Inr m \<longleftrightarrow> decode p = Inr (m, [])"
  by (auto simp: ReadToml_def split: sum.splits prod.splits)

lemma loadEnv_Inr:
  "loadEnv fs path = Inr env \<longleftrightarrow>
     (if statNotExist fs (JoinPath path envFile) then env = []
      else ReadToml (decodeEnv fs) (JoinPath path envFile) = Inr \<lparr>ec_Env = env\<rparr>)"
proof -
  have "(\<exists>m. r = Inr m \<and> ec_Env m = env) \<longleftrightarrow> r = Inr \<lparr>ec_Env = env\<rparr>" for r :: "go_error + EnvConfig"
    by auto
  then show ?thesis by (auto simp: loadEnv_def Let_def split: sum.split)
qed

lemma Load_Inr:
  "Load fs path = Inr pipeline \<longleftrightarrow>
     (\<exists>root env. ReadToml (decodeRoot fs) (JoinPath (JoinPath path odysseyDir) pipelineFile) = Inr root \<and>
        Validate root = None \<and> loadEnv fs (JoinPath path odysseyDir) = Inr env \<and> pipeline = translate root env)"
  by (auto simp: Load_def Let_def split: sum.split option.split)

text \<open>A valid configuration, in two visiting orders of its jobs map.\<close>

definition demo_config :: "JobConfig gomap \<Rightarrow> RootConfig" where
  "demo_config jobs = \<lparr>rc_Pipeline = \<lparr>pc_Name = ''ci'', pc_Stages = [''check'', ''test'']\<rparr>, rc_Jobs = jobs\<rparr>"

definition demo_job_config :: "string \<Rightarrow> JobConfig" where
  "demo_job_config stage = \<lparr>jc_Stage = stage, jc_Image = ''golang'', jc_Setup = [], jc_Env = [(''K'', ''v'')],
     jc_Steps = [\<lparr>sc_Name = ''s'', sc_Run = ''make'', sc_Timeout = 0\<rparr>]\<rparr>"

definition demo_jobs :: "JobConfig gomap" where
  "demo_jobs = [(''vet'', demo_job_config ''check''), (''fmt'', demo_job_config ''check''), (''unit'', demo_job_config ''test'')]"

lemma demo_config_ok: "config_ok (demo_config demo_jobs)" "gm_ok demo_jobs" "gm_ok (rev demo_jobs)"
  by code_simp+

lemma demo_rev: "map_of (rev demo_jobs) = map_of demo_jobs"
  by (simp add: demo_jobs_def fun_upd_twist)

section \<open>Properties\<close>

text \<open>
  C11. Validation accepts exactly the well-formed configurations: at least one
  stage and no stage twice, at least one job, every job with a declared stage, an image and
  at least one step, every step named, with a command and a non-negative timeout, and every
  stage used by some job.
\<close>

theorem Validate_spec: "Validate root = None \<longleftrightarrow> config_ok root"
  by (rule Validate_iff)

text \<open>
  Every violation is reported in one pass, and which ones are reported
  does not depend on the order in which Go happens to visit the jobs map.
\<close>

theorem Validate_complete:
  assumes "mset (rc_Jobs root) = mset (rc_Jobs root')" and "rc_Pipeline root = rc_Pipeline root'"
  shows "mset (validationErrors root) = mset (validationErrors root')"
proof -
  have "set (rc_Jobs root) = set (rc_Jobs root')" using assms(1) by (rule mset_eq_setD)
  moreover have "mset (concat (map f (rc_Jobs root))) = mset (concat (map f (rc_Jobs root')))" for f :: "_ \<Rightarrow> go_error list"
  proof -
    have "mset (concat (map f xs)) = \<Sum>\<^sub># (image_mset (\<lambda>x. mset (f x)) (mset xs))" for xs
      by (induction xs) simp_all
    then show ?thesis using assms(1) by simp
  qed
  moreover have "rc_Jobs root = [] \<longleftrightarrow> rc_Jobs root' = []" using assms(1) by auto
  ultimately show ?thesis
    unfolding validationErrors_eq Let_def assms(2) checkEmptyStages_eq by simp
qed

theorem Validate_complete_witness:
  "mset (validationErrors (demo_config demo_jobs)) = mset (validationErrors (demo_config (rev demo_jobs)))"
  using Validate_complete [of "demo_config demo_jobs" "demo_config (rev demo_jobs)"] by (simp add: demo_config_def)

text \<open>
  The translated pipeline keeps the declared stage order, lists the jobs
  of a stage by name, and does not depend on the order in which Go visits the jobs map.
\<close>

theorem translate_order:
  assumes "gm_ok (rc_Jobs root)" and "gm_ok (rc_Jobs root')"
    and "map_of (rc_Jobs root) = map_of (rc_Jobs root')" and "rc_Pipeline root = rc_Pipeline root'"
  shows "map stage_Name (pipeline_Stages (translate root env)) = pc_Stages (rc_Pipeline root) \<and>
    (\<forall>g \<in> set (pipeline_Stages (translate root env)). sorted (map job_Name (stage_Jobs g))) \<and>
    translate root env = translate root' env"
proof (intro conjI ballI)
  have keys: "sorted_keys (rc_Jobs root) = sorted_keys (rc_Jobs root')"
    using assms(1-3) by (rule sorted_keys_cong)
  have get: "gm_get z (rc_Jobs root) = gm_get z (rc_Jobs root')" for z
    using assms(3) by (simp add: gm_get_def fun_eq_iff)
  have "groupJobs root env m ks = groupJobs root' env m ks" for m ks
    by (induction ks arbitrary: m) (simp_all only: groupJobs.simps get Let_def)
  then show "translate root env = translate root' env"
    using assms(4) by (simp add: translate_def keys)
  show "map stage_Name (pipeline_Stages (translate root env)) = pc_Stages (rc_Pipeline root)"
    by (simp add: translate_stages comp_def)
  fix g assume "g \<in> set (pipeline_Stages (translate root env))"
  then obtain s where "map job_Name (stage_Jobs g) = stage_keys root s"
    by (auto simp: translate_stages translateJob_def comp_def)
  then show "sorted (map job_Name (stage_Jobs g))" by (simp add: stage_keys_sorted)
qed

theorem translate_order_witness:
  "translate (demo_config demo_jobs) [] = translate (demo_config (rev demo_jobs)) []"
  using translate_order [of "demo_config demo_jobs" "demo_config (rev demo_jobs)" "[]"] demo_config_ok demo_rev
  by (simp add: demo_config_def)

text \<open>
  A job's environment is the global one overridden by the job's own entries,
  each variable once.
\<close>

theorem mergeEnv_spec:
  assumes "gm_ok global" and "gm_ok jobLevel"
  shows "gm_ok (mergeEnv global jobLevel) \<and> map_of (mergeEnv global jobLevel) = map_of global ++ map_of jobLevel"
  using assms by (simp add: mergeEnv_def map_of_Copy)

theorem mergeEnv_spec_witness:
  "map_of (mergeEnv [(''A'', ''1''), (''B'', ''2'')] [(''B'', ''3'')]) ''B'' = Some ''3''"
  using mergeEnv_spec [of "[(''A'', ''1''), (''B'', ''2'')]" "[(''B'', ''3'')]"] by (simp add: gm_ok_def)

text \<open>
  C25. Loading succeeds exactly when the pipeline file decodes with no unknown key to a
  valid configuration and the env file is absent or decodes with no unknown key; the result
  is the translation, and it is well formed: stages and jobs have distinct names across the
  whole pipeline, no stage is without jobs, no job without an image or steps, and no timeout
  is negative.
\<close>

theorem Load_ok:
  assumes "\<forall>p m ks. decodeRoot fs p = Inr (m, ks) \<longrightarrow> gm_ok (rc_Jobs m)"
  shows "(Load fs path = Inr pipeline \<longleftrightarrow>
      (\<exists>root env. decodeRoot fs (JoinPath (JoinPath path odysseyDir) pipelineFile) = Inr (root, []) \<and> config_ok root \<and>
        (if statNotExist fs (JoinPath (JoinPath path odysseyDir) envFile) then env = []
         else decodeEnv fs (JoinPath (JoinPath path odysseyDir) envFile) = Inr (\<lparr>ec_Env = env\<rparr>, [])) \<and>
        pipeline = translate root env)) \<and>
    (Load fs path = Inr pipeline \<longrightarrow> pipeline_ok pipeline)"
proof (intro conjI impI)
  show iff: "Load fs path = Inr pipeline \<longleftrightarrow>
      (\<exists>root env. decodeRoot fs (JoinPath (JoinPath path odysseyDir) pipelineFile) = Inr (root, []) \<and> config_ok root \<and>
        (if statNotExist fs (JoinPath (JoinPath path odysseyDir) envFile) then env = []
         else decodeEnv fs (JoinPath (JoinPath path odysseyDir) envFile) = Inr (\<lparr>ec_Env = env\<rparr>, [])) \<and>
        pipeline = translate root env)"
    unfolding Load_Inr Validate_iff loadEnv_Inr ReadToml_Inr by blast
  assume "Load fs path = Inr pipeline"
  then show "pipeline_ok pipeline" unfolding iff using assms translate_ok by blast
qed

definition demo_files :: config_files where
  "demo_files = \<lparr>decodeRoot = (\<lambda>p. Inr (demo_config demo_jobs, [])), decodeEnv = (\<lambda>p. Inl ErrNoRows),
     statNotExist = (\<lambda>p. True)\<rparr>"

theorem Load_ok_witness:
  "Load demo_files ''/p'' = Inr (translate (demo_config demo_jobs) []) \<and> pipeline_ok (translate (demo_config demo_jobs) [])"
proof -
  have ok: "\<forall>p m ks. decodeRoot demo_files p = Inr (m, ks) \<longrightarrow> gm_ok (rc_Jobs m)"
    using demo_config_ok(2) by (auto simp: demo_files_def demo_config_def)
  note iff = Load_ok [OF ok, where path = "''/p''" and pipeline = "translate (demo_config demo_jobs) []"]
  have "Load demo_files ''/p'' = Inr (translate (demo_config demo_jobs) [])"
    unfolding iff [THEN conjunct1] using demo_config_ok(1) by (auto simp: demo_files_def)
  then show ?thesis using iff by blast
qed

end
