(* ===== verification/Unicode.thy ===== *)
theory Unicode
  imports Prelude
begin

text \<open>
  UTF-8 as package \<open>unicode/utf8\<close> reads it, quoting (\<open>strconv.Quote\<close>, the verb
  \<open>%q\<close>), and the text of an error (\<open>Error()\<close>). Which runes beyond Latin-1 are
  printable is a table of package \<open>strconv\<close> and a parameter here.
\<close>

section \<open>UTF-8\<close>

definition byte :: "char \<Rightarrow> nat" where "byte c = of_char c"

definition continuation :: "nat \<Rightarrow> nat \<Rightarrow> char \<Rightarrow> bool" where
  "continuation lo hi c \<longleftrightarrow> lo \<le> byte c \<and> byte c \<le> hi"

abbreviation tail_byte :: "char \<Rightarrow> bool" where "tail_byte \<equiv> continuation 128 191"

text \<open>
  The range that the second byte must lie in, for each first byte: it excludes overlong
  forms, surrogates and values beyond U+10FFFF.
\<close>

definition second_ok :: "nat \<Rightarrow> char \<Rightarrow> bool" where
  "second_ok b0 c =
     (if b0 = 224 then continuation 160 191 c
      else if b0 = 237 then continuation 128 159 c
      else if b0 = 240 then continuation 144 191 c
      else if b0 = 244 then continuation 128 143 c
      else tail_byte c)"

text \<open>\<open>DecodeRune\<close>: the rune at the front and its width; no rune, of width one, when the bytes are invalid.\<close>

definition decode_rune :: "string \<Rightarrow> nat option \<times> nat" where
  "decode_rune s =
     (case s of [] \<Rightarrow> (None, 0) | c0 # s1 \<Rightarrow>
       (if byte c0 < 128 then (Some (byte c0), 1)
        else if byte c0 < 194 \<or> 244 < byte c0 then (None, 1)
        else (case s1 of [] \<Rightarrow> (None, 1) | c1 # s2 \<Rightarrow>
          (if \<not> second_ok (byte c0) c1 then (None, 1)
           else if byte c0 < 224 then (Some ((byte c0 - 192) * 64 + (byte c1 - 128)), 2)
           else (case s2 of [] \<Rightarrow> (None, 1) | c2 # s3 \<Rightarrow>
             (if \<not> tail_byte c2 then (None, 1)
              else if byte c0 < 240 then (Some ((byte c0 - 224) * 4096 + (byte c1 - 128) * 64 + (byte c2 - 128)), 3)
              else (case s3 of [] \<Rightarrow> (None, 1) | c3 # s4 \<Rightarrow>
                (if \<not> tail_byte c3 then (None, 1)
                 else (Some ((byte c0 - 240) * 262144 + (byte c1 - 128) * 4096 + (byte c2 - 128) * 64 + (byte c3 - 128)), 4)))))))))"

text \<open>The runes of a string with the bytes they stand for.\<close>

function runes :: "string \<Rightarrow> (nat option \<times> string) list" where
  "runes [] = []"
| "runes (c # cs) =
     (case decode_rune (c # cs) of (r, w) \<Rightarrow> (r, take w (c # cs)) # runes (drop (w - 1) cs))"
  by pat_completeness auto
termination by (relation "measure length") auto

lemma decode_rune_width: "s \<noteq> [] \<Longrightarrow> 1 \<le> snd (decode_rune s) \<and> snd (decode_rune s) \<le> length s"
  by (auto simp: decode_rune_def split: list.split)

lemma runes_concat: "concat (map snd (runes s)) = s"
proof (induction s rule: runes.induct)
  case (2 c cs)
  obtain r w where d: "decode_rune (c # cs) = (r, w)" by (cases "decode_rune (c # cs)")
  then have "1 \<le> w" using decode_rune_width [of "c # cs"] by simp
  then have "take w (c # cs) = c # take (w - 1) cs" by (cases w) auto
  then show ?case using 2 d by simp
qed simp

lemma decode_rune_ascii [simp]: "byte c < 128 \<Longrightarrow> decode_rune (c # cs) = (Some (byte c), 1)"
  by (simp add: decode_rune_def)

lemma runes_ascii [simp]: "byte c < 128 \<Longrightarrow> runes (c # cs) = (Some (byte c), [c]) # runes cs"
  by simp

definition valid_utf8 :: "string \<Rightarrow> bool" where
  "valid_utf8 s \<longleftrightarrow> list_all (\<lambda>(r, bs). r \<noteq> None) (runes s)"

lemma valid_utf8_Nil [simp]: "valid_utf8 []"
  by (simp add: valid_utf8_def)

lemma valid_utf8_ascii: "list_all (\<lambda>c. byte c < 128) s \<Longrightarrow> valid_utf8 s"
  by (induction s) (auto simp: valid_utf8_def simp del: runes.simps(2))

section \<open>Encoding\<close>

text \<open>\<open>EncodeRune\<close>, for runes that are not surrogates.\<close>

definition encode_rune :: "nat \<Rightarrow> string" where
  "encode_rune n =
     (if n < 128 then [char_of n]
      else if n < 2048 then [char_of (192 + n div 64), char_of (128 + n mod 64)]
      else if n < 65536 then [char_of (224 + n div 4096), char_of (128 + n div 64 mod 64), char_of (128 + n mod 64)]
      else [char_of (240 + n div 262144), char_of (128 + n div 4096 mod 64), char_of (128 + n div 64 mod 64), char_of (128 + n mod 64)])"

definition RuneError :: nat where "RuneError = 65533"

text \<open>A string with every invalid byte replaced by U+FFFD.\<close>

definition sanitize :: "string \<Rightarrow> string" where
  "sanitize s = concat (map (\<lambda>(r, bs). if r = None then encode_rune RuneError else bs) (runes s))"

lemma sanitize_valid [simp]: "valid_utf8 s \<Longrightarrow> sanitize s = s"
proof -
  assume v: "valid_utf8 s"
  have "map (\<lambda>(r, bs). if r = None then encode_rune RuneError else bs) (runes s) = map snd (runes s)"
    using v by (auto simp: valid_utf8_def list_all_iff)
  then have "sanitize s = concat (map snd (runes s))" by (simp only: sanitize_def)
  then show ?thesis by (simp only: runes_concat)
qed

lemma char_of_byte: "n = byte c \<Longrightarrow> char_of n = c"
  by (simp add: byte_def)

lemma byte_less [simp]: "byte c < 256"
  by (simp add: byte_def)

lemma digits64:
  fixes a b c d :: nat
  assumes "b < 64" and "c < 64" and "d < 64"
  shows "(a * 64 + b) div 64 = a" "(a * 64 + b) mod 64 = b"
    "(a * 4096 + b * 64 + c) div 4096 = a" "(a * 4096 + b * 64 + c) div 64 mod 64 = b" "(a * 4096 + b * 64 + c) mod 64 = c"
    "(a * 262144 + b * 4096 + c * 64 + d) div 262144 = a" "(a * 262144 + b * 4096 + c * 64 + d) div 4096 mod 64 = b"
    "(a * 262144 + b * 4096 + c * 64 + d) div 64 mod 64 = c" "(a * 262144 + b * 4096 + c * 64 + d) mod 64 = d"
proof -
  have e: "a * 4096 + b * 64 + c = (a * 64 + b) * 64 + c" "a * 262144 + b * 4096 + c * 64 + d = ((a * 64 + b) * 64 + c) * 64 + d" by simp_all
  have q: "(x * 64 + y) div 64 = x" "(x * 64 + y) mod 64 = y" if "y < 64" for x y :: nat using that by simp_all
  have m: "x div 4096 = x div 64 div 64" "x div 262144 = x div 64 div 64 div 64" for x :: nat by (simp_all flip: div_mult2_eq)
  show "(a * 64 + b) div 64 = a" "(a * 64 + b) mod 64 = b"
    "(a * 4096 + b * 64 + c) div 4096 = a" "(a * 4096 + b * 64 + c) div 64 mod 64 = b" "(a * 4096 + b * 64 + c) mod 64 = c"
    "(a * 262144 + b * 4096 + c * 64 + d) div 262144 = a" "(a * 262144 + b * 4096 + c * 64 + d) div 4096 mod 64 = b"
    "(a * 262144 + b * 4096 + c * 64 + d) div 64 mod 64 = c" "(a * 262144 + b * 4096 + c * 64 + d) mod 64 = d"
    unfolding e m using assms by (simp_all only: q)
qed

lemma tail_byte_iff: "tail_byte c \<longleftrightarrow> byte c = 128 + (byte c - 128) \<and> byte c - 128 < 64"
  by (auto simp: continuation_def)

lemma second_ok_tail: "second_ok b c \<Longrightarrow> tail_byte c"
  by (auto simp: second_ok_def continuation_def split: if_splits)

text \<open>A rune's bytes are its encoding, whatever follows them.\<close>

lemma decode_rune_encoded:
  assumes "decode_rune s = (Some n, w)"
  shows "take w s = encode_rune n \<and> length (take w s) = w \<and> 1 \<le> w"
proof -
  obtain c0 s1 where s: "s = c0 # s1" using assms by (cases s) (auto simp: decode_rune_def)
  consider "byte c0 < 128" "n = byte c0" "w = 1"
    | c1 s2 where "s1 = c1 # s2" "194 \<le> byte c0" "byte c0 < 224" "second_ok (byte c0) c1" "n = (byte c0 - 192) * 64 + (byte c1 - 128)" "w = 2"
    | c1 c2 s3 where "s1 = c1 # c2 # s3" "224 \<le> byte c0" "byte c0 < 240" "second_ok (byte c0) c1" "tail_byte c2"
        "n = (byte c0 - 224) * 4096 + (byte c1 - 128) * 64 + (byte c2 - 128)" "w = 3"
    | c1 c2 c3 s4 where "s1 = c1 # c2 # c3 # s4" "240 \<le> byte c0" "byte c0 \<le> 244" "second_ok (byte c0) c1" "tail_byte c2" "tail_byte c3"
        "n = (byte c0 - 240) * 262144 + (byte c1 - 128) * 4096 + (byte c2 - 128) * 64 + (byte c3 - 128)" "w = 4"
    using assms by (auto simp: s decode_rune_def not_less split: if_splits list.splits)
  then show ?thesis
  proof cases
    case 1
    then show ?thesis by (simp add: s encode_rune_def char_of_byte)
  next
    case 2
    define a b where "a = byte c0 - 192" and "b = byte c1 - 128"
    have ab: "byte c0 = 192 + a" "byte c1 = 128 + b" "b < 64" "2 \<le> a" "a < 32"
      using 2 second_ok_tail [OF 2(4)] by (auto simp: a_def b_def continuation_def)
    then have "n = a * 64 + b" using 2 by simp
    then show ?thesis using ab(1-2) [THEN sym, THEN char_of_byte] ab digits64 [of b 0 0 a] 2 by (simp add: s encode_rune_def)
  next
    case 3
    define a b c where "a = byte c0 - 224" and "b = byte c1 - 128" and "c = byte c2 - 128"
    have ab: "byte c0 = 224 + a" "byte c1 = 128 + b" "byte c2 = 128 + c" "b < 64" "c < 64" "a < 16" "a = 0 \<longrightarrow> 32 \<le> b"
      using 3 second_ok_tail [OF 3(4)] by (auto simp: a_def b_def c_def continuation_def second_ok_def)
    then have n: "n = a * 4096 + b * 64 + c" using 3 by simp
    then have "2048 \<le> n" "n < 65536" using ab(4-7) by linarith+
    then have "\<not> n < 128" "\<not> n < 2048" "n < 65536" by linarith+
    moreover have "n div 4096 = a" "n div 64 mod 64 = b" "n mod 64 = c"
      unfolding n using digits64(3-5) [OF ab(4,5), of 0 a] by simp_all
    ultimately have "encode_rune n = [char_of (224 + a), char_of (128 + b), char_of (128 + c)]"
      by (simp add: encode_rune_def)
    then show ?thesis using 3(1,7) ab(1-3) [THEN sym, THEN char_of_byte] by (simp add: s)
  next
    case 4
    define a b c d where "a = byte c0 - 240" and "b = byte c1 - 128" and "c = byte c2 - 128" and "d = byte c3 - 128"
    have range: "128 \<le> byte c1" "byte c1 \<le> 191" "128 \<le> byte c2" "byte c2 \<le> 191" "128 \<le> byte c3" "byte c3 \<le> 191" "byte c0 = 240 \<longrightarrow> 144 \<le> byte c1"
      using second_ok_tail [OF 4(4)] 4(4,5,6) by (auto simp: continuation_def second_ok_def)
    have ab: "byte c0 = 240 + a" "byte c1 = 128 + b" "byte c2 = 128 + c" "byte c3 = 128 + d" "b < 64" "c < 64" "d < 64" "a = 0 \<longrightarrow> 16 \<le> b"
      unfolding a_def b_def c_def d_def using 4(2) range by linarith+
    then have n: "n = a * 262144 + b * 4096 + c * 64 + d" using 4 by simp
    then have "\<not> n < 128" "\<not> n < 2048" "\<not> n < 65536" using ab(5-8) by linarith+
    moreover have "n div 262144 = a" "n div 4096 mod 64 = b" "n div 64 mod 64 = c" "n mod 64 = d"
      unfolding n by (rule digits64(6-9) [OF ab(5-7)])+
    ultimately have "encode_rune n = [char_of (240 + a), char_of (128 + b), char_of (128 + c), char_of (128 + d)]"
      by (simp add: encode_rune_def)
    then show ?thesis using 4(1,8) ab(1-4) [THEN sym, THEN char_of_byte] by (simp add: s)
  qed
qed

lemma decode_rune_prefix:
  assumes "decode_rune s = (Some n, w)" shows "decode_rune (take w s @ t) = (Some n, w)"
proof -
  obtain c0 s1 where s: "s = c0 # s1" using assms by (cases s) (auto simp: decode_rune_def)
  show ?thesis
  proof (cases "byte c0 < 128")
    case False
    then obtain c1 s2 where s1: "s1 = c1 # s2" using assms by (auto simp: s decode_rune_def split: if_splits list.splits)
    show ?thesis
    proof (cases "byte c0 < 224")
      case True
      then show ?thesis using assms False by (auto simp: s s1 decode_rune_def split: if_splits)
    next
      case three: False
      then obtain c2 s3 where s2: "s2 = c2 # s3" using assms by (auto simp: s s1 decode_rune_def split: if_splits list.splits)
      show ?thesis
      proof (cases "byte c0 < 240")
        case True
        then show ?thesis using assms three by (auto simp: s s1 s2 decode_rune_def split: if_splits)
      next
        case False
        then obtain c3 s4 where "s3 = c3 # s4" using assms by (auto simp: s s1 s2 decode_rune_def split: if_splits list.splits)
        then show ?thesis using assms three False by (auto simp: s s1 s2 decode_rune_def split: if_splits)
      qed
    qed
  qed (use assms in \<open>auto simp: s\<close>)
qed

lemma decode_rune_high:
  assumes "decode_rune s = (Some n, w)" and "128 \<le> n" shows "list_all (\<lambda>c. 128 \<le> byte c) (take w s)"
proof -
  obtain c0 s1 where s: "s = c0 # s1" using assms by (cases s) (auto simp: decode_rune_def)
  have high: "194 \<le> byte c0" using assms by (auto simp: s decode_rune_def not_less split: if_splits)
  have tail: "tail_byte c \<Longrightarrow> 128 \<le> byte c" for c by (simp add: continuation_def)
  show ?thesis using assms(1) high second_ok_tail tail
    by (auto simp: s decode_rune_def split: if_splits list.splits)
qed

section \<open>Quoting\<close>

definition hex_digit :: "nat \<Rightarrow> char" where
  "hex_digit d = (if d < 10 then char_of (48 + d) else char_of (87 + d))"

fun hex_number :: "nat \<Rightarrow> nat \<Rightarrow> string" where
  "hex_number 0 n = []"
| "hex_number (Suc width) n = hex_number width (n div 16) @ [hex_digit (n mod 16)]"

lemma length_hex_number [simp]: "length (hex_number w n) = w"
  by (induction w arbitrary: n) simp_all

text \<open>\<open>strconv.IsPrint\<close>: exact for Latin-1, by the table beyond.\<close>

definition IsPrint :: "(nat \<Rightarrow> bool) \<Rightarrow> nat \<Rightarrow> bool" where
  "IsPrint table r = (if r \<le> 255 then (32 \<le> r \<and> r < 127) \<or> (161 \<le> r \<and> r \<noteq> 173) else table r)"

definition quote_rune :: "(nat \<Rightarrow> bool) \<Rightarrow> nat option \<times> string \<Rightarrow> string" where
  "quote_rune table rb =
     (case fst rb of
        None \<Rightarrow> [CHR 0x5C, CHR ''x''] @ concat (map (\<lambda>c. hex_number 2 (byte c)) (snd rb))
      | Some n \<Rightarrow>
          if n = 34 \<or> n = 92 then CHR 0x5C # snd rb
          else if IsPrint table n then snd rb
          else if n = 7 then [CHR 0x5C, CHR ''a'']
          else if n = 8 then [CHR 0x5C, CHR ''b'']
          else if n = 12 then [CHR 0x5C, CHR ''f'']
          else if n = 10 then [CHR 0x5C, CHR ''n'']
          else if n = 13 then [CHR 0x5C, CHR ''r'']
          else if n = 9 then [CHR 0x5C, CHR ''t'']
          else if n = 11 then [CHR 0x5C, CHR ''v'']
          else if n < 32 \<or> n = 127 then [CHR 0x5C, CHR ''x''] @ hex_number 2 n
          else if n < 65536 then [CHR 0x5C, CHR ''u''] @ hex_number 4 n
          else [CHR 0x5C, CHR ''U''] @ hex_number 8 n)"

definition Quote :: "(nat \<Rightarrow> bool) \<Rightarrow> string \<Rightarrow> string" where
  "Quote table s = CHR 0x22 # concat (map (quote_rune table) (runes s)) @ [CHR 0x22]"

section \<open>The text of an error\<close>

fun join_lines :: "string list \<Rightarrow> string" where
  "join_lines [] = []"
| "join_lines [l] = l"
| "join_lines (l # ls) = l @ newline # join_lines ls"

primrec Error :: "(nat \<Rightarrow> bool) \<Rightarrow> go_error \<Rightarrow> string" where
  "Error table DeadlineExceeded = ''context deadline exceeded''"
| "Error table Canceled = ''context canceled''"
| "Error table RedisNil = ''redis: nil''"
| "Error table ErrNoRows = ''sql: no rows in result set''"
| "Error table (External s) = s"
| "Error table (Errorf ps) =
     concat (map (\<lambda>p. case p of Lit s \<Rightarrow> s | Quoted s \<Rightarrow> Quote table s | Num i \<Rightarrow> itoa i | Wrapped t \<Rightarrow> t)
       (map (map_piece (Error table)) ps))"
| "Error table (Joined es) = join_lines (map (Error table) es)"

text \<open>Quoting keeps what was quoted apart from what stands around it: no bare quote inside.\<close>

lemma Error_example:
  "Error (\<lambda>_. False) (Errorf [Lit ''failed to pull image '', Quoted ''a\<newline>b'', Lit '': '', Wrapped (External ''no'')]) =
     ''failed to pull image '' @ CHR 0x22 # ''a'' @ [CHR 0x5C, CHR ''n''] @ ''b'' @ CHR 0x22 # '': no''"
  by code_simp

end
