(* ===== verification/Orchestrator.thy ===== *)
theory Orchestrator
  imports Goroutines RunnerContract Config Unicode
begin

text \<open>
  The orchestrator (\<open>internal/orchestrator/orchestrator.go\<close>): stages run one after the
  other, the jobs of a stage run concurrently, and lifecycle events are emitted to the sink
  when there is one. The runner is a parameter: any provider of \<open>runner_contract\<close>. An
  observation is labelled with the index of the job's goroutine that made the call, or with
  nothing for the calls of the orchestrating goroutine.
\<close>

type_synonym lobs = "nat option \<times> obs"

definition by_main :: "obs list \<Rightarrow> lobs list" where
  "by_main tr = map (\<lambda>ob. (None, ob)) tr"

definition by_jobs :: "(nat \<times> obs) list \<Rightarrow> lobs list" where
  "by_jobs tr = map (\<lambda>(i, ob). (Some i, ob)) tr"

section \<open>The operations\<close>

text \<open>\<open>sink\<close> tells whether the event sink is there; a failed emission is only logged.\<close>

definition emit :: "bool \<Rightarrow> ctx \<Rightarrow> go_event \<Rightarrow> unit proc" where
  "emit sink ctx event =
     (if \<not> sink then Return () else pbind (callE (Publish ctx event)) (\<lambda>err. Return ()))"

definition stepSink :: "bool \<Rightarrow> string \<Rightarrow> string \<Rightarrow> step_sink" where
  "stepSink sink pipelineName runID = (if \<not> sink then NilSink else StampedSink pipelineName runID)"

definition hex :: "string \<Rightarrow> string" where
  "hex bytes = concat (map (\<lambda>c. [hex_digit (of_char c div 16), hex_digit (of_char c mod 16)]) bytes)"

definition unixNano :: "gotime \<Rightarrow> int" where
  "unixNano t = sint (word_of_int t :: goint)"

definition newRunID :: "string proc" where
  "newRunID =
     pbind (callS (RandRead 4)) (\<lambda>r. case r of
       Inl err \<Rightarrow> pbind now (\<lambda>t. Return (''run-'' @ itoa (unixNano t)))
     | Inr b \<Rightarrow> pbind now (\<lambda>t. Return (''run-'' @ itoa (unixNano t) @ ''-'' @ hex b)))"

definition lifecycleEvent :: "string \<Rightarrow> gotime \<Rightarrow> string \<Rightarrow> string \<Rightarrow> string \<Rightarrow> string gomap \<Rightarrow> go_event" where
  "lifecycleEvent type t runID pipeline job payload =
     \<lparr>ev_Type = type, ev_OccurredAt = t, ev_RunID = runID, ev_Pipeline = pipeline, ev_Job = job,
      ev_Step = [], ev_Payload = payload\<rparr>"

text \<open>The body of a job's goroutine in \<open>runStage\<close>; the context is the group's.\<close>

definition runJob :: "runner \<Rightarrow> bool \<Rightarrow> ctx \<Rightarrow> string \<Rightarrow> string \<Rightarrow> string \<Rightarrow> string \<Rightarrow> go_job \<Rightarrow> job_result proc" where
  "runJob run_job sink jobCtx stageName pipelineName runID projectPath job =
     pbind now (\<lambda>t.
     pbind (emit sink jobCtx (lifecycleEvent EventJobStarted t runID pipelineName (job_Name job) [(''stage'', stageName)])) (\<lambda>_.
     pbind (run_job jobCtx job projectPath (stepSink sink pipelineName runID)) (\<lambda>(jobResult, err).
     pbind now (\<lambda>t'.
     pbind (emit sink (WithoutCancel jobCtx)
       (lifecycleEvent EventJobFinished t' runID pipelineName (job_Name job)
         [(''status'', status_String (jobStatus jobResult))])) (\<lambda>_.
     Return jobResult)))))"

definition stageJobs :: "runner \<Rightarrow> bool \<Rightarrow> ctx \<Rightarrow> go_stage \<Rightarrow> string \<Rightarrow> string \<Rightarrow> string \<Rightarrow> job_result proc list" where
  "stageJobs run_job sink ctx stage pipelineName runID projectPath =
     map (runJob run_job sink (GroupCtx ctx) (stage_Name stage) pipelineName runID projectPath) (stage_Jobs stage)"

text \<open>
  \<open>runStage\<close>: every interleaving of the jobs' calls; \<open>jobResults[i]\<close> is the result of
  job \<open>i\<close>. The wait returns when all jobs have.
\<close>

inductive runStage :: "runner \<Rightarrow> bool \<Rightarrow> ctx \<Rightarrow> go_stage \<Rightarrow> string \<Rightarrow> string \<Rightarrow> string \<Rightarrow> lobs list \<Rightarrow> stage_result \<Rightarrow> bool"
  for run_job sink ctx stage pipelineName runID projectPath where
  "par_run (stageJobs run_job sink ctx stage pipelineName runID projectPath) tr jobResults \<Longrightarrow>
     runStage run_job sink ctx stage pipelineName runID projectPath
       (by_main [ObsT start] @ by_jobs tr @ by_main [ObsT stop])
       \<lparr>gr_StageName = stage_Name stage, gr_JobResults = jobResults, gr_Duration = time_sub stop start\<rparr>"

text \<open>The loop of \<open>Run\<close>: a Failed or Errored stage ends it.\<close>

definition fails_run :: "stage_result \<Rightarrow> bool" where
  "fails_run r \<longleftrightarrow> stageStatus r = StatusFailed \<or> stageStatus r = StatusErrored"

inductive runStages :: "runner \<Rightarrow> bool \<Rightarrow> ctx \<Rightarrow> string \<Rightarrow> string \<Rightarrow> string \<Rightarrow> go_stage list \<Rightarrow> lobs list \<Rightarrow> stage_result list \<Rightarrow> bool"
  for run_job sink ctx pipelineName runID projectPath where
  stages_done: "runStages run_job sink ctx pipelineName runID projectPath [] [] []"
| stages_break: "runStage run_job sink ctx stage pipelineName runID projectPath tr r \<Longrightarrow> fails_run r \<Longrightarrow>
    runStages run_job sink ctx pipelineName runID projectPath (stage # stages) tr [r]"
| stages_next: "runStage run_job sink ctx stage pipelineName runID projectPath tr r \<Longrightarrow> \<not> fails_run r \<Longrightarrow>
    runStages run_job sink ctx pipelineName runID projectPath stages tr' rs \<Longrightarrow>
    runStages run_job sink ctx pipelineName runID projectPath (stage # stages) (tr @ tr') (r # rs)"

definition runStart :: "bool \<Rightarrow> ctx \<Rightarrow> go_pipeline \<Rightarrow> (string \<times> gotime) proc" where
  "runStart sink ctx pipeline =
     pbind newRunID (\<lambda>runID.
     pbind now (\<lambda>t.
     pbind (emit sink ctx (lifecycleEvent EventPipelineStarted t runID (pipeline_Name pipeline) [] [])) (\<lambda>_.
     pbind now (\<lambda>start. Return (runID, start)))))"

definition runFinish :: "bool \<Rightarrow> ctx \<Rightarrow> go_pipeline \<Rightarrow> string \<Rightarrow> gotime \<Rightarrow> stage_result list \<Rightarrow> pipeline_result proc" where
  "runFinish sink ctx pipeline runID start stageResults =
     pbind now (\<lambda>stop.
     let result = \<lparr>pr_RunID = runID, pr_Duration = time_sub stop start, pr_PipelineName = pipeline_Name pipeline,
                   pr_StageResults = stageResults\<rparr>
     in pbind now (\<lambda>t.
        pbind (emit sink (WithoutCancel ctx)
          (lifecycleEvent EventPipelineFinished t runID (pipeline_Name pipeline) []
            [(''status'', status_String (pipelineStatus result))])) (\<lambda>_.
        Return result)))"

inductive Run :: "runner \<Rightarrow> bool \<Rightarrow> ctx \<Rightarrow> go_pipeline \<Rightarrow> string \<Rightarrow> lobs list \<Rightarrow> pipeline_result \<Rightarrow> bool"
  for run_job sink ctx pipeline projectPath where
  "replay (runStart sink ctx pipeline) tr1 = Some (runID, start) \<Longrightarrow>
   runStages run_job sink ctx (pipeline_Name pipeline) runID projectPath (pipeline_Stages pipeline) tr2 stageResults \<Longrightarrow>
   replay (runFinish sink ctx pipeline runID start stageResults) tr3 = Some result \<Longrightarrow>
   Run run_job sink ctx pipeline projectPath (by_main tr1 @ tr2 @ by_main tr3) result"

inductive_cases RunE: "Run run_job sink ctx pipeline projectPath tr result"
inductive_cases runStageE: "runStage run_job sink ctx stage pipelineName runID projectPath tr r"

section \<open>The stage loop\<close>

lemma runStage_name: "runStage rj sink ctx stage pn rid path tr r \<Longrightarrow> gr_StageName r = stage_Name stage"
  by (auto elim: runStageE)

text \<open>Each result of the loop comes from its stage; all but the last did not end the run.\<close>

lemma runStages_shape:
  "runStages rj sink ctx pn rid path stages tr rs \<Longrightarrow>
     length rs \<le> length stages \<and>
     (\<forall>i < length rs. \<exists>tr'. runStage rj sink ctx (stages ! i) pn rid path tr' (rs ! i)) \<and>
     (\<forall>r \<in> set (butlast rs). \<not> fails_run r) \<and>
     (if length rs = length stages then True else rs \<noteq> [] \<and> fails_run (last rs))"
proof (induction rule: runStages.induct)
  case (stages_break stage tr r stages)
  then show ?case by auto
next
  case (stages_next stage tr r stages tr' rs)
  have "\<exists>tr'. runStage rj sink ctx ((stage # stages) ! i) pn rid path tr' ((r # rs) ! i)" if "i < length (r # rs)" for i
    using that stages_next by (cases i) auto
  then show ?case using stages_next by auto
qed simp

lemma runFinish_result:
  "replay (runFinish sink ctx pipeline rid start rs) tr = Some res \<Longrightarrow>
     pr_RunID res = rid \<and> pr_PipelineName res = pipeline_Name pipeline \<and> pr_StageResults res = rs"
proof -
  have "spec (runFinish sink ctx pipeline rid start rs) (\<lambda>_ res.
      pr_RunID res = rid \<and> pr_PipelineName res = pipeline_Name pipeline \<and> pr_StageResults res = rs)"
    by (simp add: runFinish_def Let_def emit_def)
  then show "replay (runFinish sink ctx pipeline rid start rs) tr = Some res \<Longrightarrow> ?thesis" by (rule specD)
qed

lemma runJob_run:
  assumes "replay (runJob rj sink c sn pn rid path job) tr = Some jr"
  shows "\<exists>tr' err. replay (rj c job path (stepSink sink pn rid)) tr' = Some (jr, err)"
proof -
  have "spec (runJob rj sink c sn pn rid path job)
      (\<lambda>tr jr. \<exists>tr' err. replay (rj c job path (stepSink sink pn rid)) tr' = Some (jr, err))"
    unfolding runJob_def
    by (simp add: emit_def, intro conjI impI allI; rule specI; clarsimp; blast)
  then show ?thesis using assms by (rule specD)
qed

lemma runStage_jobs:
  assumes "runStage rj sink ctx stage pn rid path tr r"
  shows "length (gr_JobResults r) = length (stage_Jobs stage) \<and>
    (\<forall>i < length (stage_Jobs stage). \<exists>tr err.
       replay (rj (GroupCtx ctx) (stage_Jobs stage ! i) path (stepSink sink pn rid)) tr = Some (gr_JobResults r ! i, err))"
  using assms
proof (cases rule: runStage.cases)
  case (1 ptr jrs start stop)
  note par = par_run_own [OF 1(3), unfolded stageJobs_def length_map]
  have "\<exists>tr err. replay (rj (GroupCtx ctx) (stage_Jobs stage ! i) path (stepSink sink pn rid)) tr = Some (jrs ! i, err)"
    if "i < length (stage_Jobs stage)" for i
  proof -
    have "replay (runJob rj sink (GroupCtx ctx) (stage_Name stage) pn rid path (stage_Jobs stage ! i)) (own i ptr) = Some (jrs ! i)"
      using par that by simp
    then show ?thesis by (rule runJob_run)
  qed
  then show ?thesis using par 1 by simp
qed

section \<open>Executing a run\<close>

text \<open>A run in a given environment, with a scheduler that picks the job to go on at each step.\<close>

definition stageResult :: "go_stage \<Rightarrow> job_result list \<Rightarrow> gotime \<Rightarrow> gotime \<Rightarrow> stage_result" where
  "stageResult stage jobResults start stop =
     \<lparr>gr_StageName = stage_Name stage, gr_JobResults = jobResults, gr_Duration = time_sub stop start\<rparr>"

definition runStage_exec :: "'w env \<Rightarrow> ('w \<Rightarrow> nat) \<Rightarrow> runner \<Rightarrow> bool \<Rightarrow> ctx \<Rightarrow> go_stage \<Rightarrow> string \<Rightarrow> string \<Rightarrow> string \<Rightarrow>
    'w \<Rightarrow> lobs list \<times> stage_result \<times> 'w" where
  "runStage_exec h pick run_job sink ctx stage pipelineName runID projectPath w =
     (let (start, w1) = ansT h w;
          (tr, jobResults, w2) = par_exec h pick w1 (stageJobs run_job sink ctx stage pipelineName runID projectPath);
          (stop, w3) = ansT h w2
      in (by_main [ObsT start] @ by_jobs tr @ by_main [ObsT stop], stageResult stage jobResults start stop, w3))"

fun runStages_exec :: "'w env \<Rightarrow> ('w \<Rightarrow> nat) \<Rightarrow> runner \<Rightarrow> bool \<Rightarrow> ctx \<Rightarrow> string \<Rightarrow> string \<Rightarrow> string \<Rightarrow> go_stage list \<Rightarrow>
    'w \<Rightarrow> lobs list \<times> stage_result list \<times> 'w" where
  "runStages_exec h pick run_job sink ctx pipelineName runID projectPath [] w = ([], [], w)"
| "runStages_exec h pick run_job sink ctx pipelineName runID projectPath (stage # stages) w =
     (let (tr, r, w1) = runStage_exec h pick run_job sink ctx stage pipelineName runID projectPath w
      in if fails_run r then (tr, [r], w1)
         else let (tr', rs, w2) = runStages_exec h pick run_job sink ctx pipelineName runID projectPath stages w1
              in (tr @ tr', r # rs, w2))"

definition Run_exec :: "'w env \<Rightarrow> ('w \<Rightarrow> nat) \<Rightarrow> runner \<Rightarrow> bool \<Rightarrow> ctx \<Rightarrow> go_pipeline \<Rightarrow> string \<Rightarrow>
    'w \<Rightarrow> lobs list \<times> pipeline_result \<times> 'w" where
  "Run_exec h pick run_job sink ctx pipeline projectPath w =
     (let (tr1, (runID, start), w1) = run h w (runStart sink ctx pipeline);
          (tr2, stageResults, w2) =
            runStages_exec h pick run_job sink ctx (pipeline_Name pipeline) runID projectPath (pipeline_Stages pipeline) w1;
          (tr3, result, w3) = run h w2 (runFinish sink ctx pipeline runID start stageResults)
      in (by_main tr1 @ tr2 @ by_main tr3, result, w3))"

lemma runStage_exec_run:
  "runStage_exec h pick rj sink ctx stage pn rid path w = (tr, r, w') \<Longrightarrow> runStage rj sink ctx stage pn rid path tr r"
  unfolding runStage_exec_def stageResult_def Let_def
  by (auto split: prod.splits intro!: runStage.intros dest: par_exec_run)

lemma runStages_exec_run:
  "runStages_exec h pick rj sink ctx pn rid path stages w = (tr, rs, w') \<Longrightarrow> runStages rj sink ctx pn rid path stages tr rs"
proof (induction stages arbitrary: w tr rs w')
  case Nil
  then show ?case by (simp add: stages_done)
next
  case (Cons stage stages)
  obtain tr1 r w1 where s: "runStage_exec h pick rj sink ctx stage pn rid path w = (tr1, r, w1)"
    by (cases "runStage_exec h pick rj sink ctx stage pn rid path w")
  note run = runStage_exec_run [OF s]
  show ?case
  proof (cases "fails_run r")
    case True
    then show ?thesis using Cons.prems s run by (auto intro: stages_break)
  next
    case False
    obtain tr2 rs2 w2 where t: "runStages_exec h pick rj sink ctx pn rid path stages w1 = (tr2, rs2, w2)"
      by (cases "runStages_exec h pick rj sink ctx pn rid path stages w1")
    then show ?thesis using Cons.prems s run False Cons.IH [OF t] by (auto intro: stages_next)
  qed
qed

lemma Run_exec_Run:
  "Run rj sink ctx p path (fst (Run_exec h pick rj sink ctx p path w)) (fst (snd (Run_exec h pick rj sink ctx p path w)))"
proof -
  obtain tr1 rid start w1 where a: "run h w (runStart sink ctx p) = (tr1, (rid, start), w1)"
    by (metis surj_pair)
  obtain tr2 rs w2 where b: "runStages_exec h pick rj sink ctx (pipeline_Name p) rid path (pipeline_Stages p) w1 = (tr2, rs, w2)"
    by (metis surj_pair)
  obtain tr3 res w3 where c: "run h w2 (runFinish sink ctx p rid start rs) = (tr3, res, w3)"
    by (metis surj_pair)
  show ?thesis
    using Run.intros [OF run_replay [OF a] runStages_exec_run [OF b] run_replay [OF c]]
    by (simp add: Run_exec_def a b c)
qed

context runner_contract
begin

text \<open>The results of a stage are those of its jobs, in the declared order, however they interleave.\<close>

lemma stage_job_names:
  assumes "runStage run_job sink ctx stage pn rid path tr r"
  shows "map jr_JobName (gr_JobResults r) = map job_Name (stage_Jobs stage)"
proof (rule nth_equalityI)
  note jobs = runStage_jobs [OF assms]
  show "length (map jr_JobName (gr_JobResults r)) = length (map job_Name (stage_Jobs stage))" using jobs by simp
  fix i assume "i < length (map jr_JobName (gr_JobResults r))"
  then show "map jr_JobName (gr_JobResults r) ! i = map job_Name (stage_Jobs stage) ! i"
    using jobs job_name by fastforce
qed

lemma stage_settled:
  assumes "runStage run_job sink ctx stage pn rid path tr r"
    and "stage_Jobs stage \<noteq> []" and "\<forall>j \<in> set (stage_Jobs stage). job_Steps j \<noteq> []"
  shows "stageStatus r \<in> {StatusPassed, StatusFailed, StatusErrored}"
proof -
  note jobs = runStage_jobs [OF assms(1)]
  have "jobStatus jr \<in> {StatusPassed, StatusFailed, StatusErrored}" if jr: "jr \<in> set (gr_JobResults r)" for jr
  proof -
    from jr obtain i where i: "i < length (gr_JobResults r)" "jr = gr_JobResults r ! i" by (metis in_set_conv_nth)
    then obtain tr err where "replay (run_job (GroupCtx ctx) (stage_Jobs stage ! i) path (stepSink sink pn rid)) tr = Some (jr, err)"
      using jobs by auto
    moreover have "job_Steps (stage_Jobs stage ! i) \<noteq> []" using assms(3) i jobs by simp
    ultimately show ?thesis by (rule job_settled)
  qed
  moreover have "gr_JobResults r \<noteq> []" using jobs assms(2) by auto
  ultimately show ?thesis
    using status_result(3) [of r] stageStatus_iff [of r] unfolding result_statuses_def by blast
qed

lemma stage_passed:
  assumes "runStage run_job sink ctx stage pn rid path tr r" and "stageStatus r = StatusPassed"
    and "i < length (stage_Jobs stage)"
  shows "map sr_StepName (jr_StepResults (gr_JobResults r ! i)) = map step_Name (job_Steps (stage_Jobs stage ! i)) \<and>
    (\<forall>s \<in> set (jr_StepResults (gr_JobResults r ! i)). sr_Err s = None \<and> sr_ExitCode s = ExitSuccess)"
proof -
  note jobs = runStage_jobs [OF assms(1)]
  then obtain tr err where
    "replay (run_job (GroupCtx ctx) (stage_Jobs stage ! i) path (stepSink sink pn rid)) tr = Some (gr_JobResults r ! i, err)"
    using assms(3) by blast
  moreover have "jobStatus (gr_JobResults r ! i) = StatusPassed"
    using assms(2,3) jobs unfolding stageStatus_iff by simp
  ultimately show ?thesis by (rule job_passed)
qed

text \<open>The stages of a run, with the names of their jobs, are a prefix of the declared ones.\<close>

lemma run_stages:
  assumes "Run run_job sink ctx p path tr res"
  obtains rid tr' where "runStages run_job sink ctx (pipeline_Name p) rid path (pipeline_Stages p) tr' (pr_StageResults res)"
  using assms by (cases rule: Run.cases) (use runFinish_result in blast)

lemma run_shape:
  assumes "Run run_job sink ctx p path tr res"
  shows "map (\<lambda>g. (gr_StageName g, map jr_JobName (gr_JobResults g))) (pr_StageResults res) =
      take (length (pr_StageResults res)) (map (\<lambda>g. (stage_Name g, map job_Name (stage_Jobs g))) (pipeline_Stages p)) \<and>
    (\<forall>g \<in> set (butlast (pr_StageResults res)). \<not> fails_run g) \<and>
    (length (pr_StageResults res) < length (pipeline_Stages p) \<longrightarrow> pr_StageResults res \<noteq> [] \<and>
      fails_run (last (pr_StageResults res)))"
proof -
  obtain rid tr' where "runStages run_job sink ctx (pipeline_Name p) rid path (pipeline_Stages p) tr' (pr_StageResults res)"
    using run_stages [OF assms] .
  note shape = runStages_shape [OF this]
  have "map (\<lambda>g. (gr_StageName g, map jr_JobName (gr_JobResults g))) (pr_StageResults res) =
      take (length (pr_StageResults res)) (map (\<lambda>g. (stage_Name g, map job_Name (stage_Jobs g))) (pipeline_Stages p))"
  proof (rule nth_equalityI)
    fix i assume "i < length (map (\<lambda>g. (gr_StageName g, map jr_JobName (gr_JobResults g))) (pr_StageResults res))"
    then have i: "i < length (pr_StageResults res)" by simp
    with shape obtain tr1 where
      "runStage run_job sink ctx (pipeline_Stages p ! i) (pipeline_Name p) rid path tr1 (pr_StageResults res ! i)" by blast
    then show "map (\<lambda>g. (gr_StageName g, map jr_JobName (gr_JobResults g))) (pr_StageResults res) ! i =
      take (length (pr_StageResults res)) (map (\<lambda>g. (stage_Name g, map job_Name (stage_Jobs g))) (pipeline_Stages p)) ! i"
      using i shape stage_job_names runStage_name by fastforce
  qed (use shape in simp)
  then show ?thesis using shape by (auto split: if_splits)
qed

lemma settled_run:
  assumes "pipeline_ok p" and "Run run_job sink ctx p path tr res"
  shows "pipelineStatus res \<in> {StatusPassed, StatusFailed, StatusErrored} \<and>
    (\<forall>g \<in> set (pr_StageResults res). stageStatus g \<in> {StatusPassed, StatusFailed, StatusErrored})"
proof -
  obtain rid tr' where "runStages run_job sink ctx (pipeline_Name p) rid path (pipeline_Stages p) tr' (pr_StageResults res)"
    using run_stages [OF assms(2)] .
  note shape = runStages_shape [OF this]
  have all: "stageStatus g \<in> {StatusPassed, StatusFailed, StatusErrored}" if g: "g \<in> set (pr_StageResults res)" for g
  proof -
    from g obtain i where i: "i < length (pr_StageResults res)" "g = pr_StageResults res ! i" by (metis in_set_conv_nth)
    with shape obtain tr1 where run:
      "runStage run_job sink ctx (pipeline_Stages p ! i) (pipeline_Name p) rid path tr1 g" by blast
    have "pipeline_Stages p ! i \<in> set (pipeline_Stages p)" using i shape by simp
    then show ?thesis using stage_settled [OF run] assms(1) by (simp add: pipeline_ok_def)
  qed
  moreover have "pr_StageResults res \<noteq> []"
    using shape assms(1) by (auto simp: pipeline_ok_def split: if_splits)
  ultimately show ?thesis
    using status_result(4) [of res] pipelineStatus_iff [of res] unfolding result_statuses_def by blast
qed

lemma passed_run:
  assumes "Run run_job sink ctx p path tr res" and "pipelineStatus res = StatusPassed"
  shows "map (\<lambda>g. (gr_StageName g, map (\<lambda>j. (jr_JobName j, map sr_StepName (jr_StepResults j))) (gr_JobResults g)))
      (pr_StageResults res) =
    map (\<lambda>g. (stage_Name g, map (\<lambda>j. (job_Name j, map step_Name (job_Steps j))) (stage_Jobs g))) (pipeline_Stages p) \<and>
    (\<forall>g \<in> set (pr_StageResults res). \<forall>j \<in> set (gr_JobResults g). \<forall>s \<in> set (jr_StepResults j).
       sr_Err s = None \<and> sr_ExitCode s = ExitSuccess)"
proof (intro conjI nth_equalityI ballI)
  obtain rid tr' where "runStages run_job sink ctx (pipeline_Name p) rid path (pipeline_Stages p) tr' (pr_StageResults res)"
    using run_stages [OF assms(1)] .
  note shape = runStages_shape [OF this]
  have passed: "stageStatus g = StatusPassed" if "g \<in> set (pr_StageResults res)" for g
    using assms(2) that by (simp add: pipelineStatus_iff)
  have len: "length (pr_StageResults res) = length (pipeline_Stages p)"
  proof (rule ccontr)
    assume "\<not> ?thesis"
    with shape have "pr_StageResults res \<noteq> []" "fails_run (last (pr_StageResults res))" by (auto split: if_splits)
    then show False using passed [OF last_in_set] by (simp add: fails_run_def)
  qed
  then show "length (map (\<lambda>g. (gr_StageName g, map (\<lambda>j. (jr_JobName j, map sr_StepName (jr_StepResults j))) (gr_JobResults g)))
      (pr_StageResults res)) = length (map (\<lambda>g. (stage_Name g, map (\<lambda>j. (job_Name j, map step_Name (job_Steps j))) (stage_Jobs g)))
      (pipeline_Stages p))" by simp
  fix i assume "i < length (map (\<lambda>g. (gr_StageName g, map (\<lambda>j. (jr_JobName j, map sr_StepName (jr_StepResults j))) (gr_JobResults g)))
      (pr_StageResults res))"
  then have i: "i < length (pr_StageResults res)" by simp
  let ?g = "pr_StageResults res ! i" and ?d = "pipeline_Stages p ! i"
  from i shape obtain tr1 where run: "runStage run_job sink ctx ?d (pipeline_Name p) rid path tr1 ?g" by blast
  note jobs = runStage_jobs [OF run] and names = stage_job_names [OF run] and name = runStage_name [OF run]
    and steps = stage_passed [OF run passed [OF nth_mem [OF i]]]
  have "map (\<lambda>j. (jr_JobName j, map sr_StepName (jr_StepResults j))) (gr_JobResults ?g) =
      map (\<lambda>j. (job_Name j, map step_Name (job_Steps j))) (stage_Jobs ?d)"
  proof (rule nth_equalityI)
    fix k assume "k < length (map (\<lambda>j. (jr_JobName j, map sr_StepName (jr_StepResults j))) (gr_JobResults ?g))"
    then have k: "k < length (stage_Jobs ?d)" "k < length (gr_JobResults ?g)" using jobs by simp_all
    have "jr_JobName (gr_JobResults ?g ! k) = job_Name (stage_Jobs ?d ! k)"
      using names k by (metis nth_map)
    then show "map (\<lambda>j. (jr_JobName j, map sr_StepName (jr_StepResults j))) (gr_JobResults ?g) ! k =
      map (\<lambda>j. (job_Name j, map step_Name (job_Steps j))) (stage_Jobs ?d) ! k"
      using k steps [OF k(1)] by simp
  qed (use jobs in simp)
  then show "map (\<lambda>g. (gr_StageName g, map (\<lambda>j. (jr_JobName j, map sr_StepName (jr_StepResults j))) (gr_JobResults g)))
      (pr_StageResults res) ! i =
    map (\<lambda>g. (stage_Name g, map (\<lambda>j. (job_Name j, map step_Name (job_Steps j))) (stage_Jobs g))) (pipeline_Stages p) ! i"
    using i len name by simp
next
  fix g j s assume "g \<in> set (pr_StageResults res)" "j \<in> set (gr_JobResults g)" "s \<in> set (jr_StepResults j)"
  then show "sr_Err s = None" "sr_ExitCode s = ExitSuccess"
    using assms(2) by (simp_all add: pipelineStatus_iff stageStatus_iff jobStatus_passed_iff)
qed

end

end
