(* ===== verification/RunnerSafety.thy ===== *)
theory RunnerSafety
  imports Runner Orchestrator
begin

text \<open>
  What the Docker runner guarantees in every behaviour of \<^const>\<open>DockerRunner_Run\<close>: the
  life cycle of the job's container as a typestate of the trace, the shape of the job
  result and its error, and the step events that were published.
\<close>

section \<open>The life cycle of a container\<close>

datatype phase = NoContainer | Created string | Mounted string | Running string | Removed

text \<open>
  The calls that a phase allows, and the phase after them. A container is created at most
  once, filled and started in this order, executes commands only while running, and is
  removed once, after which nothing touches a container.
\<close>

fun docker_step :: "phase \<Rightarrow> obs \<Rightarrow> phase option" where
  "docker_step ph (ObsS (ContainerCreate c opts) r) =
     (if ph = NoContainer then Some (case r of Inl e \<Rightarrow> NoContainer | Inr cid \<Rightarrow> Created cid) else None)"
| "docker_step ph (ObsE (CopyToContainer c cid dest bytes) e) =
     (if ph = Created cid then Some (if e = None then Mounted cid else Created cid) else None)"
| "docker_step ph (ObsE (ContainerStart c cid) e) =
     (if ph = Mounted cid then Some (if e = None then Running cid else Mounted cid) else None)"
| "docker_step ph (ObsS (ExecCreate c cid opts) r) = (if ph = Running cid then Some ph else None)"
| "docker_step ph (ObsE (ContainerRemove c cid vols force) e) =
     (if ph \<in> {Created cid, Mounted cid, Running cid} then Some Removed else None)"
| "docker_step ph _ = Some ph"

fun docker_run :: "phase \<Rightarrow> obs list \<Rightarrow> phase option" where
  "docker_run ph [] = Some ph"
| "docker_run ph (ob # tr) = (case docker_step ph ob of None \<Rightarrow> None | Some ph' \<Rightarrow> docker_run ph' tr)"

lemma docker_run_append [simp]:
  "docker_run ph (tr @ tr') = (case docker_run ph tr of None \<Rightarrow> None | Some ph' \<Rightarrow> docker_run ph' tr')"
  by (induction tr arbitrary: ph) (auto split: option.splits)

section \<open>The parts of a run\<close>

lemmas split_rules = option.splits sum.splits prod.splits if_splits

text \<open>Executing a command keeps the container running, publishes nothing, and reports no exit code on a fault.\<close>

definition exec_post :: "string \<Rightarrow> obs list \<Rightarrow> goint \<times> string \<times> string \<times> go_error option \<Rightarrow> bool" where
  "exec_post cid tr res \<longleftrightarrow> docker_run (Running cid) tr = Some (Running cid) \<and> announced tr = [] \<and>
     (case res of (code, out, err, e) \<Rightarrow> e \<noteq> None \<longrightarrow> code = ExitNone \<and> out = [] \<and> err = [])"

lemma execCommand_post: "spec (execCommand ctx cid command env) (exec_post cid)"
  by (simp add: execCommand_def exec_post_def split: split_rules)

definition quiet_post :: "string \<Rightarrow> obs list \<Rightarrow> 'a \<Rightarrow> bool" where
  "quiet_post cid tr res \<longleftrightarrow> docker_run (Running cid) tr = Some (Running cid) \<and> announced tr = []"

lemma readExportedEnv_post: "spec (readExportedEnv ctx cid) (quiet_post cid)"
  unfolding readExportedEnv_def
  by (rule spec_pbindI [OF execCommand_post]) (auto simp: exec_post_def quiet_post_def split: split_rules)

lemma runSetupCommands_post: "spec (runSetupCommands ctx cid cmds) (quiet_post cid)"
proof (induction cmds)
  case Nil
  then show ?case by (simp add: quiet_post_def)
next
  case (Cons c cmds)
  show ?case unfolding runSetupCommands.simps
    by (rule spec_pbindI [OF execCommand_post])
      (auto simp: exec_post_def quiet_post_def split: split_rules intro!: spec_mono [OF Cons.IH])
qed

lemma runSetup_post: "spec (runSetup ctx cid cmds) (quiet_post cid)"
  unfolding runSetup_def
  by (rule spec_pbindI [OF runSetupCommands_post])
    (auto simp: quiet_post_def exec_post_def split: split_rules intro!: spec_mono [OF execCommand_post])

lemma emitStep_post:
  "spec (emitStep ctx ev e) (\<lambda>tr _. (\<forall>ph. docker_run ph tr = Some ph) \<and> announced tr = stamped ev (untimed e))"
  by (cases ev) (simp_all add: emitStep_def stampedSink_Publish_def untimed_def)

lemma emitFinished_post:
  "spec (emitFinished ctx ev j r)
     (\<lambda>tr _. (\<forall>ph. docker_run ph tr = Some ph) \<and> announced tr = stamped ev (stepFinishedEvent j r 0))"
  unfolding emitFinished_def by (simp, intro allI, rule spec_mono [OF emitStep_post]) auto

section \<open>One step\<close>

text \<open>
  How a step can end: with one result and no error; or with an error, whose last result is
  a fault or a failure. Two results arise only when the env file cannot be read after the
  step ran.
\<close>

definition step_outcome :: "string \<Rightarrow> step_result list \<Rightarrow> go_error option \<Rightarrow> bool" where
  "step_outcome n rs err \<longleftrightarrow> rs \<noteq> [] \<and> length rs \<le> 2 \<and> (\<forall>r \<in> set rs. sr_StepName r = n) \<and>
     (\<forall>r \<in> set (butlast rs). sr_Err r = None) \<and>
     (case err of None \<Rightarrow> length rs = 1 \<and> sr_Err (last rs) = None
      | Some e \<Rightarrow> stepStatus (last rs) \<in> {StatusErrored, StatusFailed})"

definition step_post :: "string \<Rightarrow> string \<Rightarrow> step_sink \<Rightarrow> string \<Rightarrow> obs list \<Rightarrow> step_result list \<times> go_error option \<Rightarrow> bool" where
  "step_post cid j ev n tr res \<longleftrightarrow> docker_run (Running cid) tr = Some (Running cid) \<and>
     step_outcome n (fst res) (snd res) \<and> announced tr = group_events ev j (n, fst res)"

lemma envReadFault_post:
  assumes "\<forall>r \<in> set results. sr_StepName r = n \<and> sr_Err r = None" and "length results \<le> 1"
  shows "spec (envReadFault ctx ev j n start when results err)
    (\<lambda>tr res. docker_run (Running cid) tr = Some (Running cid) \<and>
       step_outcome n (fst res) (snd res) \<and>
       (\<exists>r. fst res = results @ [r] \<and> announced tr = stamped ev (stepFinishedEvent j r 0)))"
  unfolding envReadFault_def Let_def
  by (simp, intro allI, rule spec_mono [OF emitFinished_post])
    (use assms in \<open>auto simp: step_outcome_def stepStatus_def\<close>)

lemma settleStep_post:
  assumes "sr_StepName res = step_Name step" and "sr_Err res = None"
  shows "spec (settleStep ctx cid j ev step start res runErr)
    (\<lambda>tr out. docker_run (Running cid) tr = Some (Running cid) \<and>
       step_outcome (step_Name step) (fst out) (snd out) \<and>
       announced tr = concat (map (\<lambda>r. stamped ev (stepFinishedEvent j r 0)) (fst out)))"
proof (cases runErr)
  case None
  have res: "\<forall>r \<in> set [res]. sr_StepName r = step_Name step \<and> sr_Err r = None" using assms by simp
  show ?thesis unfolding settleStep_def None option.case
  proof (rule spec_pbindI [OF emitFinished_post], rule spec_pbindI [OF readExportedEnv_post], goal_cases)
    case (1 tr1 u tr2 a)
    show ?case
    proof (cases a)
      case (Inl err)
      show ?thesis unfolding Inl sum.case
        by (rule spec_mono [OF envReadFault_post [OF res, where cid = cid]])
          (use 1 in \<open>auto simp: quiet_post_def\<close>)
    next
      case (Inr m)
      then show ?thesis using 1 assms by (simp add: quiet_post_def step_outcome_def)
    qed
  qed
next
  case (Some e)
  show ?thesis unfolding settleStep_def Some option.case Let_def
    by (auto simp: assms step_outcome_def stepStatus_def exit_defs split: option.split
        intro!: spec_mono [OF emitFinished_post])
qed

lemma runStep_post: "spec (runStep ctx cid j ev step) (step_post cid j ev (step_Name step))"
  unfolding runStep_def
proof (simp, intro allI, rule spec_mono [OF emitStep_post], rule spec_mono [OF readExportedEnv_post], goal_cases)
  case (1 start t0 tr1 u tr2 a)
  note outer = 1
  show ?case
  proof (cases a)
    case (Inl err)
    show ?thesis unfolding Inl sum.case
      by (rule spec_mono [OF envReadFault_post [where cid = cid]])
        (use 1 in \<open>auto simp: quiet_post_def step_post_def group_events_def\<close>)
  next
    case (Inr m)
    show ?thesis unfolding Inr sum.case
    proof (rule spec_pbindI [OF execCommand_post], goal_cases)
      case (1 tr3 res)
      obtain code out err e where res: "res = (code, out, err, e)" by (cases res)
      show ?case unfolding res prod.case
        by (simp, intro allI, rule spec_mono [OF settleStep_post])
          (use outer 1 in \<open>auto simp: quiet_post_def exec_post_def step_post_def group_events_def\<close>)
    qed
  qed
qed

section \<open>All steps\<close>

text \<open>
  The steps that were run, each with the results it appended: all of them when there is no
  error, else those up to the one that returned the error. A step whose process exits
  non-zero is not an error, and the steps after it still run.
\<close>

fun groups_ok :: "(string \<times> step_result list) list \<Rightarrow> go_error option \<Rightarrow> string list \<Rightarrow> bool" where
  "groups_ok [] err ns \<longleftrightarrow> err = None \<and> ns = []"
| "groups_ok (g # gs) err [] \<longleftrightarrow> False"
| "groups_ok (g # gs) err (n # ns) \<longleftrightarrow> fst g = n \<and>
     (gs = [] \<and> err \<noteq> None \<and> step_outcome n (snd g) err \<or>
      step_outcome n (snd g) None \<and> groups_ok gs err ns)"

definition steps_post :: "string \<Rightarrow> string \<Rightarrow> step_sink \<Rightarrow> step_result list \<Rightarrow> string list \<Rightarrow> obs list \<Rightarrow>
    step_result list \<times> go_error option \<Rightarrow> bool" where
  "steps_post cid j ev acc ns tr res \<longleftrightarrow> docker_run (Running cid) tr = Some (Running cid) \<and>
     (\<exists>groups. groups_ok groups (snd res) ns \<and> fst res = acc @ concat (map snd groups) \<and>
        announced tr = concat (map (group_events ev j) groups))"

lemma runStepsFrom_post:
  "spec (runStepsFrom ctx cid j ev acc steps) (steps_post cid j ev acc (map step_Name steps))"
proof (induction steps arbitrary: acc)
  case Nil
  have "groups_ok [] None []" by simp
  then show ?case by (auto simp: steps_post_def intro!: exI [of _ "[]"])
next
  case (Cons s steps)
  show ?case unfolding runStepsFrom.simps
  proof (rule spec_pbindI [OF runStep_post], goal_cases)
    case (1 tr1 res)
    obtain rs err where res: "res = (rs, err)" by (cases res)
    note step = 1 [unfolded res step_post_def fst_conv snd_conv]
    show ?case
    proof (cases err)
      case (Some e)
      have "groups_ok [(step_Name s, rs)] (Some e) (map step_Name (s # steps))"
        using step Some by simp
      then show ?thesis using step
        by (auto simp: res Some steps_post_def intro!: exI [of _ "[(step_Name s, rs)]"])
    next
      case None
      show ?thesis unfolding res None prod.case option.case
      proof (rule spec_mono [OF Cons.IH], goal_cases)
        case (1 tr2 out)
        then obtain groups where g: "groups_ok groups (snd out) (map step_Name steps)"
          "fst out = (acc @ rs) @ concat (map snd groups)"
          "announced tr2 = concat (map (group_events ev j) groups)"
          and run: "docker_run (Running cid) tr2 = Some (Running cid)"
          by (auto simp: steps_post_def)
        have "groups_ok ((step_Name s, rs) # groups) (snd out) (map step_Name (s # steps))"
          using step None g(1) by simp
        then show ?case unfolding steps_post_def using step g run
          by (intro conjI exI [of _ "(step_Name s, rs) # groups"]) simp_all
      qed
    qed
  qed
qed

lemma runSteps_post:
  "spec (runSteps ctx cid job ev) (steps_post cid (job_Name job) ev [] (map step_Name (job_Steps job)))"
  unfolding runSteps_def by (rule runStepsFrom_post)

text \<open>What the groups say of the results.\<close>

lemma groups_names:
  "groups_ok groups None ns \<Longrightarrow>
     map sr_StepName (concat (map snd groups)) = ns \<and> (\<forall>r \<in> set (concat (map snd groups)). sr_Err r = None)"
proof (induction groups "None :: go_error option" ns rule: groups_ok.induct)
  case (3 g gs n ns)
  then obtain r where "snd g = [r]" "sr_Err r = None" "sr_StepName r = n"
    by (auto simp: step_outcome_def length_Suc_conv)
  with 3 show ?case by simp
qed simp_all

lemma groups_error_status:
  "groups_ok groups (Some e) ns \<Longrightarrow>
     \<exists>r \<in> set (concat (map snd groups)). stepStatus r \<in> {StatusErrored, StatusFailed}"
proof (induction groups "Some e" ns rule: groups_ok.induct)
  case (3 g gs n ns)
  show ?case
  proof (cases "gs = []")
    case True
    then have "stepStatus (last (snd g)) \<in> {StatusErrored, StatusFailed}" "snd g \<noteq> []"
      using 3 by (auto simp: step_outcome_def)
    then show ?thesis using True last_in_set [of "snd g"] by auto
  next
    case False
    then show ?thesis using 3 by auto
  qed
qed simp_all

section \<open>The whole run\<close>

lemma groups_prefix:
  "groups_ok groups err ns \<Longrightarrow> map fst groups = take (length groups) ns \<and>
     (\<forall>g \<in> set groups. snd g \<noteq> [] \<and> (\<forall>r \<in> set (snd g). sr_StepName r = fst g))"
  by (induction groups err ns rule: groups_ok.induct) (auto simp: step_outcome_def)

lemma setupFault_post:
  "result_post job (setupFault (job_Name job) e)"
  "announced tr = [] \<Longrightarrow> events_post job ev tr (fst (setupFault (job_Name job) e))"
  by (auto simp: result_post_def setupFault_def jobStatus_def events_post_def intro!: exI [of _ "[]"] exI [of _ 0])

lemma jobStatus_bad:
  "r \<in> set (jr_StepResults jr) \<Longrightarrow> stepStatus r \<in> {StatusErrored, StatusFailed} \<Longrightarrow>
     jobStatus jr \<in> {StatusErrored, StatusFailed}"
  by (auto simp: jobStatus_eq stepStatus_def split: if_splits)

lemma steps_result:
  assumes "groups_ok groups err (map step_Name (job_Steps job))"
  shows "result_post job (\<lparr>jr_JobName = job_Name job, jr_StepResults = concat (map snd groups), jr_SetupErr = None\<rparr>,
     map_option f err)"
proof (cases err)
  case None
  then show ?thesis using groups_names [of groups "map step_Name (job_Steps job)"] assms
    by (simp add: result_post_def)
next
  case (Some e)
  let ?jr = "\<lparr>jr_JobName = job_Name job, jr_StepResults = concat (map snd groups), jr_SetupErr = None\<rparr>"
  obtain r where r: "r \<in> set (jr_StepResults ?jr)" "stepStatus r \<in> {StatusErrored, StatusFailed}"
    using groups_error_status assms Some by fastforce
  have "jobStatus ?jr \<in> {StatusErrored, StatusFailed}"
    using r by (rule jobStatus_bad)
  then show ?thesis using Some by (simp add: result_post_def)
qed

lemma runInContainer_post:
  "spec (runInContainer ctx job ev cid) (\<lambda>tr res.
     (docker_run (Mounted cid) tr = Some (Mounted cid) \<or> docker_run (Mounted cid) tr = Some (Running cid)) \<and>
     job_post job ev tr res)"
  unfolding runInContainer_def
proof (simp only: spec_pbind spec_calls, intro allI, goal_cases)
  case (1 e)
  show ?case
  proof (cases e)
    case (Some err)
    then show ?thesis by (simp add: job_post_def setupFault_post)
  next
    case started: None
    show ?thesis unfolding started option.case
    proof (rule spec_pbindI [OF runSetup_post], goal_cases)
      case (1 tr1 se)
      note init = 1
      show ?case
      proof (cases se)
        case (Some err)
        then show ?thesis using init by (simp add: job_post_def setupFault_post quiet_post_def)
      next
        case None
        show ?thesis unfolding None option.case Let_def
        proof (rule spec_pbindI [OF runSteps_post], goal_cases)
          case (1 tr2 res)
          obtain rs re where res: "res = (rs, re)" by (cases res)
          from 1 res obtain groups where g: "groups_ok groups re (map step_Name (job_Steps job))"
            "rs = concat (map snd groups)" "announced tr2 = concat (map (group_events ev (job_Name job)) groups)"
            and run: "docker_run (Running cid) tr2 = Some (Running cid)"
            by (auto simp: steps_post_def)
          have "events_post job ev (ObsE (ContainerStart ctx cid) None # tr1 @ tr2)
              \<lparr>jr_JobName = job_Name job, jr_StepResults = rs, jr_SetupErr = None\<rparr>"
            using init g groups_prefix [OF g(1)] unfolding events_post_def
            by (intro exI [of _ groups] exI [of _ "length groups"]) (simp add: quiet_post_def)
          then show ?case using init run steps_result [OF g(1)]
            by (simp add: res g(2) job_post_def quiet_post_def)
        qed
      qed
    qed
  qed
qed

lemma createContainer_post:
  "spec (createContainer ctx job path) (\<lambda>tr res. announced tr = [] \<and>
     (case res of Inr cid \<Rightarrow> docker_run NoContainer tr = Some (Mounted cid)
      | Inl e \<Rightarrow> docker_run NoContainer tr \<in> {Some NoContainer, Some Removed}))"
  unfolding createContainer_def mountArchive_def removeContainer_def
  by (simp split: split_rules) blast

lemma pullImage_post: "spec (pullImage ctx img) (\<lambda>tr res. announced tr = [] \<and> docker_run NoContainer tr = Some NoContainer)"
  by (simp add: pullImage_def split: split_rules)

lemma DockerRunner_Run_post:
  "spec (DockerRunner_Run ctx job path ev) (\<lambda>tr res.
     docker_run NoContainer tr \<in> {Some NoContainer, Some Removed} \<and> job_post job ev tr res)"
  unfolding DockerRunner_Run_def
proof (rule spec_pbindI [OF pullImage_post], goal_cases)
  case (1 tr1 pe)
  note pull = 1
  show ?case
  proof (cases pe)
    case (Some e)
    then show ?thesis using pull by (simp add: job_post_def setupFault_post)
  next
    case None
    show ?thesis unfolding None option.case
    proof (rule spec_pbindI [OF createContainer_post], goal_cases)
      case (1 tr2 cr)
      note create = 1
      show ?case
      proof (cases cr)
        case (Inl e)
        then show ?thesis using pull create by (auto simp: job_post_def setupFault_post)
      next
        case (Inr cid)
        show ?thesis unfolding Inr sum.case
        proof (rule spec_pbindI [OF runInContainer_post], goal_cases)
          case (1 tr3 res)
          then show ?case using pull create Inr
            by (auto simp: removeContainer_def job_post_def events_post_def)
        qed
      qed
    qed
  qed
qed

text \<open>The Docker runner provides the runner contract, so what the orchestrator proves of its runner holds of it.\<close>

interpretation docker: runner_contract DockerRunner_Run
  by unfold_locales (rule spec_mono [OF DockerRunner_Run_post], simp)

section \<open>A worked example\<close>

text \<open>
  A job of two steps in an environment where everything works: the first step exits with
  code 3, the second exports a variable and exits zero. It instantiates the properties.
\<close>

definition exec_obs :: "ctx \<Rightarrow> string \<Rightarrow> string list \<Rightarrow> string \<Rightarrow> string \<Rightarrow> goint \<Rightarrow> obs list" where
  "exec_obs ctx command env execID out code =
     [ObsS (ExecCreate ctx ''c1'' \<lparr>eo_Cmd = [''sh'', ''-c'', command], eo_Env = env, eo_AttachStdout = True,
        eo_AttachStderr = True\<rparr>) (Inr execID),
      ObsE (ExecAttach ctx execID) None, ObsO (StdCopy execID) (Inr (out, [])),
      ObsI (ExecInspect ctx execID) (Inr code), ObsE (CloseAttach execID) None]"

definition demo_job :: go_job where
  "demo_job = \<lparr>job_Name = ''lint'', job_Image = ''img'', job_Setup = [],
     job_Steps = [\<lparr>step_Name = ''a'', step_Run = ''x'', step_Timeout = 0\<rparr>, \<lparr>step_Name = ''b'', step_Run = ''y'', step_Timeout = 5\<rparr>],
     job_Env = [(''K'', ''v'')]\<rparr>"

definition demo_step_result :: "string \<Rightarrow> goint \<Rightarrow> step_result" where
  "demo_step_result n code = \<lparr>sr_StepName = n, sr_Stdout = ''out'', sr_Stderr = [], sr_ExitCode = code,
     sr_Duration = 7, sr_Err = None\<rparr>"

definition demo_result :: job_result where
  "demo_result = \<lparr>jr_JobName = ''lint'', jr_StepResults = [demo_step_result ''a'' 3, demo_step_result ''b'' 0],
     jr_SetupErr = None\<rparr>"

definition demo_step_trace :: "string \<Rightarrow> string \<Rightarrow> ctx \<Rightarrow> goint \<Rightarrow> obs list" where
  "demo_step_trace n command ctx code =
     [ObsT 0, ObsT 0, ObsE (Publish RequestCtx ((stepStartedEvent ''lint'' n 0)\<lparr>ev_Pipeline := ''ci'', ev_RunID := ''run-1''\<rparr>)) None] @
     exec_obs RequestCtx ''cat /tmp/.odyssey_env'' [] ''e'' [] 0 @
     exec_obs ctx command [] ''e'' ''out'' code @
     [ObsT 7, ObsT 9, ObsE (Publish RequestCtx ((stepFinishedEvent ''lint'' (demo_step_result n code) 9)\<lparr>ev_Pipeline := ''ci'', ev_RunID := ''run-1''\<rparr>)) None] @
     exec_obs RequestCtx ''cat /tmp/.odyssey_env'' [] ''e'' [] 0"

definition demo_trace :: "obs list" where
  "demo_trace =
     [ObsE (ImagePull RequestCtx ''img'') None, ObsE (ReadPullBody ''img'') None, ObsE (ClosePullBody ''img'') None,
      ObsS (ContainerCreate RequestCtx \<lparr>co_Image = ''img'', co_Env = [''K=v'', ''ODYSSEY_ENV_FILE=/tmp/.odyssey_env''],
        co_Labels = [(''odyssey.job'', ''lint'')], co_WorkingDir = ''/app'', co_Cmd = [''sh'', ''-c'', ''tail -f /dev/null'']\<rparr>)
        (Inr ''c1''),
      ObsS (CreateArchive ''/p'') (Inr ''tar''), ObsE (CopyToContainer RequestCtx ''c1'' ''/app'' ''tar'') None,
      ObsE (ContainerStart RequestCtx ''c1'') None] @
     exec_obs RequestCtx '': > /tmp/.odyssey_env'' [] ''e'' [] 0 @
     demo_step_trace ''a'' ''x'' RequestCtx 3 @ demo_step_trace ''b'' ''y'' (TimeoutCtx RequestCtx 5000000) 0 @
     [ObsE (ContainerRemove (TimeoutCtx (WithoutCancel RequestCtx) 30000000000) ''c1'' True True) None]"

lemma demo_replay:
  "replay (DockerRunner_Run RequestCtx demo_job ''/p'' (StampedSink ''ci'' ''run-1'')) demo_trace = Some (demo_result, None)"
  by code_simp

section \<open>Properties\<close>

definition container_created :: "obs list \<Rightarrow> bool" where
  "container_created tr \<longleftrightarrow>
     list_ex (\<lambda>ob. case ob of ObsS (ContainerCreate c opts) (Inr cid) \<Rightarrow> True | _ \<Rightarrow> False) tr"

lemma docker_step_NoContainer:
  "docker_step ph ob = Some ph' \<Longrightarrow>
     ph' = NoContainer \<longleftrightarrow> ph = NoContainer \<and> \<not> container_created [ob]"
  by (induction ph ob rule: docker_step.induct) (auto simp: container_created_def split: sum.splits if_splits)

lemma docker_run_NoContainer:
  "docker_run ph tr = Some ph' \<Longrightarrow> ph' = NoContainer \<longleftrightarrow> ph = NoContainer \<and> \<not> container_created tr"
proof (induction tr arbitrary: ph)
  case Nil
  then show ?case by (simp add: container_created_def)
next
  case (Cons ob tr)
  then obtain ph1 where "docker_step ph ob = Some ph1" "docker_run ph1 tr = Some ph'"
    by (auto split: option.splits)
  then show ?case using Cons.IH [of ph1] docker_step_NoContainer [of ph ob ph1]
    by (auto simp: container_created_def)
qed

text \<open>
  C1. However the daemon, the file system, the bus and the clock answer, a
  run follows the container protocol: the container is filled, started and used in this
  order, commands run only in the running container, and it is removed exactly once, as the
  last operation on it, whenever it was created. No path of the code leaves a container
  without a removal.
\<close>

theorem container_lifecycle:
  assumes "replay (DockerRunner_Run ctx job path ev) tr = Some res"
  shows "docker_run NoContainer tr = Some (if container_created tr then Removed else NoContainer)"
proof -
  have "docker_run NoContainer tr \<in> {Some NoContainer, Some Removed}"
    using specD [OF DockerRunner_Run_post assms] by simp
  then show ?thesis using docker_run_NoContainer [of NoContainer tr] by fastforce
qed

theorem container_lifecycle_witness:
  "docker_run NoContainer demo_trace = Some (if container_created demo_trace then Removed else NoContainer)"
  by (rule container_lifecycle [OF demo_replay])

text \<open>
  C7. The contract of the runner: the result names its job; a run without error
  has one fault-free result for every step, in order, whatever the exit codes; a run with
  an error has a job status of Errored or Failed, so an error never hides behind a green
  job; and a setup fault comes with no step results.
\<close>

theorem runner_result:
  assumes "replay (DockerRunner_Run ctx job path ev) tr = Some (jr, err)"
  shows "jr_JobName jr = job_Name job \<and>
    (err = None \<longrightarrow> jr_SetupErr jr = None \<and>
       map sr_StepName (jr_StepResults jr) = map step_Name (job_Steps job) \<and>
       (\<forall>r \<in> set (jr_StepResults jr). sr_Err r = None)) \<and>
    (err \<noteq> None \<longrightarrow> jobStatus jr \<in> {StatusErrored, StatusFailed}) \<and>
    (jr_SetupErr jr \<noteq> None \<longrightarrow> jr_StepResults jr = [])"
  using specD [OF DockerRunner_Run_post assms] by (simp add: job_post_def result_post_def)

theorem runner_result_witness:
  "map sr_StepName (jr_StepResults demo_result) = map step_Name (job_Steps demo_job) \<and>
   jobStatus demo_result = StatusFailed"
  using runner_result [OF demo_replay] by (simp add: jobStatus_eq) (simp add: demo_result_def demo_step_result_def exit_defs)

text \<open>The step events of a job with the bus enabled, read off the groups.\<close>

definition step_announcements :: "go_job \<Rightarrow> string \<Rightarrow> string \<Rightarrow> go_event list \<Rightarrow> job_result \<Rightarrow> bool" where
  "step_announcements job pl rid evs jr \<longleftrightarrow>
     filter (\<lambda>e. ev_Type e = EventStepFinished) evs =
       map (\<lambda>r. (stepFinishedEvent (job_Name job) r 0)\<lparr>ev_Pipeline := pl, ev_RunID := rid\<rparr>) (jr_StepResults jr) \<and>
     (\<exists>k. map ev_Step (filter (\<lambda>e. ev_Type e = EventStepStarted) evs) = take k (map step_Name (job_Steps job)))"

lemma events_announced:
  assumes "events_post job (StampedSink pl rid) tr jr"
  shows "step_announcements job pl rid (announced tr) jr"
proof -
  let ?s = "StampedSink pl rid"
  from assms obtain groups k
    where g: "announced tr = concat (map (group_events ?s (job_Name job)) groups)"
      "map fst groups = take k (map step_Name (job_Steps job))" "concat (map snd groups) = jr_StepResults jr"
    by (auto simp: events_post_def)
  have "filter (\<lambda>e. ev_Type e = EventStepFinished) (group_events ?s j g) =
      map (\<lambda>r. (stepFinishedEvent j r 0)\<lparr>ev_Pipeline := pl, ev_RunID := rid\<rparr>) (snd g)" for j g
    unfolding group_events_def
    by (induction "snd g" arbitrary: g) (auto simp: stepStartedEvent_def stepFinishedEvent_def event_type_defs)
  moreover have "map ev_Step (filter (\<lambda>e. ev_Type e = EventStepStarted) (group_events ?s j g)) = [fst g]" for j g
    unfolding group_events_def
    by (induction "snd g" arbitrary: g) (auto simp: stepStartedEvent_def stepFinishedEvent_def event_type_defs)
  ultimately have
    "filter (\<lambda>e. ev_Type e = EventStepFinished) (concat (map (group_events ?s j) gs)) =
       map (\<lambda>r. (stepFinishedEvent j r 0)\<lparr>ev_Pipeline := pl, ev_RunID := rid\<rparr>) (concat (map snd gs))"
    "map ev_Step (filter (\<lambda>e. ev_Type e = EventStepStarted) (concat (map (group_events ?s j) gs))) = map fst gs"
    for j gs by (induction gs) simp_all
  then show ?thesis using g by (auto simp: step_announcements_def)
qed

text \<open>
  With the bus enabled, the finished events published during a job are exactly
  its step results, in order, each with the pipeline and run of the sink and the payload of
  the result; a started event is published for each step that was begun, a prefix of the
  job's steps.
\<close>

theorem step_events:
  assumes "replay (DockerRunner_Run ctx job path (StampedSink pl rid)) tr = Some (jr, err)"
  shows "filter (\<lambda>e. ev_Type e = EventStepFinished) (announced tr) =
      map (\<lambda>r. (stepFinishedEvent (job_Name job) r 0)\<lparr>ev_Pipeline := pl, ev_RunID := rid\<rparr>) (jr_StepResults jr) \<and>
    (\<exists>k. map ev_Step (filter (\<lambda>e. ev_Type e = EventStepStarted) (announced tr)) =
       take k (map step_Name (job_Steps job)))"
  using specD [OF DockerRunner_Run_post assms] events_announced [of job pl rid tr jr]
  by (auto simp: job_post_def step_announcements_def)

theorem step_events_witness:
  "filter (\<lambda>e. ev_Type e = EventStepFinished) (announced demo_trace) =
     map (\<lambda>r. (stepFinishedEvent ''lint'' r 0)\<lparr>ev_Pipeline := ''ci'', ev_RunID := ''run-1''\<rparr>)
       [demo_step_result ''a'' 3, demo_step_result ''b'' 0]"
  using step_events [OF demo_replay] by (simp add: demo_result_def demo_job_def)

lemma no_start_after_running:
  "docker_run ph tr = Some ph' \<Longrightarrow> (\<exists>cid. ph = Running cid) \<or> ph = Removed \<Longrightarrow>
     ObsE (ContainerStart c x) e \<notin> set tr"
proof (induction tr arbitrary: ph)
  case (Cons ob tr)
  then obtain ph1 where "docker_step ph ob = Some ph1" "docker_run ph1 tr = Some ph'"
    by (auto split: option.splits)
  moreover from this Cons.prems(2) have "ob \<noteq> ObsE (ContainerStart c x) e \<and> ((\<exists>cid. ph1 = Running cid) \<or> ph1 = Removed)"
    by (cases "(ph, ob)" rule: docker_step.cases) (auto split: if_splits)
  ultimately show ?case using Cons.IH by auto
qed simp

lemma started_mounted:
  "docker_run (Mounted cid) tr = Some ph' \<Longrightarrow> ObsE (ContainerStart c x) e \<in> set tr \<Longrightarrow> x = cid"
proof (induction tr)
  case (Cons ob tr)
  then obtain ph1 where s: "docker_step (Mounted cid) ob = Some ph1" "docker_run ph1 tr = Some ph'"
    by (auto split: option.splits)
  then have "ph1 = Mounted cid \<or> (\<exists>cid. ph1 = Running cid) \<or> ph1 = Removed"
    by (cases "(Mounted cid, ob)" rule: docker_step.cases) (auto split: if_splits)
  moreover have "ob = ObsE (ContainerStart c x) e \<Longrightarrow> x = cid" using s(1) by (simp split: if_splits)
  ultimately show ?case using Cons.IH Cons.prems(2) s(2) no_start_after_running [OF s(2)]
    by (metis set_ConsD)
qed simp

text \<open>
  Teardown does not share the run's fate: whenever the container was
  started, the last call of the run removes it, under a context of its own that
  cancelling the request does not cancel, with a deadline of thirty seconds.
\<close>

theorem teardown_context:
  assumes run: "replay (DockerRunner_Run ctx job path ev) tr = Some res"
    and started: "ObsE (ContainerStart c cid) e \<in> set tr"
  shows "(\<exists>r. last tr = ObsE (ContainerRemove (teardownCtx ctx) cid True True) r) \<and>
    \<not> inherits_cancel (teardownCtx ctx) \<and> teardownCtx ctx = TimeoutCtx (WithoutCancel ctx) 30000000000"
proof -
  have pull: "spec (pullImage ctx (job_Image job)) (\<lambda>tr _. ObsE (ContainerStart c cid) e \<notin> set tr)"
    by (simp add: pullImage_def split: split_rules)
  have create: "spec (createContainer ctx job path) (\<lambda>tr _. ObsE (ContainerStart c cid) e \<notin> set tr)"
    by (simp add: createContainer_def mountArchive_def removeContainer_def split: split_rules)
  have "spec (DockerRunner_Run ctx job path ev) (\<lambda>tr res. ObsE (ContainerStart c cid) e \<in> set tr \<longrightarrow>
      (\<exists>r. last tr = ObsE (ContainerRemove (teardownCtx ctx) cid True True) r))"
    unfolding DockerRunner_Run_def
  proof (rule spec_pbindI [OF pull], goal_cases)
    case (1 tr1 pe)
    note p = 1
    show ?case
    proof (cases pe)
      case None
      show ?thesis unfolding None option.case
      proof (rule spec_pbindI [OF create], goal_cases)
        case (1 tr2 cr)
        note q = 1
        show ?case
        proof (cases cr)
          case (Inr x)
          show ?thesis unfolding Inr sum.case
            by (rule spec_pbindI [OF runInContainer_post])
              (use p q started_mounted [of x _ _ c cid e] in \<open>auto simp: removeContainer_def\<close>)
        qed (use p q in simp)
      qed
    qed (use p in simp)
  qed
  from specD [OF this run] started show ?thesis by (simp add: teardownCtx_def)
qed

theorem teardown_context_witness:
  "\<exists>r. last demo_trace = ObsE (ContainerRemove (teardownCtx RequestCtx) ''c1'' True True) r"
proof -
  have "ObsE (ContainerStart RequestCtx ''c1'') None \<in> set demo_trace" by (simp add: demo_trace_def)
  from teardown_context [OF demo_replay this] show ?thesis by blast
qed

text \<open>
  C28. The other removal, of a container whose project could not be
  copied in, is the last call of \<open>createContainer\<close> and uses the run's own context: when
  that context is cancelled, so is the cleanup.
\<close>

theorem mount_failure_cleanup:
  assumes run: "replay (createContainer ctx job path) tr = Some (Inl err)"
    and created: "ObsS (ContainerCreate c opts) (Inr cid) \<in> set tr"
  shows "(\<exists>r. last tr = ObsE (ContainerRemove ctx cid True True) r) \<and>
    (inherits_cancel ctx \<longrightarrow> (\<forall>c' x v f r. ObsE (ContainerRemove c' x v f) r \<in> set tr \<longrightarrow> inherits_cancel c'))"
proof -
  have "spec (createContainer ctx job path) (\<lambda>tr res. \<forall>c opts cid. res = Inl err \<longrightarrow> ObsS (ContainerCreate c opts) (Inr cid) \<in> set tr \<longrightarrow>
      (\<exists>r. last tr = ObsE (ContainerRemove ctx cid True True) r) \<and>
      (\<forall>c' x v f r. ObsE (ContainerRemove c' x v f) r \<in> set tr \<longrightarrow> c' = ctx))"
    by (auto simp: createContainer_def mountArchive_def removeContainer_def Let_def split: split_rules)
  from specD [OF this run] created show ?thesis by blast
qed

definition cancelled_copy_trace :: "obs list" where
  "cancelled_copy_trace =
     [ObsS (ContainerCreate RequestCtx \<lparr>co_Image = ''img'', co_Env = [''K=v'', ''ODYSSEY_ENV_FILE=/tmp/.odyssey_env''],
        co_Labels = [(''odyssey.job'', ''lint'')], co_WorkingDir = ''/app'', co_Cmd = [''sh'', ''-c'', ''tail -f /dev/null'']\<rparr>)
        (Inr ''c1''),
      ObsS (CreateArchive ''/p'') (Inr ''tar''), ObsE (CopyToContainer RequestCtx ''c1'' ''/app'' ''tar'') (Some Canceled),
      ObsE (ContainerRemove RequestCtx ''c1'' True True) (Some Canceled)]"

theorem mount_failure_cleanup_witness:
  "\<exists>r. last cancelled_copy_trace = ObsE (ContainerRemove RequestCtx ''c1'' True True) r"
proof -
  have "replay (createContainer RequestCtx demo_job ''/p'') cancelled_copy_trace =
    Some (Inl (Errorf [Lit ''failed to mount project path to container: '',
      Wrapped (Errorf [Wrapped Canceled, Lit ''; additionally, failed to remove container: '', Wrapped Canceled])]))"
    by code_simp
  moreover have "\<exists>c opts. ObsS (ContainerCreate c opts) (Inr ''c1'') \<in> set cancelled_copy_trace"
    by (simp add: cancelled_copy_trace_def)
  ultimately show ?thesis using mount_failure_cleanup by blast
qed

text \<open>
  C29. A positive timeout of a step becomes a deadline of that many milliseconds
  exactly when it is at most 9223372036854 of them; beyond, the 64-bit product wraps
  around, and for one millisecond more the deadline is already past. Validation accepts
  every non-negative timeout.
\<close>

theorem step_deadline:
  assumes "sint (step_Timeout step) > 0"
  shows "\<exists>d. stepContext ctx step = TimeoutCtx ctx d \<and>
    (sint d = sint (step_Timeout step) * 1000000 \<longleftrightarrow> sint (step_Timeout step) \<le> 9223372036854) \<and>
    (sint (step_Timeout step) = 9223372036855 \<longrightarrow> sint d < 0)"
proof -
  let ?t = "sint (step_Timeout step)"
  let ?d = "step_Timeout step * 1000000 :: goint"
  have d: "?d = word_of_int (?t * 1000000)" by simp
  have "sint ?d = ?t * 1000000 \<longleftrightarrow> in_int64 (?t * 1000000)"
    using sint_of_int64 in_int64_sint d by metis
  also have "\<dots> \<longleftrightarrow> ?t \<le> 9223372036854"
    using assms by (simp add: in_int64_def min_int64_def max_int64_def) arith
  finally have iff: "sint ?d = ?t * 1000000 \<longleftrightarrow> ?t \<le> 9223372036854" .
  have "sint ?d < 0" if "?t = 9223372036855"
  proof -
    have "?d = word_of_int 9223372036855000000" unfolding d that by simp
    then show ?thesis by simp
  qed
  then show ?thesis using assms iff by (simp add: stepContext_def)
qed

theorem step_deadline_witness:
  "\<exists>d. stepContext RequestCtx \<lparr>step_Name = ''s'', step_Run = ''r'', step_Timeout = 9223372036855\<rparr> = TimeoutCtx RequestCtx d \<and>
     sint d < 0"
  using step_deadline [of "\<lparr>step_Name = ''s'', step_Run = ''r'', step_Timeout = 9223372036855\<rparr>" RequestCtx] by auto

end
