(* ===== verification/OrchestratorSafety.thy ===== *)
theory OrchestratorSafety
  imports RunnerSafety
begin

text \<open>
  What a pipeline run guarantees with the Docker runner, for every interleaving of the jobs
  and every answer of the environment: fail-fast order, what a green run means, the events
  that bracket a run, the contexts under which they are published, independence from the
  bus, and that a run always returns.
\<close>

section \<open>Calls of the runner\<close>

text \<open>The runner publishes step events only, and under the context it was given.\<close>

definition runner_call :: "ctx \<Rightarrow> step_sink \<Rightarrow> obs \<Rightarrow> bool" where
  "runner_call ctx ev ob = (case ob of
     ObsE (Publish c e) r \<Rightarrow> c = ctx \<and> ev_Type e \<in> {EventStepStarted, EventStepFinished} \<and>
       ev = StampedSink (ev_Pipeline e) (ev_RunID e)
   | _ \<Rightarrow> True)"

lemmas runner_defs = DockerRunner_Run_def pullImage_def createContainer_def mountArchive_def
  removeContainer_def runInContainer_def runSetup_def runSteps_def readExportedEnv_def execCommand_def
  Let_def

lemmas step_defs = runStep_def settleStep_def envReadFault_def emitFinished_def runner_defs

lemma runner_call_simps [simp]:
  "runner_call ctx ev (ObsE (Publish c e) r) \<longleftrightarrow> c = ctx \<and> ev_Type e \<in> {EventStepStarted, EventStepFinished} \<and>
     ev = StampedSink (ev_Pipeline e) (ev_RunID e)"
  "runner_call ctx ev (ObsS x1 r1)" "runner_call ctx ev (ObsO x2 r2)" "runner_call ctx ev (ObsI x3 r3)"
  "runner_call ctx ev (ObsT t)"
  by (simp_all add: runner_call_def)

lemma runner_call_other [simp]: "(\<And>c' e'. x \<noteq> Publish c' e') \<Longrightarrow> runner_call ctx ev (ObsE x r)"
  by (simp add: runner_call_def split: ecall.split)

lemma emitStep_call:
  "ev_Type e \<in> {EventStepStarted, EventStepFinished} \<Longrightarrow> calls_only (runner_call ctx ev) (emitStep ctx ev e)"
  by (cases ev) (auto simp: emitStep_def stampedSink_Publish_def intro!: beh_intros)

lemma runStep_call: "calls_only (runner_call ctx ev) (runStep ctx cid j ev step)"
  unfolding step_defs
  by (intro beh_intros emitStep_call) (simp_all add: stepStartedEvent_def stepFinishedEvent_def)

lemma runStepsFrom_call: "calls_only (runner_call ctx ev) (runStepsFrom ctx cid j ev acc steps)"
  by (induction steps arbitrary: acc) (auto intro!: beh_intros runStep_call)

lemma runSetupCommands_call: "calls_only (runner_call ctx ev) (runSetupCommands ctx cid cmds)"
proof (induction cmds)
  case (Cons c cmds)
  show ?case unfolding runSetupCommands.simps runner_defs by (intro beh_intros Cons.IH) simp_all
qed (simp add: beh_intros)

lemma runner_calls: "calls_only (runner_call ctx ev) (DockerRunner_Run ctx job path ev)"
  unfolding runner_defs by (intro beh_intros runStepsFrom_call runSetupCommands_call) simp_all

section \<open>Independence from the bus\<close>

lemma emitStep_deaf: "deaf (emitStep ctx ev e)"
  by (cases ev) (auto simp: emitStep_def stampedSink_Publish_def intro!: beh_intros)

lemma runStep_deaf: "deaf (runStep ctx cid j ev step)"
  unfolding step_defs by (intro beh_intros emitStep_deaf) simp_all

lemma runStepsFrom_deaf: "deaf (runStepsFrom ctx cid j ev acc steps)"
  by (induction steps arbitrary: acc) (auto intro!: beh_intros runStep_deaf)

lemma runSetupCommands_deaf: "deaf (runSetupCommands ctx cid cmds)"
proof (induction cmds)
  case (Cons c cmds)
  show ?case unfolding runSetupCommands.simps runner_defs by (intro beh_intros Cons.IH) simp_all
qed (simp add: beh_intros)

lemma runner_deaf: "deaf (DockerRunner_Run ctx job path ev)"
  unfolding runner_defs by (intro beh_intros runStepsFrom_deaf runSetupCommands_deaf) simp_all

section \<open>Calls of the orchestrator\<close>

text \<open>
  What an event published during a run looks like: it carries the run and the pipeline, and
  the record that a job or the pipeline ended goes out under a context that cancelling the
  request does not cancel, all others under one that it does.
\<close>

definition event_ok :: "bool \<Rightarrow> ctx \<Rightarrow> string \<Rightarrow> string \<Rightarrow> obs \<Rightarrow> bool" where
  "event_ok sink ctx pn rid ob = (case ob of
     ObsE (Publish c e) r \<Rightarrow> sink \<and> ev_Pipeline e = pn \<and> ev_RunID e = rid \<and>
       (if ev_Type e \<in> {EventJobFinished, EventPipelineFinished} then c \<in> {WithoutCancel ctx, WithoutCancel (GroupCtx ctx)}
        else c \<in> {ctx, GroupCtx ctx})
   | _ \<Rightarrow> True)"

lemma event_ok_simps [simp]:
  "event_ok sink ctx pn rid (ObsT t)" "event_ok sink ctx pn rid (ObsS x r)"
  by (simp_all add: event_ok_def)

lemma runner_event_ok:
  "runner_call (GroupCtx ctx) (stepSink sink pn rid) ob \<Longrightarrow> event_ok sink ctx pn rid ob"
  by (auto simp: runner_call_def event_ok_def stepSink_def event_type_defs
      split: obs.splits ecall.splits if_splits)

lemma calls_only_mono: "calls_only P p \<Longrightarrow> (\<And>ob. P ob \<Longrightarrow> Q ob) \<Longrightarrow> calls_only Q p"
  unfolding calls_only_def list_all_iff by (erule spec_mono) auto

lemma emit_ok: "event_ok sink ctx pn rid (ObsE (Publish c e) None) \<or> \<not> sink \<Longrightarrow> calls_only (event_ok sink ctx pn rid) (emit sink c e)"
  unfolding emit_def by (intro beh_intros) (auto simp: event_ok_def)

lemma runJob_ok: "calls_only (event_ok sink ctx pn rid) (runJob DockerRunner_Run sink (GroupCtx ctx) sn pn rid path job)"
  unfolding runJob_def
  by (intro beh_intros emit_ok calls_only_mono [OF runner_calls runner_event_ok])
    (auto simp: event_ok_def lifecycleEvent_def event_type_defs)

lemma runStart_ok: "spec (runStart sink ctx p) (\<lambda>tr (rid, start). list_all (event_ok sink ctx (pipeline_Name p) rid) tr)"
  by (simp add: runStart_def newRunID_def emit_def event_ok_def lifecycleEvent_def event_type_defs split: split_rules)

lemma runFinish_ok: "calls_only (event_ok sink ctx (pipeline_Name p) rid) (runFinish sink ctx p rid start rs)"
  unfolding runFinish_def Let_def
  by (intro beh_intros emit_ok) (auto simp: event_ok_def lifecycleEvent_def event_type_defs)

text \<open>What holds of every call of every job holds of every call of the stages.\<close>

lemma runStage_all:
  assumes jobs: "\<And>sn job. calls_only P (runJob rj sink (GroupCtx ctx) sn pn rid path job)" and time: "\<And>t. P (ObsT t)"
    and "runStage rj sink ctx stage pn rid path tr r"
  shows "list_all (\<lambda>l. P (snd l)) tr"
  using assms(3)
proof (cases rule: runStage.cases)
  case (1 ptr jrs start stop)
  note par = par_run_own [OF 1(3), unfolded stageJobs_def length_map]
  have "P ob" if "(i, ob) \<in> set ptr" for i ob
  proof -
    have i: "i < length (stage_Jobs stage)" and mem: "ob \<in> set (own i ptr)"
      using par that by (auto simp: own_def intro!: rev_image_eqI)
    show ?thesis by (rule calls_onlyD [OF jobs _ mem]) (use par i in auto)
  qed
  then show ?thesis using 1(1) time by (auto simp: list_all_iff by_main_def by_jobs_def)
qed

lemma runStages_all:
  assumes "\<And>sn job. calls_only P (runJob rj sink (GroupCtx ctx) sn pn rid path job)" and "\<And>t. P (ObsT t)"
    and "runStages rj sink ctx pn rid path stages tr rs"
  shows "list_all (\<lambda>l. P (snd l)) tr"
  using assms(3) by (induction rule: runStages.induct) (auto dest: runStage_all [OF assms(1,2)])

lemma by_main_all: "list_all P tr \<Longrightarrow> list_all (\<lambda>l. P (snd l)) (by_main tr)"
  by (simp add: by_main_def list_all_iff)

lemma Run_ok:
  assumes "Run DockerRunner_Run sink ctx p path tr res"
  shows "list_all (\<lambda>l. event_ok sink ctx (pipeline_Name p) (pr_RunID res) (snd l)) tr"
  using assms
proof (cases rule: Run.cases)
  case (1 tr1 rid start tr2 rs tr3)
  have "pr_RunID res = rid" using runFinish_result [OF 1(4)] by simp
  moreover have "list_all (event_ok sink ctx (pipeline_Name p) rid) tr3"
    using specD [OF runFinish_ok [unfolded calls_only_def] 1(4)] .
  ultimately show ?thesis
    using specD [OF runStart_ok 1(2)] runStages_all [OF runJob_ok event_ok_simps(1) 1(3)] 1(1) by (simp add: by_main_all)
qed

section \<open>The events of a job and of a run\<close>

text \<open>The calls of one job of a stage.\<close>

definition job_calls :: "nat \<Rightarrow> lobs list \<Rightarrow> obs list" where
  "job_calls i tr = map snd (filter (\<lambda>l. fst l = Some i) tr)"

lemma job_calls_simps [simp]:
  "job_calls i (tr @ tr') = job_calls i tr @ job_calls i tr'" "job_calls i (by_main obs) = []"
  "job_calls i (by_jobs ptr) = own i ptr"
  by (auto simp: job_calls_def by_main_def by_jobs_def own_def filter_map comp_def case_prod_beta)

lemma untimed_lifecycle [simp]: "untimed (lifecycleEvent ty t rid pl j payload) = lifecycleEvent ty 0 rid pl j payload"
  by (simp add: untimed_def lifecycleEvent_def)

text \<open>A job announces its start, its steps and its end, with the status of its result.\<close>

lemma runJob_events:
  assumes "replay (runJob DockerRunner_Run True c sn pn rid path job) tr = Some jr"
  shows "\<exists>steps. announced tr =
      lifecycleEvent EventJobStarted 0 rid pn (job_Name job) [(''stage'', sn)] # steps @
      [lifecycleEvent EventJobFinished 0 rid pn (job_Name job) [(''status'', status_String (jobStatus jr))]] \<and>
    step_announcements job pn rid steps jr"
proof -
  have "spec (runJob DockerRunner_Run True c sn pn rid path job) (\<lambda>tr jr. \<exists>steps. announced tr =
      lifecycleEvent EventJobStarted 0 rid pn (job_Name job) [(''stage'', sn)] # steps @
      [lifecycleEvent EventJobFinished 0 rid pn (job_Name job) [(''status'', status_String (jobStatus jr))]] \<and>
    step_announcements job pn rid steps jr)"
    unfolding runJob_def emit_def stepSink_def
    by (simp, rule spec_mono [OF DockerRunner_Run_post])
      (auto simp: job_post_def intro!: events_announced)
  then show ?thesis using assms by (rule specD)
qed

definition inner_event :: "obs \<Rightarrow> bool" where
  "inner_event ob = (case ob of
     ObsE (Publish c e) r \<Rightarrow> ev_Type e \<in> {EventJobStarted, EventJobFinished, EventStepStarted, EventStepFinished}
   | _ \<Rightarrow> True)"

lemma runJob_inner: "calls_only inner_event (runJob DockerRunner_Run sink c sn pn rid path job)"
proof -
  have *: "runner_call c ev ob \<Longrightarrow> inner_event ob" for ev ob
    by (auto simp: runner_call_def inner_event_def split: obs.splits ecall.splits)
  show ?thesis unfolding runJob_def emit_def
    by (intro beh_intros calls_only_mono [OF runner_calls *]) (auto simp: inner_event_def lifecycleEvent_def)
qed

lemma inner_announced: "list_all (\<lambda>l. inner_event (snd l)) tr \<Longrightarrow>
    e \<in> set (announced (map snd tr)) \<Longrightarrow> ev_Type e \<in> {EventJobStarted, EventJobFinished, EventStepStarted, EventStepFinished}"
proof (induction tr)
  case (Cons l tr)
  then show ?case
    by (cases "snd l" rule: published_event.cases) (auto simp: inner_event_def untimed_def)
qed simp

lemma Run_events:
  assumes "Run DockerRunner_Run True ctx p path tr res"
  shows "\<exists>mid. announced (map snd tr) =
      lifecycleEvent EventPipelineStarted 0 (pr_RunID res) (pipeline_Name p) [] [] # mid @
      [lifecycleEvent EventPipelineFinished 0 (pr_RunID res) (pipeline_Name p) [] [(''status'', status_String (pipelineStatus res))]] \<and>
    (\<forall>e \<in> set mid. ev_Type e \<in> {EventJobStarted, EventJobFinished, EventStepStarted, EventStepFinished})"
  using assms
proof (cases rule: Run.cases)
  case (1 tr1 rid start tr2 rs tr3)
  have rid: "pr_RunID res = rid" using runFinish_result [OF 1(4)] by simp
  have main: "map snd (by_main xs) = xs" for xs by (simp add: by_main_def comp_def)
  have "spec (runStart True ctx p) (\<lambda>tr (rid, start).
      announced tr = [lifecycleEvent EventPipelineStarted 0 rid (pipeline_Name p) [] []])"
    by (simp add: runStart_def newRunID_def emit_def split: split_rules)
  from specD [OF this 1(2)] have a: "announced tr1 = [lifecycleEvent EventPipelineStarted 0 rid (pipeline_Name p) [] []]" by simp
  have "spec (runFinish True ctx p rid start rs) (\<lambda>tr res. announced tr =
      [lifecycleEvent EventPipelineFinished 0 rid (pipeline_Name p) [] [(''status'', status_String (pipelineStatus res))]])"
    by (simp add: runFinish_def Let_def emit_def)
  from specD [OF this 1(4)] have c: "announced tr3 =
      [lifecycleEvent EventPipelineFinished 0 rid (pipeline_Name p) [] [(''status'', status_String (pipelineStatus res))]]" .
  have "list_all (\<lambda>l. inner_event (snd l)) tr2"
    by (rule runStages_all [OF runJob_inner _ 1(3)]) (simp add: inner_event_def)
  then show ?thesis using inner_announced a c rid by (auto simp: 1(1) main)
qed

section \<open>Runs do not depend on the bus\<close>

definition relabel :: "(ctx \<Rightarrow> go_event \<Rightarrow> go_error option) \<Rightarrow> lobs list \<Rightarrow> lobs list" where
  "relabel g tr = map (map_prod id (reanswer g)) tr"

lemma relabel_simps [simp]:
  "relabel g (tr @ tr') = relabel g tr @ relabel g tr'" "relabel g (by_main obs) = by_main (map (reanswer g) obs)"
  "relabel g (by_jobs ptr) = by_jobs (map (map_prod id (reanswer g)) ptr)"
  by (simp_all add: relabel_def by_main_def by_jobs_def case_prod_beta map_prod_def)

lemma own_reanswer: "own i (map (map_prod id f) ptr) = map f (own i ptr)"
  by (simp add: own_def filter_map comp_def)

lemma par_run_deaf:
  assumes "par_run ps tr as" and "\<And>p. p \<in> set ps \<Longrightarrow> deaf p"
  shows "par_run ps (map (map_prod id (reanswer g)) tr) as"
  using par_run_own [OF assms(1)] deafD [OF assms(2) [OF nth_mem]]
  by (intro own_run_par) (auto simp: own_reanswer)

lemma emit_deaf: "deaf (emit sink c e)"
  unfolding emit_def by (intro beh_intros)

lemma runJob_deaf: "deaf (runJob DockerRunner_Run sink c sn pn rid path job)"
  unfolding runJob_def by (intro beh_intros emit_deaf runner_deaf)

lemma runStage_deaf:
  assumes "runStage DockerRunner_Run sink ctx stage pn rid path tr r"
  shows "runStage DockerRunner_Run sink ctx stage pn rid path (relabel g tr) r"
  using assms
proof (cases rule: runStage.cases)
  case (1 ptr jrs start stop)
  have "par_run (stageJobs DockerRunner_Run sink ctx stage pn rid path) (map (map_prod id (reanswer g)) ptr) jrs"
    by (rule par_run_deaf [OF 1(3)]) (auto simp: stageJobs_def runJob_deaf)
  from runStage.intros [OF this, of start stop] show ?thesis by (simp add: 1)
qed

lemma runStages_deaf:
  "runStages DockerRunner_Run sink ctx pn rid path stages tr rs \<Longrightarrow>
     runStages DockerRunner_Run sink ctx pn rid path stages (relabel g tr) rs"
  by (induction rule: runStages.induct) (auto intro: runStages.intros runStage_deaf simp: relabel_def [of g "[]"])

lemma Run_deaf:
  assumes "Run DockerRunner_Run sink ctx p path tr res"
  shows "Run DockerRunner_Run sink ctx p path (relabel g tr) res"
  using assms
proof (cases rule: Run.cases)
  case (1 tr1 rid start tr2 rs tr3)
  have a: "deaf (runStart sink ctx p)"
    unfolding runStart_def newRunID_def by (intro beh_intros emit_deaf)
  have c: "deaf (runFinish sink ctx p rid start rs)"
    unfolding runFinish_def Let_def by (intro beh_intros emit_deaf)
  show ?thesis
    using Run.intros [OF deafD [OF a 1(2)] runStages_deaf [OF 1(3)] deafD [OF c 1(4)], of g g g]
    by (simp add: 1(1))
qed

section \<open>A run to try the properties on\<close>

text \<open>Two stages, two jobs in the first; every call succeeds, and steps exit with the given code.\<close>

definition demo_env :: "goint \<Rightarrow> nat env" where
  "demo_env code = \<lparr>ansE = (\<lambda>w c. (None, Suc w)),
     ansS = (\<lambda>w c. (Inr (case c of ContainerCreate _ _ \<Rightarrow> ''c1'' | ExecCreate _ _ _ \<Rightarrow> ''e1'' | CreateArchive _ \<Rightarrow> ''tar''
                      | RandRead _ \<Rightarrow> ''abcd''), Suc w)),
     ansO = (\<lambda>w c. (Inr ([], []), Suc w)), ansI = (\<lambda>w c. (Inr (if 40 < w then code else 0), Suc w)),
     ansR = (\<lambda>w c. (Inl RedisNil, w)), ansC = (\<lambda>w c. (Inl RedisNil, w)), ansP = (\<lambda>w c. (Inl RedisNil, w)),
     ansM = (\<lambda>w c. (Inl RedisNil, w)), ansT = (\<lambda>w. (int w, Suc w))\<rparr>"

definition one_step_job :: "string \<Rightarrow> go_job" where
  "one_step_job n = \<lparr>job_Name = n, job_Image = ''img'', job_Setup = [],
     job_Steps = [\<lparr>step_Name = ''s'', step_Run = ''make'', step_Timeout = 0\<rparr>], job_Env = []\<rparr>"

definition demo_pipeline :: go_pipeline where
  "demo_pipeline = \<lparr>pipeline_Name = ''ci'', pipeline_Stages =
     [\<lparr>stage_Name = ''check'', stage_Jobs = [one_step_job ''fmt'', one_step_job ''vet'']\<rparr>,
      \<lparr>stage_Name = ''test'', stage_Jobs = [one_step_job ''unit'']\<rparr>]\<rparr>"

definition demo_run :: "goint \<Rightarrow> lobs list \<times> pipeline_result \<times> nat" where
  "demo_run code = Run_exec (demo_env code) (\<lambda>w. w) DockerRunner_Run True RequestCtx demo_pipeline ''/p'' 0"

lemma demo_Run: "Run DockerRunner_Run True RequestCtx demo_pipeline ''/p'' (fst (demo_run code)) (fst (snd (demo_run code)))"
  unfolding demo_run_def by (rule Run_exec_Run)

text \<open>A run of one job without a bus, written out, in which the step exits with the given code.\<close>

definition small_pipeline :: go_pipeline where
  "small_pipeline = \<lparr>pipeline_Name = ''ci'', pipeline_Stages =
     [\<lparr>stage_Name = ''check'', stage_Jobs = [one_step_job ''fmt'']\<rparr>, \<lparr>stage_Name = ''test'', stage_Jobs = [one_step_job ''unit'']\<rparr>]\<rparr>"

definition small_job_trace :: "string \<Rightarrow> goint \<Rightarrow> obs list" where
  "small_job_trace n code = (let c = GroupCtx RequestCtx in
     [ObsT 0, ObsE (ImagePull c ''img'') None, ObsE (ReadPullBody ''img'') None, ObsE (ClosePullBody ''img'') None,
      ObsS (ContainerCreate c \<lparr>co_Image = ''img'', co_Env = [''ODYSSEY_ENV_FILE=/tmp/.odyssey_env''],
        co_Labels = [(''odyssey.job'', n)], co_WorkingDir = ''/app'', co_Cmd = [''sh'', ''-c'', ''tail -f /dev/null'']\<rparr>)
        (Inr ''c1''),
      ObsS (CreateArchive ''/p'') (Inr ''tar''), ObsE (CopyToContainer c ''c1'' ''/app'' ''tar'') None,
      ObsE (ContainerStart c ''c1'') None] @
     exec_obs c '': > /tmp/.odyssey_env'' [] ''e'' [] 0 @ [ObsT 0, ObsT 0] @
     exec_obs c ''cat /tmp/.odyssey_env'' [] ''e'' [] 0 @ exec_obs c ''make'' [] ''e'' ''out'' code @ [ObsT 7, ObsT 8] @
     exec_obs c ''cat /tmp/.odyssey_env'' [] ''e'' [] 0 @
     [ObsE (ContainerRemove (TimeoutCtx (WithoutCancel c) 30000000000) ''c1'' True True) None, ObsT 9])"

definition small_job_result :: "string \<Rightarrow> goint \<Rightarrow> job_result" where
  "small_job_result n code = \<lparr>jr_JobName = n, jr_StepResults = [demo_step_result ''s'' code], jr_SetupErr = None\<rparr>"

lemma small_replay:
  "replay (runJob DockerRunner_Run False (GroupCtx RequestCtx) ''check'' ''ci'' rid ''/p'' (one_step_job ''fmt''))
     (small_job_trace ''fmt'' 0) = Some (small_job_result ''fmt'' 0)"
  "replay (runJob DockerRunner_Run False (GroupCtx RequestCtx) ''check'' ''ci'' rid ''/p'' (one_step_job ''fmt''))
     (small_job_trace ''fmt'' 1) = Some (small_job_result ''fmt'' 1)"
  "replay (runJob DockerRunner_Run False (GroupCtx RequestCtx) ''test'' ''ci'' rid ''/p'' (one_step_job ''unit''))
     (small_job_trace ''unit'' 0) = Some (small_job_result ''unit'' 0)"
  by code_simp+

definition small_stage_trace :: "string \<Rightarrow> goint \<Rightarrow> lobs list" where
  "small_stage_trace n code = by_main [ObsT 0] @ by_jobs (map (Pair 0) (small_job_trace n code)) @ by_main [ObsT 10]"

definition small_stage_result :: "string \<Rightarrow> string \<Rightarrow> goint \<Rightarrow> stage_result" where
  "small_stage_result s n code = \<lparr>gr_StageName = s, gr_JobResults = [small_job_result n code], gr_Duration = time_sub 10 0\<rparr>"

lemma small_stage:
  assumes "replay (runJob DockerRunner_Run False (GroupCtx RequestCtx) s ''ci'' rid ''/p'' (one_step_job n))
     (small_job_trace n code) = Some (small_job_result n code)"
  shows "runStage DockerRunner_Run False RequestCtx \<lparr>stage_Name = s, stage_Jobs = [one_step_job n]\<rparr> ''ci'' rid ''/p''
     (small_stage_trace n code) (small_stage_result s n code)"
proof -
  have "own 0 (map (Pair 0) tr) = tr" for tr by (simp add: own_def comp_def)
  then have "par_run [runJob DockerRunner_Run False (GroupCtx RequestCtx) s ''ci'' rid ''/p'' (one_step_job n)]
      (map (Pair 0) (small_job_trace n code)) [small_job_result n code]"
    using assms by (intro own_run_par) auto
  then show ?thesis
    using runStage.intros [of DockerRunner_Run False RequestCtx "\<lparr>stage_Name = s, stage_Jobs = [one_step_job n]\<rparr>"
      "''ci''" rid "''/p''" _ _ 0 10] by (simp add: stageJobs_def small_stage_trace_def small_stage_result_def)
qed

definition small_result :: "stage_result list \<Rightarrow> pipeline_result" where
  "small_result rs = \<lparr>pr_RunID = ''run-5-61626364'', pr_Duration = 14, pr_PipelineName = ''ci'', pr_StageResults = rs\<rparr>"

definition small_trace :: "lobs list \<Rightarrow> lobs list" where
  "small_trace tr = by_main [ObsS (RandRead 4) (Inr ''abcd''), ObsT 5, ObsT 6, ObsT 6] @ tr @ by_main [ObsT 20, ObsT 21]"

lemma small_run:
  assumes "runStages DockerRunner_Run False RequestCtx ''ci'' ''run-5-61626364'' ''/p'' (pipeline_Stages small_pipeline) tr rs"
  shows "Run DockerRunner_Run False RequestCtx small_pipeline ''/p'' (small_trace tr) (small_result rs)"
proof -
  have a: "replay (runStart False RequestCtx small_pipeline) [ObsS (RandRead 4) (Inr ''abcd''), ObsT 5, ObsT 6, ObsT 6] =
      Some (''run-5-61626364'', 6)" by code_simp
  have c: "replay (runFinish False RequestCtx small_pipeline ''run-5-61626364'' 6 rs) [ObsT 20, ObsT 21] = Some (small_result rs)"
    by (simp add: runFinish_def emit_def Let_def now_def small_result_def small_pipeline_def time_sub_def min_int64_def max_int64_def)
  show ?thesis using Run.intros [OF a _ c] assms by (simp add: small_trace_def small_pipeline_def)
qed

text \<open>The run passes when both steps exit zero, and ends after the first stage when its step does not.\<close>

definition green_trace :: "lobs list" where
  "green_trace = small_trace (small_stage_trace ''fmt'' 0 @ small_stage_trace ''unit'' 0)"

definition green_result :: pipeline_result where
  "green_result = small_result [small_stage_result ''check'' ''fmt'' 0, small_stage_result ''test'' ''unit'' 0]"

definition red_trace :: "lobs list" where
  "red_trace = small_trace (small_stage_trace ''fmt'' 1)"

definition red_result :: pipeline_result where
  "red_result = small_result [small_stage_result ''check'' ''fmt'' 1]"

lemma small_status:
  "stageStatus (small_stage_result s n 0) = StatusPassed" "stageStatus (small_stage_result s n 1) = StatusFailed"
  by (simp_all add: stageStatus_iff small_stage_result_def jobStatus_eq small_job_result_def demo_step_result_def exit_defs)

lemma green_Run: "Run DockerRunner_Run False RequestCtx small_pipeline ''/p'' green_trace green_result"
  unfolding green_trace_def green_result_def
proof (rule small_run)
  have u: "runStages DockerRunner_Run False RequestCtx ''ci'' rid ''/p''
     [\<lparr>stage_Name = ''test'', stage_Jobs = [one_step_job ''unit'']\<rparr>] (small_stage_trace ''unit'' 0 @ [])
     [small_stage_result ''test'' ''unit'' 0]" for rid
    by (rule stages_next [OF small_stage [OF small_replay(3)]]) (simp_all add: fails_run_def small_status stages_done)
  show "runStages DockerRunner_Run False RequestCtx ''ci'' ''run-5-61626364'' ''/p'' (pipeline_Stages small_pipeline)
     (small_stage_trace ''fmt'' 0 @ small_stage_trace ''unit'' 0)
     [small_stage_result ''check'' ''fmt'' 0, small_stage_result ''test'' ''unit'' 0]"
    using stages_next [OF small_stage [OF small_replay(1)] _ u]
    by (simp add: fails_run_def small_status small_pipeline_def)
qed

lemma red_Run: "Run DockerRunner_Run False RequestCtx small_pipeline ''/p'' red_trace red_result"
  unfolding red_trace_def red_result_def
  by (rule small_run) (use stages_break [OF small_stage [OF small_replay(2)]] in
    \<open>simp add: fails_run_def small_status small_pipeline_def\<close>)

lemma small_run_status: "pipelineStatus green_result = StatusPassed" "pipelineStatus red_result = StatusFailed"
  by (simp_all add: pipelineStatus_iff green_result_def red_result_def small_result_def small_status)

section \<open>Properties\<close>

text \<open>
  C2. A green pipeline is green for the right reason: when a run's status is Passed,
  every declared stage ran, in order, every job of it has its result in the declared place,
  and every step of every job ran, in order, exited zero and had no fault. Nothing was
  skipped.
\<close>

theorem green_run_complete:
  assumes "Run DockerRunner_Run sink ctx p path tr res" and "pipelineStatus res = StatusPassed"
  shows "map (\<lambda>g. (gr_StageName g, map (\<lambda>j. (jr_JobName j, map sr_StepName (jr_StepResults j))) (gr_JobResults g)))
      (pr_StageResults res) =
    map (\<lambda>g. (stage_Name g, map (\<lambda>j. (job_Name j, map step_Name (job_Steps j))) (stage_Jobs g))) (pipeline_Stages p) \<and>
    (\<forall>g \<in> set (pr_StageResults res). \<forall>j \<in> set (gr_JobResults g). \<forall>s \<in> set (jr_StepResults j).
       sr_Err s = None \<and> sr_ExitCode s = ExitSuccess)"
  using docker.passed_run [OF assms] .

theorem green_run_complete_witness:
  "length (pr_StageResults green_result) = length (pipeline_Stages small_pipeline)"
proof -
  have "length (pr_StageResults green_result) = length (map stage_Name (pipeline_Stages small_pipeline))"
    using green_run_complete [OF green_Run small_run_status(1), THEN conjunct1, THEN arg_cong [where f = length]] by simp
  then show ?thesis by simp
qed

text \<open>
  C8. Stages run one after the other and fail fast: the results are those of a prefix
  of the declared stages, in order, each with its jobs' results in the declared order
  however the jobs interleaved; no stage but the last may be Failed or Errored; and stages
  are left out only because the last one that ran is.
\<close>

theorem fail_fast:
  assumes "Run DockerRunner_Run sink ctx p path tr res"
  shows "map (\<lambda>g. (gr_StageName g, map jr_JobName (gr_JobResults g))) (pr_StageResults res) =
      take (length (pr_StageResults res)) (map (\<lambda>g. (stage_Name g, map job_Name (stage_Jobs g))) (pipeline_Stages p)) \<and>
    (\<forall>g \<in> set (butlast (pr_StageResults res)). stageStatus g \<noteq> StatusFailed \<and> stageStatus g \<noteq> StatusErrored) \<and>
    (length (pr_StageResults res) < length (pipeline_Stages p) \<longrightarrow> pr_StageResults res \<noteq> [] \<and>
      stageStatus (last (pr_StageResults res)) \<in> {StatusFailed, StatusErrored})"
  using docker.run_shape [OF assms] by (auto simp: fails_run_def)

theorem fail_fast_witness:
  "stageStatus (last (pr_StageResults red_result)) \<in> {StatusFailed, StatusErrored}"
  using fail_fast [OF red_Run] by (simp add: red_result_def small_result_def small_pipeline_def)

text \<open>
  A pipeline that came out of a successful load never ends Pending, whatever the
  Docker daemon, the bus and the clock do: its status is Passed, Failed or Errored, and so is
  that of each stage that ran.
\<close>

theorem run_settled:
  assumes "pipeline_ok p" and "Run DockerRunner_Run sink ctx p path tr res"
  shows "pipelineStatus res \<in> {StatusPassed, StatusFailed, StatusErrored} \<and>
    (\<forall>g \<in> set (pr_StageResults res). stageStatus g \<in> {StatusPassed, StatusFailed, StatusErrored})"
  using docker.settled_run [OF assms] .

theorem run_settled_witness: "pipelineStatus red_result \<in> {StatusPassed, StatusFailed, StatusErrored}"
proof -
  have "pipeline_ok small_pipeline" by code_simp
  from run_settled [OF this red_Run] show ?thesis ..
qed

text \<open>
  C23. With the bus enabled a run is bracketed: the first event is the start of the
  pipeline and the last its end, with the status of the result; all events between are those
  of jobs and steps.
\<close>

theorem run_events:
  assumes "Run DockerRunner_Run True ctx p path tr res"
  shows "\<exists>mid. announced (map snd tr) =
      lifecycleEvent EventPipelineStarted 0 (pr_RunID res) (pipeline_Name p) [] [] # mid @
      [lifecycleEvent EventPipelineFinished 0 (pr_RunID res) (pipeline_Name p) [] [(''status'', status_String (pipelineStatus res))]] \<and>
    (\<forall>e \<in> set mid. ev_Type e \<in> {EventJobStarted, EventJobFinished, EventStepStarted, EventStepFinished})"
  using Run_events [OF assms] .

theorem run_events_witness:
  "\<exists>e. last (announced (map snd (fst (demo_run 0)))) = e \<and> ev_Type e = EventPipelineFinished"
  using run_events [OF demo_Run [of 0]] by (auto simp: lifecycleEvent_def)

text \<open>
  C17. Every event published during a run carries the run's ID and the pipeline's
  name, whichever component built it. The record that a job or the pipeline ended goes out
  under a context that cancelling the request does not cancel; all other events, the end of
  a step among them, go out under a context that is cancelled with the request.
\<close>

theorem event_envelope:
  assumes "Run DockerRunner_Run sink ctx p path tr res" and "(l, ObsE (Publish c e) r) \<in> set tr"
  shows "ev_RunID e = pr_RunID res \<and> ev_Pipeline e = pipeline_Name p \<and>
    (inherits_cancel c \<longleftrightarrow> inherits_cancel ctx \<and> ev_Type e \<notin> {EventJobFinished, EventPipelineFinished})"
proof -
  have "event_ok sink ctx (pipeline_Name p) (pr_RunID res) (ObsE (Publish c e) r)"
    using Run_ok [OF assms(1)] assms(2) by (force simp: list_all_iff)
  then show ?thesis by (auto simp: event_ok_def split: if_splits)
qed

text \<open>A run in which the image cannot be pulled.\<close>

definition offline_env :: "nat env" where
  "offline_env = (demo_env 0)\<lparr>ansE := (\<lambda>w c. (case c of ImagePull _ _ \<Rightarrow> Some (External ''offline'') | _ \<Rightarrow> None, Suc w))\<rparr>"

definition offline_run :: "lobs list \<times> pipeline_result \<times> nat" where
  "offline_run = Run_exec offline_env (\<lambda>w. w) DockerRunner_Run True RequestCtx small_pipeline ''/p'' 0"

lemma offline_Run: "Run DockerRunner_Run True RequestCtx small_pipeline ''/p'' (fst offline_run) (fst (snd offline_run))"
  unfolding offline_run_def by (rule Run_exec_Run)

theorem event_envelope_witness:
  "\<exists>c e r. (None, ObsE (Publish c e) r) \<in> set (fst offline_run) \<and> ev_RunID e = pr_RunID (fst (snd offline_run)) \<and>
     inherits_cancel c"
proof -
  have mem: "(None, ObsE (Publish RequestCtx
      (lifecycleEvent EventPipelineStarted 2 ''run-1-61626364'' ''ci'' [] [])) None) \<in> set (fst offline_run)"
    by code_simp
  from event_envelope [OF offline_Run mem] mem show ?thesis
    by (force simp: lifecycleEvent_def event_type_defs)
qed

text \<open>
  C22. However the jobs of a stage interleave, each job's own events are: its start
  with the stage's name, then those of its steps, whose finished events are exactly the step
  results in its place of the stage result, then its end with the status of that result.
\<close>

theorem job_events:
  assumes "runStage DockerRunner_Run True ctx stage pn rid path tr r" and "i < length (stage_Jobs stage)"
  shows "\<exists>steps. announced (job_calls i tr) =
      lifecycleEvent EventJobStarted 0 rid pn (job_Name (stage_Jobs stage ! i)) [(''stage'', stage_Name stage)] # steps @
      [lifecycleEvent EventJobFinished 0 rid pn (job_Name (stage_Jobs stage ! i))
        [(''status'', status_String (jobStatus (gr_JobResults r ! i)))]] \<and>
    filter (\<lambda>e. ev_Type e = EventStepFinished) steps =
      map (\<lambda>s. (stepFinishedEvent (job_Name (stage_Jobs stage ! i)) s 0)\<lparr>ev_Pipeline := pn, ev_RunID := rid\<rparr>)
        (jr_StepResults (gr_JobResults r ! i))"
  using assms(1)
proof (cases rule: runStage.cases)
  case (1 ptr jrs start stop)
  have "replay (runJob DockerRunner_Run True (GroupCtx ctx) (stage_Name stage) pn rid path (stage_Jobs stage ! i))
      (job_calls i tr) = Some (gr_JobResults r ! i)"
    using par_run_own [OF 1(3)] assms(2) by (simp add: 1(1,2) stageJobs_def)
  from runJob_events [OF this] show ?thesis by (auto simp: step_announcements_def)
qed

theorem job_events_witness:
  "\<exists>tr r. announced (job_calls 1 tr) \<noteq> [] \<and> gr_StageName r = ''check'' \<and>
     runStage DockerRunner_Run True RequestCtx (hd (pipeline_Stages demo_pipeline)) ''ci'' ''run'' ''/p'' tr r"
proof -
  let ?g = "hd (pipeline_Stages demo_pipeline)"
  obtain tr r w where "runStage_exec (demo_env 0) (\<lambda>w. w) DockerRunner_Run True RequestCtx ?g ''ci'' ''run'' ''/p'' 0 = (tr, r, w)"
    by (metis surj_pair)
  then have run: "runStage DockerRunner_Run True RequestCtx ?g ''ci'' ''run'' ''/p'' tr r" by (rule runStage_exec_run)
  have "1 < length (stage_Jobs ?g)" by (simp add: demo_pipeline_def)
  from job_events [OF run this] have "announced (job_calls 1 tr) \<noteq> []" by auto
  then show ?thesis using run runStage_name [OF run] by (auto simp: demo_pipeline_def)
qed

text \<open>
  C24. The event bus never influences a run: changing the answers to
  \<open>Publish\<close> in any way gives a run with the same calls and the same result.
\<close>

theorem bus_independence:
  assumes "Run DockerRunner_Run sink ctx p path tr res"
  shows "Run DockerRunner_Run sink ctx p path (relabel (\<lambda>c e. answer_of c e) tr) res"
  using Run_deaf [OF assms] .

theorem bus_independence_witness:
  "Run DockerRunner_Run True RequestCtx small_pipeline ''/p''
     (relabel (\<lambda>c e. Some (External ''redis down'')) (fst offline_run)) (fst (snd offline_run))"
  by (rule bus_independence [OF offline_Run])


end
