(* ===== verification/Logging.thy ===== *)
theory Logging
  imports OrchestratorSafety
begin

text \<open>
  Contexts and loggers of a job (\<open>internal/common/logging.go\<close>, and the loggers that
  \<open>RunPipeline\<close>, \<open>runStage\<close> and the runner derive): under which contexts a job makes its calls, and
  which logger is attached to them. A logger is a handler, which is a parameter, with attributes.
\<close>

section \<open>Loggers\<close>

text \<open>No handler stands for \<open>slog.DiscardHandler\<close>.\<close>

record 'h logger =
  lg_Handler :: "'h option"
  lg_Attrs :: "(string \<times> string) list"

definition With :: "'h logger \<Rightarrow> string \<Rightarrow> string \<Rightarrow> 'h logger" where
  "With l k v = l\<lparr>lg_Attrs := lg_Attrs l @ [(k, v)]\<rparr>"

text \<open>
  A nil logger becomes one that discards, in \<open>Server.logger\<close>, \<open>orchestrator.New\<close> and
  \<open>NewDockerRunner\<close>.
\<close>

definition orDiscard :: "'h logger option \<Rightarrow> 'h logger" where
  "orDiscard l = (case l of None \<Rightarrow> \<lparr>lg_Handler = None, lg_Attrs = []\<rparr> | Some l \<Rightarrow> l)"

definition serverLogger :: "'h logger option \<Rightarrow> 'h logger" where "serverLogger l = orDiscard l"
definition orchestratorLogger :: "'h logger option \<Rightarrow> 'h logger" where "orchestratorLogger l = orDiscard l"
definition runnerLogger :: "'h logger option \<Rightarrow> 'h logger" where "runnerLogger l = orDiscard l"

definition requestLogger :: "'h logger option \<Rightarrow> string \<Rightarrow> 'h logger" where
  "requestLogger l projectPath = With (serverLogger l) ''project_path'' projectPath"

definition stageLogger :: "'h logger \<Rightarrow> string \<Rightarrow> 'h logger" where
  "stageLogger l stage = With l ''stage'' stage"

definition jobLogger :: "'h logger \<Rightarrow> string \<Rightarrow> 'h logger" where
  "jobLogger l job = With l ''job'' job"

section \<open>Loggers of contexts\<close>

text \<open>
  The values of a context. A context derived by a cancellation, a deadline or \<open>WithoutCancel\<close> has those of its
  parent.
\<close>

datatype 'h ctx_values = NoValues | LoggerValue "'h ctx_values" "'h logger"

definition ContextWithLogger :: "'h ctx_values \<Rightarrow> 'h logger \<Rightarrow> 'h ctx_values" where
  "ContextWithLogger ctx l = LoggerValue ctx l"

definition LoggerFromContext :: "'h ctx_values \<Rightarrow> 'h logger \<Rightarrow> 'h logger" where
  "LoggerFromContext ctx fallback = (case ctx of LoggerValue c l \<Rightarrow> l | NoValues \<Rightarrow> fallback)"

text \<open>
  The values of a context of the model, given those of the job's context, which \<open>runStage\<close> makes from
  the context of its group.
\<close>

fun values_of :: "'h ctx_values \<Rightarrow> ctx \<Rightarrow> 'h ctx_values" where
  "values_of v Background = NoValues"
| "values_of v RequestCtx = NoValues"
| "values_of v (GroupCtx c) = v"
| "values_of v (TimeoutCtx c d) = values_of v c"
| "values_of v (WithoutCancel c) = values_of v c"

definition loggerFromCtx :: "'h logger option \<Rightarrow> 'h ctx_values \<Rightarrow> ctx \<Rightarrow> 'h logger" where
  "loggerFromCtx given v ctx = LoggerFromContext (values_of v ctx) (runnerLogger given)"

section \<open>Contexts of calls\<close>

fun call_ctx :: "obs \<Rightarrow> ctx option" where
  "call_ctx (ObsE (ImagePull c i) r) = Some c"
| "call_ctx (ObsE (CopyToContainer c i p b) r) = Some c"
| "call_ctx (ObsE (ContainerStart c i) r) = Some c"
| "call_ctx (ObsE (ContainerRemove c i f v) r) = Some c"
| "call_ctx (ObsE (ExecAttach c i) r) = Some c"
| "call_ctx (ObsE (Publish c e) r) = Some c"
| "call_ctx (ObsE (CtxErr c) r) = Some c"
| "call_ctx (ObsS (ContainerCreate c opts) s) = Some c"
| "call_ctx (ObsS (ExecCreate c i opts) s) = Some c"
| "call_ctx (ObsI (ExecInspect c i) n) = Some c"
| "call_ctx _ = None"

text \<open>
  The contexts of a job: its own, one with a deadline for a step, or, to remove the container, that of the teardown.
\<close>

definition job_ctx :: "ctx \<Rightarrow> obs \<Rightarrow> bool" where
  "job_ctx ctx ob \<longleftrightarrow> (\<forall>c. call_ctx ob = Some c \<longrightarrow> c = ctx \<or> (\<exists>d. c = TimeoutCtx ctx d) \<or>
     c = teardownCtx ctx \<and> (\<exists>cid r. ob = ObsE (ContainerRemove c cid True True) r))"

lemma job_ctx_simps [simp]:
  "job_ctx ctx (ObsE (ImagePull ctx i) r)" "job_ctx ctx (ObsE (CopyToContainer ctx i p b) r)" "job_ctx ctx (ObsE (ContainerStart ctx i) r)"
  "job_ctx ctx (ObsE (ContainerRemove ctx i f v) r)" "job_ctx ctx (ObsE (ContainerRemove (teardownCtx ctx) i True True) r)"
  "job_ctx ctx (ObsE (ReadPullBody i) r)" "job_ctx ctx (ObsE (ClosePullBody i) r)" "job_ctx ctx (ObsE (CloseAttach i) r)"
  "job_ctx ctx (ObsE (Publish ctx e) r)" "job_ctx ctx (ObsE (CtxErr ctx) r)"
  "job_ctx ctx (ObsS (ContainerCreate ctx opts) s)" "job_ctx ctx (ObsS (CreateArchive p) s)" "job_ctx ctx (ObsO c3 o3)" "job_ctx ctx (ObsT t)"
  by (auto simp: job_ctx_def)

lemma job_ctx_exec [simp]:
  "c = ctx \<or> (\<exists>d. c = TimeoutCtx ctx d) \<Longrightarrow> job_ctx ctx (ObsS (ExecCreate c i eo) s)"
  "c = ctx \<or> (\<exists>d. c = TimeoutCtx ctx d) \<Longrightarrow> job_ctx ctx (ObsE (ExecAttach c i) r)"
  "c = ctx \<or> (\<exists>d. c = TimeoutCtx ctx d) \<Longrightarrow> job_ctx ctx (ObsI (ExecInspect c i) n)"
  by (auto simp: job_ctx_def)

lemma execCommand_ctx: "c = ctx \<or> (\<exists>d. c = TimeoutCtx ctx d) \<Longrightarrow> calls_only (job_ctx ctx) (execCommand c cid cmd env)"
  unfolding execCommand_def by (intro beh_intros) simp_all

lemma emitStep_ctx: "calls_only (job_ctx ctx) (emitStep ctx ev e)"
  by (cases ev) (auto simp: emitStep_def stampedSink_Publish_def intro!: beh_intros)

lemma runStep_ctx: "calls_only (job_ctx ctx) (runStep ctx cid j ev step)"
  unfolding runStep_def settleStep_def envReadFault_def emitFinished_def readExportedEnv_def Let_def
  by (intro beh_intros emitStep_ctx execCommand_ctx) (auto simp: stepContext_def)

lemma runStepsFrom_ctx: "calls_only (job_ctx ctx) (runStepsFrom ctx cid j ev acc steps)"
  by (induction steps arbitrary: acc) (auto intro!: beh_intros runStep_ctx)

lemma runSetupCommands_ctx: "calls_only (job_ctx ctx) (runSetupCommands ctx cid cmds)"
proof (induction cmds)
  case (Cons c cmds)
  show ?case unfolding runSetupCommands.simps by (intro beh_intros Cons.IH execCommand_ctx) simp_all
qed (simp add: beh_intros)

lemma job_contexts_only: "calls_only (job_ctx ctx) (DockerRunner_Run ctx job path ev)"
  unfolding DockerRunner_Run_def pullImage_def createContainer_def mountArchive_def removeContainer_def runInContainer_def
    runSetup_def runSteps_def Let_def
  by (intro beh_intros runStepsFrom_ctx runSetupCommands_ctx execCommand_ctx) simp_all

section \<open>Properties\<close>



end
