(* ===== verification/ProtoMapping.thy ===== *)
theory ProtoMapping
  imports Domain Unicode
begin

text \<open>
  The response (\<open>internal/server/mapping.go\<close>; messages of
  \<open>api/v1/odyssey.proto\<close>): the domain result tree as protobuf messages. Exit codes
  become 32-bit, durations milliseconds, errors their text.
\<close>

section \<open>Messages\<close>

datatype proto_status =
    STATUS_UNSPECIFIED | STATUS_PENDING | STATUS_RUNNING | STATUS_PASSED | STATUS_FAILED | STATUS_SKIPPED
  | STATUS_ERRORED

record proto_step =
  ps_StepName :: string
  ps_ExitCode :: "32 word"
  ps_Status :: proto_status
  ps_Stdout :: string
  ps_Stderr :: string
  ps_Error :: string
  ps_DurationMs :: goint

record proto_job =
  pj_JobName :: string
  pj_Status :: proto_status
  pj_StepResults :: "proto_step list"
  pj_Error :: string
  pj_DurationMs :: goint

record proto_stage =
  pg_StageName :: string
  pg_Status :: proto_status
  pg_JobResults :: "proto_job list"
  pg_DurationMs :: goint

record RunPipelineResponse =
  rp_PipelineName :: string
  rp_Status :: proto_status
  rp_StageResults :: "proto_stage list"
  rp_DurationMs :: goint

section \<open>The conversion\<close>

definition domainStatusToProto :: "status \<Rightarrow> proto_status" where
  "domainStatusToProto s =
     (if s = StatusPassed then STATUS_PASSED
      else if s = StatusFailed then STATUS_FAILED
      else if s = StatusErrored then STATUS_ERRORED
      else if s = StatusPending then STATUS_PENDING
      else if s = StatusRunning then STATUS_RUNNING
      else if s = StatusSkipped then STATUS_SKIPPED
      else STATUS_UNSPECIFIED)"

text \<open>\<open>errorText\<close> is \<open>Error()\<close>; the field of a nil error is left empty.\<close>

definition domainStepResultToProto :: "(go_error \<Rightarrow> string) \<Rightarrow> step_result \<Rightarrow> proto_step" where
  "domainStepResultToProto errorText r =
     (let p = \<lparr>ps_StepName = sr_StepName r, ps_ExitCode = ucast (sr_ExitCode r), ps_Status = domainStatusToProto (stepStatus r),
               ps_Stdout = sr_Stdout r, ps_Stderr = sr_Stderr r, ps_Error = [], ps_DurationMs = milliseconds (sr_Duration r)\<rparr>
      in case sr_Err r of None \<Rightarrow> p | Some e \<Rightarrow> p\<lparr>ps_Error := errorText e\<rparr>)"

definition domainJobResultToProto :: "(go_error \<Rightarrow> string) \<Rightarrow> job_result \<Rightarrow> proto_job" where
  "domainJobResultToProto errorText r =
     (let p = \<lparr>pj_JobName = jr_JobName r, pj_Status = domainStatusToProto (jobStatus r),
               pj_StepResults = map (domainStepResultToProto errorText) (jr_StepResults r), pj_Error = [],
               pj_DurationMs = milliseconds (jobDuration r)\<rparr>
      in case jr_SetupErr r of None \<Rightarrow> p | Some e \<Rightarrow> p\<lparr>pj_Error := errorText e\<rparr>)"

definition domainStageResultToProto :: "(go_error \<Rightarrow> string) \<Rightarrow> stage_result \<Rightarrow> proto_stage" where
  "domainStageResultToProto errorText r =
     \<lparr>pg_StageName = gr_StageName r, pg_Status = domainStatusToProto (stageStatus r),
      pg_JobResults = map (domainJobResultToProto errorText) (gr_JobResults r), pg_DurationMs = milliseconds (gr_Duration r)\<rparr>"

definition domainPipelineResultToProto :: "(go_error \<Rightarrow> string) \<Rightarrow> pipeline_result \<Rightarrow> RunPipelineResponse" where
  "domainPipelineResultToProto errorText r =
     \<lparr>rp_PipelineName = pr_PipelineName r, rp_Status = domainStatusToProto (pipelineStatus r),
      rp_StageResults = map (domainStageResultToProto errorText) (pr_StageResults r), rp_DurationMs = milliseconds (pr_Duration r)\<rparr>"

section \<open>Reading a response\<close>

text \<open>
  What a client can reconstruct: the result with durations cut to milliseconds, errors
  reduced to their text, and no run ID, which the response does not carry.
\<close>

definition readStep :: "proto_step \<Rightarrow> step_result" where
  "readStep p = \<lparr>sr_StepName = ps_StepName p, sr_Stdout = ps_Stdout p, sr_Stderr = ps_Stderr p, sr_ExitCode = scast (ps_ExitCode p),
     sr_Duration = ps_DurationMs p * 1000000, sr_Err = (if ps_Status p = STATUS_ERRORED then Some (External (ps_Error p)) else None)\<rparr>"

definition readJob :: "proto_job \<Rightarrow> job_result" where
  "readJob p = \<lparr>jr_JobName = pj_JobName p, jr_StepResults = map readStep (pj_StepResults p),
     jr_SetupErr = (if pj_Status p = STATUS_ERRORED \<and> pj_StepResults p = [] then Some (External (pj_Error p)) else None)\<rparr>"

definition readStage :: "proto_stage \<Rightarrow> stage_result" where
  "readStage p = \<lparr>gr_StageName = pg_StageName p, gr_JobResults = map readJob (pg_JobResults p), gr_Duration = pg_DurationMs p * 1000000\<rparr>"

definition readResponse :: "RunPipelineResponse \<Rightarrow> pipeline_result" where
  "readResponse p = \<lparr>pr_RunID = [], pr_Duration = rp_DurationMs p * 1000000, pr_PipelineName = rp_PipelineName p,
     pr_StageResults = map readStage (rp_StageResults p)\<rparr>"

definition whole_ms :: "duration \<Rightarrow> duration" where "whole_ms d = milliseconds d * 1000000"

definition reduce_step :: "(go_error \<Rightarrow> string) \<Rightarrow> step_result \<Rightarrow> step_result" where
  "reduce_step et r = r\<lparr>sr_Duration := whole_ms (sr_Duration r), sr_Err := map_option (\<lambda>e. External (et e)) (sr_Err r)\<rparr>"

definition reduce_job :: "(go_error \<Rightarrow> string) \<Rightarrow> job_result \<Rightarrow> job_result" where
  "reduce_job et r = r\<lparr>jr_StepResults := map (reduce_step et) (jr_StepResults r),
     jr_SetupErr := map_option (\<lambda>e. External (et e)) (jr_SetupErr r)\<rparr>"

definition reduce_stage :: "(go_error \<Rightarrow> string) \<Rightarrow> stage_result \<Rightarrow> stage_result" where
  "reduce_stage et r = r\<lparr>gr_JobResults := map (reduce_job et) (gr_JobResults r), gr_Duration := whole_ms (gr_Duration r)\<rparr>"

definition reduce_result :: "(go_error \<Rightarrow> string) \<Rightarrow> pipeline_result \<Rightarrow> pipeline_result" where
  "reduce_result et r = r\<lparr>pr_RunID := [], pr_Duration := whole_ms (pr_Duration r),
     pr_StageResults := map (reduce_stage et) (pr_StageResults r)\<rparr>"

text \<open>The results that fit: exit codes of 32 bits, and no step results beside a setup error.\<close>

definition code_fits :: "step_result \<Rightarrow> bool" where
  "code_fits r \<longleftrightarrow> - (2 ^ 31) \<le> sint (sr_ExitCode r) \<and> sint (sr_ExitCode r) < 2 ^ 31"

definition job_fits :: "job_result \<Rightarrow> bool" where
  "job_fits r \<longleftrightarrow> list_all code_fits (jr_StepResults r) \<and> (jr_SetupErr r \<noteq> None \<longrightarrow> jr_StepResults r = [])"

definition result_fits :: "pipeline_result \<Rightarrow> bool" where
  "result_fits r \<longleftrightarrow> list_all (\<lambda>g. list_all job_fits (gr_JobResults g)) (pr_StageResults r)"

lemma toProto_eq [simp]:
  "domainStatusToProto s = STATUS_PASSED \<longleftrightarrow> s = StatusPassed"
  "domainStatusToProto s = STATUS_FAILED \<longleftrightarrow> s = StatusFailed"
  "domainStatusToProto s = STATUS_ERRORED \<longleftrightarrow> s = StatusErrored"
  "domainStatusToProto s = STATUS_PENDING \<longleftrightarrow> s = StatusPending"
  by (auto simp: domainStatusToProto_def status_defs)

lemma sint_int32: "sint (ucast (w :: goint) :: 32 word) = signed_take_bit 31 (sint w)"
  by transfer (simp add: signed_take_bit_take_bit)

lemma int32_roundtrip: "code_fits r \<Longrightarrow> scast (ucast (sr_ExitCode r) :: 32 word) = sr_ExitCode r"
proof (rule signed_word_eqI)
  assume "code_fits r"
  then have "signed_take_bit 31 (sint (sr_ExitCode r)) = sint (sr_ExitCode r)"
    by (intro signed_take_bit_int_eq_self) (auto simp: code_fits_def)
  moreover have "sint (scast (ucast (sr_ExitCode r) :: 32 word) :: goint) = sint (ucast (sr_ExitCode r) :: 32 word)"
    by (rule sint_up_scast) (simp add: is_up)
  ultimately show "sint (scast (ucast (sr_ExitCode r) :: 32 word) :: goint) = sint (sr_ExitCode r)"
    by (simp add: sint_int32)
qed

lemma readStep_toProto: "code_fits r \<Longrightarrow> readStep (domainStepResultToProto et r) = reduce_step et r"
  by (cases "sr_Err r") (simp_all add: readStep_def domainStepResultToProto_def reduce_step_def whole_ms_def int32_roundtrip
      stepStatus_def Let_def)

lemma readJob_toProto: "job_fits r \<Longrightarrow> readJob (domainJobResultToProto et r) = reduce_job et r"
proof -
  assume fits: "job_fits r"
  have "map readStep (map (domainStepResultToProto et) (jr_StepResults r)) = map (reduce_step et) (jr_StepResults r)"
    using fits by (simp add: job_fits_def list_all_iff readStep_toProto)
  then show ?thesis using fits
    by (cases "jr_SetupErr r") (auto simp: readJob_def domainJobResultToProto_def reduce_job_def Let_def job_fits_def jobStatus_def)
qed

lemma readResponse_toProto: "result_fits r \<Longrightarrow> readResponse (domainPipelineResultToProto et r) = reduce_result et r"
  by (auto simp: readResponse_def domainPipelineResultToProto_def reduce_result_def readStage_def domainStageResultToProto_def
      reduce_stage_def whole_ms_def result_fits_def list_all_iff readJob_toProto)

text \<open>What a client would compute from its reconstruction is the status the response carries.\<close>

lemma reduce_status [simp]:
  "stepStatus (reduce_step et s) = stepStatus s" "jobStatus (reduce_job et j) = jobStatus j"
  "stageStatus (reduce_stage et g) = stageStatus g" "pipelineStatus (reduce_result et p) = pipelineStatus p"
proof -
  show s: "stepStatus (reduce_step et s) = stepStatus s" for s by (simp add: stepStatus_def reduce_step_def)
  show j: "jobStatus (reduce_job et j) = jobStatus j" for j by (simp add: jobStatus_aggregate reduce_job_def s comp_def)
  show g: "stageStatus (reduce_stage et g) = stageStatus g" for g by (simp add: stageStatus_aggregate reduce_stage_def j comp_def)
  show "pipelineStatus (reduce_result et p) = pipelineStatus p"
    by (simp add: pipelineStatus_aggregate reduce_result_def g comp_def)
qed

section \<open>Durations\<close>

definition ms :: "duration \<Rightarrow> int" where "ms d = sint (milliseconds d)"

lemma ms_eq: "ms d = sint d sdiv 1000000"
proof -
  have "in_int64 (sint d sdiv 1000000)"
    using in_int64_sint [of d]
    by (cases "0 \<le> sint d") (auto simp: in_int64_def min_int64_def max_int64_def signed_divide_int_def sgn_if abs_if)
  then show ?thesis by (simp add: ms_def milliseconds_def sint_of_int64)
qed

lemma ms_nonneg: "0 \<le> sint d \<Longrightarrow> ms d = sint d div 1000000"
  by (simp add: ms_eq signed_divide_int_def sgn_if)

text \<open>The duration of a job, while the sum fits.\<close>

lemma jobDuration_sum:
  assumes "\<forall>s \<in> set (jr_StepResults r). 0 \<le> sint (sr_Duration s)"
    and "(\<Sum>s \<leftarrow> jr_StepResults r. sint (sr_Duration s)) < 2 ^ 63"
  shows "sint (jobDuration r) = (\<Sum>s \<leftarrow> jr_StepResults r. sint (sr_Duration s))"
proof -
  have "foldl (\<lambda>d s. d + sr_Duration s) (word_of_int a) ss = (word_of_int (a + (\<Sum>s \<leftarrow> ss. sint (sr_Duration s))) :: goint)" for a and ss :: "step_result list"
  proof (induction ss arbitrary: a)
    case (Cons s ss)
    have "(word_of_int a + sr_Duration s :: goint) = word_of_int (a + sint (sr_Duration s))" by simp
    then show ?case by (simp add: Cons.IH add.assoc del: of_int_add)
  qed simp
  from this [of 0 "jr_StepResults r"] have eq: "jobDuration r = word_of_int (\<Sum>s \<leftarrow> jr_StepResults r. sint (sr_Duration s))"
    by (simp add: jobDuration_def)
  have "0 \<le> (\<Sum>s \<leftarrow> jr_StepResults r. sint (sr_Duration s))"
    using assms(1) by (intro sum_list_nonneg) auto
  then show ?thesis using assms(2) unfolding eq
    by (intro sint_of_int64) (simp add: in_int64_def min_int64_def max_int64_def)
qed

lemma sum_div_bounds:
  fixes f :: "'a \<Rightarrow> int"
  assumes "\<forall>x \<in> set xs. 0 \<le> f x" and "0 < k"
  shows "(\<Sum>x \<leftarrow> xs. f x div k) \<le> (\<Sum>x \<leftarrow> xs. f x) div k \<and> (\<Sum>x \<leftarrow> xs. f x) div k \<le> (\<Sum>x \<leftarrow> xs. f x div k) + int (length xs)"
  using assms(1)
proof (induction xs)
  case (Cons x xs)
  let ?s = "\<Sum>y \<leftarrow> xs. f y"
  have eq: "f x + ?s = (f x mod k + ?s mod k) + k * (f x div k + ?s div k)"
    using mod_mult_div_eq [of "f x" k] mod_mult_div_eq [of ?s k] by (simp add: algebra_simps)
  have "(f x + ?s) div k = f x div k + ?s div k + (f x mod k + ?s mod k) div k"
    using assms(2) unfolding eq by simp
  moreover have "0 \<le> (f x mod k + ?s mod k) div k" using assms(2) by (simp add: pos_imp_zdiv_nonneg_iff)
  moreover have "(f x mod k + ?s mod k) div k < 2"
  proof -
    have "f x mod k + ?s mod k < 2 * k" using pos_mod_bound [OF assms(2), of "f x"] pos_mod_bound [OF assms(2), of ?s] by simp
    then have "(f x mod k + ?s mod k) div k \<le> (2 * k - 1) div k" using assms(2) by (intro zdiv_mono1) simp_all
    also have "(2 * k - 1) div k = 1" using assms(2) by (intro div_pos_geq [THEN trans]) (simp_all add: div_pos_pos_trivial)
    finally show ?thesis by simp
  qed
  ultimately show ?case using Cons by simp
qed simp

end
