(* ===== verification/Server.thy ===== *)
theory Server
  imports Paths ProtoMapping Orchestrator
begin

text \<open>
  The gRPC service (\<open>internal/server/server.go\<close>): \<open>RunPipeline\<close> confines the
  request to the project root, loads the pipeline, runs it and converts the result. The
  contents of \<open>ODYSSEY_PROJECT_ROOT\<close>, the working directory and the configuration files
  are parameters. \<open>logger\<close> and the log lines are left out.
\<close>

datatype rpc_code = InvalidArgument | Internal

text \<open>The error of \<open>status.Errorf\<close>: its code and the pieces of its message.\<close>

type_synonym rpc_error = "rpc_code \<times> go_error piece list"

record server =
  srv_Runner :: "runner option"
  srv_Events :: bool

definition emptyResponse :: RunPipelineResponse where
  "emptyResponse = \<lparr>rp_PipelineName = [], rp_Status = STATUS_UNSPECIFIED, rp_StageResults = [], rp_DurationMs = 0\<rparr>"

text \<open>The part of \<open>RunPipeline\<close> before the run: the reason to refuse the request, or what to run.\<close>

definition admitRequest :: "go_error + string \<Rightarrow> string \<Rightarrow> config_files \<Rightarrow> server \<Rightarrow> string \<Rightarrow> rpc_error + go_pipeline \<times> runner" where
  "admitRequest getwd root fs s projectPath =
     (if root \<noteq> [] \<and> \<not> projectPathAllowed getwd root projectPath
      then Inl (InvalidArgument, [Lit ''project_path '', Quoted projectPath, Lit '' is outside the configured project root''])
      else case Load fs projectPath of
             Inl err \<Rightarrow> Inl (InvalidArgument, [Lit ''failed to load config: '', Wrapped err])
           | Inr pipeline \<Rightarrow>
               (case srv_Runner s of
                  None \<Rightarrow> Inl (Internal, [Lit ''no runner configured''])
                | Some r \<Rightarrow> Inr (pipeline, r)))"

inductive RunPipeline :: "(go_error \<Rightarrow> string) \<Rightarrow> go_error + string \<Rightarrow> string \<Rightarrow> config_files \<Rightarrow> server \<Rightarrow> ctx \<Rightarrow> string \<Rightarrow>
    lobs list \<Rightarrow> RunPipelineResponse \<times> rpc_error option \<Rightarrow> bool"
  for errorText getwd root fs s ctx projectPath where
  refused: "admitRequest getwd root fs s projectPath = Inl err \<Longrightarrow>
    RunPipeline errorText getwd root fs s ctx projectPath [] (emptyResponse, Some err)"
| served: "admitRequest getwd root fs s projectPath = Inr (pipeline, r) \<Longrightarrow>
    Run r (srv_Events s) ctx pipeline projectPath tr pipelineResult \<Longrightarrow>
    RunPipeline errorText getwd root fs s ctx projectPath tr (domainPipelineResultToProto errorText pipelineResult, None)"

inductive_cases RunPipelineE: "RunPipeline errorText getwd root fs s ctx projectPath tr res"
inductive_simps RunPipeline_iff: "RunPipeline errorText getwd root fs s ctx projectPath tr (resp, err)"

section \<open>Admission\<close>

lemma admit_Inr:
  "admitRequest getwd root fs s path = Inr (p, r) \<longleftrightarrow>
     (root = [] \<or> projectPathAllowed getwd root path) \<and> Load fs path = Inr p \<and> srv_Runner s = Some r"
  by (auto simp: admitRequest_def split: sum.splits option.splits)

lemma admit_Inl:
  "admitRequest getwd root fs s path = Inl (code, msg) \<Longrightarrow>
     (code = Internal \<longleftrightarrow> (root = [] \<or> projectPathAllowed getwd root path) \<and> (\<exists>p. Load fs path = Inr p) \<and> srv_Runner s = None)"
  by (auto simp: admitRequest_def split: if_splits sum.splits option.splits)

text \<open>A loaded pipeline is well formed: the decoder gives a map, whose keys are distinct.\<close>

definition decodes_maps :: "config_files \<Rightarrow> bool" where
  "decodes_maps fs \<longleftrightarrow> (\<forall>p m ks. decodeRoot fs p = Inr (m, ks) \<longrightarrow> gm_ok (rc_Jobs m))"

lemma Load_pipeline_ok: "decodes_maps fs \<Longrightarrow> Load fs path = Inr p \<Longrightarrow> pipeline_ok p"
  unfolding Load_Inr Validate_iff ReadToml_Inr decodes_maps_def by (blast intro: translate_ok)

text \<open>The configuration files of a request that was admitted lie below the project root.\<close>

definition request_files :: "string \<Rightarrow> string list" where
  "request_files path =
     (let odysseyPath = JoinPath path odysseyDir in [JoinPath odysseyPath pipelineFile, JoinPath odysseyPath envFile])"

lemma config_names_resolved [simp]: "resolved odysseyDir" "resolved pipelineFile" "resolved envFile"
  by code_simp+

lemma request_files_below:
  "prefix base (resolve wd path) \<Longrightarrow> f \<in> set (request_files path) \<Longrightarrow> prefix base (resolve wd f)"
  by (auto simp: request_files_def Let_def resolve_JoinPath)

text \<open>\<open>Load\<close> reads no other files.\<close>

lemma Load_cong:
  assumes "\<forall>f \<in> set (request_files path). decodeRoot fs f = decodeRoot fs' f \<and> decodeEnv fs f = decodeEnv fs' f \<and>
    statNotExist fs f = statNotExist fs' f"
  shows "Load fs path = Load fs' path"
proof -
  have eqs: "loadEnv fs (JoinPath path odysseyDir) = loadEnv fs' (JoinPath path odysseyDir)"
    "ReadToml (decodeRoot fs) (JoinPath (JoinPath path odysseyDir) pipelineFile) =
      ReadToml (decodeRoot fs') (JoinPath (JoinPath path odysseyDir) pipelineFile)"
    using assms by (simp_all add: request_files_def Let_def loadEnv_def ReadToml_def)
  show ?thesis unfolding Load_def Let_def eqs ..
qed

end
