(* ===== verification/ServerProperties.thy ===== *)
theory ServerProperties
  imports Server OrchestratorSafety
begin

text \<open>
  The properties of the gRPC service with the Docker runner: which requests are refused and
  how, what a response says about the run, and where a request can reach.
\<close>

section \<open>What is copied into the containers\<close>

text \<open>The only directory that a run archives is the one of the request.\<close>

definition mounts :: "string \<Rightarrow> obs \<Rightarrow> bool" where
  "mounts path ob = (case ob of ObsS c r \<Rightarrow> (case c of CreateArchive q \<Rightarrow> q = path | _ \<Rightarrow> True) | _ \<Rightarrow> True)"

lemma mounts_simps [simp]:
  "mounts path (ObsE x1 r1)" "mounts path (ObsO x2 r2)" "mounts path (ObsI x3 r3)" "mounts path (ObsT t)"
  "mounts path (ObsS (CreateArchive q) r) \<longleftrightarrow> q = path" "mounts path (ObsS (ContainerCreate c co) r)"
  "mounts path (ObsS (ExecCreate c cid eo) r)" "mounts path (ObsS (RandRead n) r)"
  by (simp_all add: mounts_def)

lemma emitStep_mounts: "calls_only (mounts path) (emitStep ctx ev e)"
  by (cases ev) (auto simp: emitStep_def stampedSink_Publish_def intro!: beh_intros)

lemma runStep_mounts: "calls_only (mounts path) (runStep ctx cid j ev step)"
  unfolding step_defs by (intro beh_intros emitStep_mounts) simp_all

lemma runStepsFrom_mounts: "calls_only (mounts path) (runStepsFrom ctx cid j ev acc steps)"
  by (induction steps arbitrary: acc) (auto intro!: beh_intros runStep_mounts)

lemma runSetupCommands_mounts: "calls_only (mounts path) (runSetupCommands ctx cid cmds)"
proof (induction cmds)
  case (Cons c cmds)
  show ?case unfolding runSetupCommands.simps runner_defs by (intro beh_intros Cons.IH) simp_all
qed (simp add: beh_intros)

lemma runner_mounts: "calls_only (mounts path) (DockerRunner_Run ctx job path ev)"
  unfolding runner_defs by (intro beh_intros runStepsFrom_mounts runSetupCommands_mounts) simp_all

lemma emit_mounts: "calls_only (mounts path) (emit sink c e)"
  unfolding emit_def by (intro beh_intros) simp_all

lemma runJob_mounts: "calls_only (mounts path) (runJob DockerRunner_Run sink c sn pn rid path job)"
  unfolding runJob_def by (intro beh_intros emit_mounts runner_mounts) simp_all

lemma runStart_mounts: "calls_only (mounts path) (runStart sink ctx p)"
  unfolding runStart_def newRunID_def by (intro beh_intros emit_mounts) simp_all

lemma runFinish_mounts: "calls_only (mounts path) (runFinish sink ctx p rid start rs)"
  unfolding runFinish_def Let_def by (intro beh_intros emit_mounts) simp_all

lemma Run_mounts:
  assumes "Run DockerRunner_Run sink ctx p path tr res"
  shows "list_all (\<lambda>l. mounts path (snd l)) tr"
  using assms
proof (cases rule: Run.cases)
  case (1 tr1 rid start tr2 rs tr3)
  have "list_all (mounts path) tr1" "list_all (mounts path) tr3"
    using specD [OF runStart_mounts [unfolded calls_only_def] 1(2)] specD [OF runFinish_mounts [unfolded calls_only_def] 1(4)] .
  then show ?thesis using runStages_all [OF runJob_mounts mounts_simps(4) 1(3)] 1(1) by (simp add: by_main_all)
qed

section \<open>The statuses of a response\<close>

lemma response_status:
  "rp_Status (domainPipelineResultToProto et res) = domainStatusToProto (pipelineStatus res)"
  by (simp add: domainPipelineResultToProto_def)

text \<open>The names in a response, stage by stage and job by job.\<close>

definition response_names :: "RunPipelineResponse \<Rightarrow> (string \<times> (string \<times> string list) list) list" where
  "response_names resp = map (\<lambda>g. (pg_StageName g, map (\<lambda>j. (pj_JobName j, map ps_StepName (pj_StepResults j))) (pg_JobResults g)))
     (rp_StageResults resp)"

definition pipeline_names :: "go_pipeline \<Rightarrow> (string \<times> (string \<times> string list) list) list" where
  "pipeline_names p = map (\<lambda>g. (stage_Name g, map (\<lambda>j. (job_Name j, map step_Name (job_Steps j))) (stage_Jobs g))) (pipeline_Stages p)"

definition response_steps :: "RunPipelineResponse \<Rightarrow> proto_step list" where
  "response_steps resp = concat (map (\<lambda>g. concat (map pj_StepResults (pg_JobResults g))) (rp_StageResults resp))"

lemma step_name_toProto [simp]: "ps_StepName (domainStepResultToProto et s) = sr_StepName s"
  by (simp add: domainStepResultToProto_def Let_def split: option.split)

lemma job_toProto [simp]:
  "pj_JobName (domainJobResultToProto et j) = jr_JobName j"
  "pj_StepResults (domainJobResultToProto et j) = map (domainStepResultToProto et) (jr_StepResults j)"
  by (simp_all add: domainJobResultToProto_def Let_def split: option.split)

lemma response_names_toProto:
  "response_names (domainPipelineResultToProto et res) =
     map (\<lambda>g. (gr_StageName g, map (\<lambda>j. (jr_JobName j, map sr_StepName (jr_StepResults j))) (gr_JobResults g))) (pr_StageResults res)"
  by (simp add: response_names_def domainPipelineResultToProto_def domainStageResultToProto_def comp_def)

lemma passed_step_toProto:
  "sr_Err s = None \<Longrightarrow> sr_ExitCode s = ExitSuccess \<Longrightarrow>
     ps_ExitCode (domainStepResultToProto et s) = 0 \<and> ps_Error (domainStepResultToProto et s) = [] \<and>
     ps_Status (domainStepResultToProto et s) = STATUS_PASSED"
  by (simp add: domainStepResultToProto_def stepStatus_def ExitSuccess_def)

lemma passed_response:
  assumes "Run DockerRunner_Run sink ctx p path tr res" and "pipelineStatus res = StatusPassed"
  shows "response_names (domainPipelineResultToProto et res) = pipeline_names p \<and>
    (\<forall>s \<in> set (response_steps (domainPipelineResultToProto et res)).
       ps_ExitCode s = 0 \<and> ps_Error s = [] \<and> ps_Status s = STATUS_PASSED)"
  using docker.passed_run [OF assms] passed_step_toProto
  by (simp add: response_names_toProto pipeline_names_def)
    (auto simp: response_steps_def domainPipelineResultToProto_def domainStageResultToProto_def)

section \<open>Properties\<close>

text \<open>
  C15. A request is refused without a single effect and with an empty response:
  as an invalid argument when its path is outside the configured root or its configuration
  does not load, as an internal error when all that is fine but there is no runner. Otherwise
  it is run and answered without an error, and every request gets an answer.
\<close>

theorem request_outcome:
  assumes "RunPipeline errorText getwd root fs s ctx path tr (resp, err)"
  shows "(err = None \<longleftrightarrow> (root = [] \<or> projectPathAllowed getwd root path) \<and> (\<exists>p. Load fs path = Inr p) \<and> srv_Runner s \<noteq> None) \<and>
    (case err of None \<Rightarrow> (\<exists>p r res. Load fs path = Inr p \<and> srv_Runner s = Some r \<and> Run r (srv_Events s) ctx p path tr res \<and>
        resp = domainPipelineResultToProto errorText res)
     | Some (code, msg) \<Rightarrow> tr = [] \<and> resp = emptyResponse \<and>
        (code = Internal \<longleftrightarrow> (root = [] \<or> projectPathAllowed getwd root path) \<and> (\<exists>p. Load fs path = Inr p)))"
proof -
  from assms consider code msg where "admitRequest getwd root fs s path = Inl (code, msg)" "err = Some (code, msg)" "tr = []" "resp = emptyResponse"
    | p r res where "admitRequest getwd root fs s path = Inr (p, r)" "err = None" "Run r (srv_Events s) ctx p path tr res"
      "resp = domainPipelineResultToProto errorText res"
    unfolding RunPipeline_iff by (metis surj_pair)
  then show ?thesis
  proof cases
    case 1
    then show ?thesis using admit_Inl [OF 1(1)] admit_Inr [of getwd root fs s path] by fastforce
  next
    case 2
    then show ?thesis by (auto simp: admit_Inr)
  qed
qed

text \<open>A server whose project root holds the small pipeline, without a bus.\<close>

definition small_config :: RootConfig where
  "small_config = \<lparr>rc_Pipeline = \<lparr>pc_Name = ''ci'', pc_Stages = [''check'', ''test'']\<rparr>,
     rc_Jobs = [(''unit'', \<lparr>jc_Stage = ''test'', jc_Image = ''img'', jc_Setup = [], jc_Env = [],
                  jc_Steps = [\<lparr>sc_Name = ''s'', sc_Run = ''make'', sc_Timeout = 0\<rparr>]\<rparr>),
                (''fmt'', \<lparr>jc_Stage = ''check'', jc_Image = ''img'', jc_Setup = [], jc_Env = [],
                  jc_Steps = [\<lparr>sc_Name = ''s'', sc_Run = ''make'', sc_Timeout = 0\<rparr>]\<rparr>)]\<rparr>"

definition small_files :: config_files where
  "small_files = \<lparr>decodeRoot = (\<lambda>p. Inr (small_config, [])), decodeEnv = (\<lambda>p. Inl ErrNoRows), statNotExist = (\<lambda>p. True)\<rparr>"

definition small_server :: server where
  "small_server = \<lparr>srv_Runner = Some DockerRunner_Run, srv_Events = False\<rparr>"

lemma small_Load: "Load small_files path = Inr small_pipeline"
proof -
  have "Validate small_config = None" "translate small_config [] = small_pipeline" by code_simp+
  then show ?thesis by (simp add: Load_Inr loadEnv_Inr ReadToml_Inr small_files_def)
qed

lemma small_decodes: "decodes_maps small_files"
  by (simp add: decodes_maps_def small_files_def small_config_def gm_ok_def)

definition plain_text :: "go_error \<Rightarrow> string" where "plain_text = Error (\<lambda>_. False)"

lemma small_RunPipeline:
  "RunPipeline plain_text (Inr ''/w'') ''/'' small_files small_server RequestCtx ''/p'' green_trace
     (domainPipelineResultToProto plain_text green_result, None)"
proof -
  have "projectPathAllowed (Inr ''/w'') ''/'' ''/p''" by code_simp
  then show ?thesis
    by (intro served [where r = DockerRunner_Run and pipeline = small_pipeline])
      (simp_all add: admit_Inr small_Load small_server_def green_Run)
qed

theorem request_outcome_witness:
  "Load small_files ''/p'' = Inr small_pipeline \<and> srv_Runner small_server \<noteq> None"
  using request_outcome [OF small_RunPipeline] by (simp add: small_Load)

text \<open>
  C16. A request that is answered without an error was confined: its path, the
  configuration files it is read from, and every directory archived into a container lie
  below the project root. The response is that of a run of the loaded pipeline; its status
  is passed, failed or errored, never pending or unspecified. When it is passed, the response lists
  exactly the declared stages, jobs and steps, in order, each step with exit code zero, no
  error and the status passed.
\<close>

theorem served_response:
  assumes "IsAbs wd" and "decodes_maps fs" and "srv_Runner s = Some DockerRunner_Run"
    and "RunPipeline errorText (Inr wd) root fs s ctx path tr (resp, None)"
  shows "\<exists>p. Load fs path = Inr p \<and> rp_Status resp \<in> {STATUS_PASSED, STATUS_FAILED, STATUS_ERRORED} \<and>
    (root \<noteq> [] \<longrightarrow> (\<forall>f \<in> insert path (set (request_files path)). prefix (resolve wd root) (resolve wd f))) \<and>
    (\<forall>l q r. (l, ObsS (CreateArchive q) r) \<in> set tr \<longrightarrow> q = path) \<and>
    (rp_Status resp = STATUS_PASSED \<longrightarrow> response_names resp = pipeline_names p \<and>
       (\<forall>st \<in> set (response_steps resp). ps_ExitCode st = 0 \<and> ps_Error st = [] \<and> ps_Status st = STATUS_PASSED))"
proof -
  from assms(3,4) obtain p res where admit: "admitRequest (Inr wd) root fs s path = Inr (p, DockerRunner_Run)"
    and run: "Run DockerRunner_Run (srv_Events s) ctx p path tr res" and resp: "resp = domainPipelineResultToProto errorText res"
    unfolding RunPipeline_iff by (auto simp: admit_Inr)
  have load: "Load fs path = Inr p" and allowed: "root = [] \<or> projectPathAllowed (Inr wd) root path"
    using admit by (simp_all add: admit_Inr)
  have "rp_Status resp \<in> {STATUS_PASSED, STATUS_FAILED, STATUS_ERRORED}"
    using docker.settled_run [OF Load_pipeline_ok [OF assms(2) load] run] by (auto simp: resp response_status)
  moreover have "prefix (resolve wd root) (resolve wd f)" if "root \<noteq> []" "f \<in> insert path (set (request_files path))" for f
    using that allowed projectPathAllowed_iff [OF assms(1)] request_files_below by blast
  moreover have "q = path" if "(l, ObsS (CreateArchive q) r) \<in> set tr" for l q r
    using Run_mounts [OF run] that by (force simp: list_all_iff)
  moreover have "response_names resp = pipeline_names p \<and>
       (\<forall>st \<in> set (response_steps resp). ps_ExitCode st = 0 \<and> ps_Error st = [] \<and> ps_Status st = STATUS_PASSED)"
    if "rp_Status resp = STATUS_PASSED"
    using passed_response [OF run] that by (simp add: resp response_status)
  ultimately show ?thesis using load by blast
qed

theorem served_response_witness:
  "rp_Status (domainPipelineResultToProto plain_text green_result) \<in> {STATUS_PASSED, STATUS_FAILED, STATUS_ERRORED}"
proof -
  have "IsAbs ''/w''" "srv_Runner small_server = Some DockerRunner_Run" by (simp_all add: IsAbs_def slash_def small_server_def)
  from served_response [OF this(1) small_decodes this(2) small_RunPipeline] show ?thesis by blast
qed

text \<open>
  C35. The response loses only the run ID, the part of durations below a
  millisecond, and the structure of errors: for a result whose exit codes fit 32 bits and
  whose jobs with a setup error have no step results, which is what the runner produces, a client can
  rebuild the rest, and the statuses in the response are those it would compute itself.
\<close>

theorem response_roundtrip:
  assumes "result_fits res"
  shows "readResponse (domainPipelineResultToProto errorText res) = reduce_result errorText res \<and>
    rp_Status (domainPipelineResultToProto errorText res) =
      domainStatusToProto (pipelineStatus (readResponse (domainPipelineResultToProto errorText res))) \<and>
    (\<forall>g \<in> set (rp_StageResults (domainPipelineResultToProto errorText res)).
       pg_Status g = domainStatusToProto (stageStatus (readStage g)) \<and>
       (\<forall>j \<in> set (pg_JobResults g). pj_Status j = domainStatusToProto (jobStatus (readJob j)) \<and>
          (\<forall>s \<in> set (pj_StepResults j). ps_Status s = domainStatusToProto (stepStatus (readStep s)))))"
proof -
  have step: "ps_Status (domainStepResultToProto errorText s) = domainStatusToProto (stepStatus (readStep (domainStepResultToProto errorText s)))"
    if "code_fits s" for s
    using that by (simp add: readStep_toProto) (simp add: domainStepResultToProto_def Let_def split: option.split)
  have job: "pj_Status (domainJobResultToProto errorText j) = domainStatusToProto (jobStatus (readJob (domainJobResultToProto errorText j)))"
    if "job_fits j" for j
    using that by (simp add: readJob_toProto) (simp add: domainJobResultToProto_def Let_def split: option.split)
  have stage: "readStage (domainStageResultToProto errorText g) = reduce_stage errorText g" if "list_all job_fits (gr_JobResults g)" for g
    using that by (auto simp: readStage_def domainStageResultToProto_def reduce_stage_def whole_ms_def list_all_iff readJob_toProto)
  have "pg_Status (domainStageResultToProto errorText g) = domainStatusToProto (stageStatus (readStage (domainStageResultToProto errorText g)))"
    if "list_all job_fits (gr_JobResults g)" for g
    using that by (simp add: stage) (simp add: domainStageResultToProto_def)
  then show ?thesis using assms step job
    by (simp add: readResponse_toProto response_status)
      (auto simp: domainPipelineResultToProto_def domainStageResultToProto_def result_fits_def list_all_iff job_fits_def)
qed

theorem response_roundtrip_witness:
  "readResponse (domainPipelineResultToProto plain_text red_result) = reduce_result plain_text red_result"
proof -
  have "result_fits red_result" by code_simp
  from response_roundtrip [OF this] show ?thesis by blast
qed

text \<open>
  C36. The durations of a response are whole milliseconds, cut, not rounded, and
  cut after summing: while the steps' durations are not negative and their sum fits 64 bits,
  a job's duration is at least the sum of its steps' and exceeds it by at most a millisecond
  for each step.
\<close>

theorem job_duration_ms:
  assumes "\<forall>s \<in> set (jr_StepResults j). 0 \<le> sint (sr_Duration s)"
    and "(\<Sum>s \<leftarrow> jr_StepResults j. sint (sr_Duration s)) < 2 ^ 63"
  shows "sint (pj_DurationMs (domainJobResultToProto errorText j)) = (\<Sum>s \<leftarrow> jr_StepResults j. sint (sr_Duration s)) div 1000000 \<and>
    (\<Sum>p \<leftarrow> pj_StepResults (domainJobResultToProto errorText j). sint (ps_DurationMs p)) \<le>
      sint (pj_DurationMs (domainJobResultToProto errorText j)) \<and>
    sint (pj_DurationMs (domainJobResultToProto errorText j)) \<le>
      (\<Sum>p \<leftarrow> pj_StepResults (domainJobResultToProto errorText j). sint (ps_DurationMs p)) + int (length (jr_StepResults j))"
proof -
  have job: "sint (pj_DurationMs (domainJobResultToProto errorText j)) = ms (jobDuration j)"
    by (simp add: domainJobResultToProto_def ms_def Let_def split: option.split)
  have sum: "sint (jobDuration j) = (\<Sum>s \<leftarrow> jr_StepResults j. sint (sr_Duration s))"
    using assms by (rule jobDuration_sum)
  have "0 \<le> (\<Sum>s \<leftarrow> jr_StepResults j. sint (sr_Duration s))" using assms(1) by (intro sum_list_nonneg) auto
  then have total: "ms (jobDuration j) = (\<Sum>s \<leftarrow> jr_StepResults j. sint (sr_Duration s)) div 1000000"
    by (simp add: ms_nonneg sum)
  have "sint (ps_DurationMs (domainStepResultToProto errorText s)) = ms (sr_Duration s)" for s
    by (simp add: domainStepResultToProto_def ms_def Let_def split: option.split)
  then have parts: "(\<Sum>p \<leftarrow> pj_StepResults (domainJobResultToProto errorText j). sint (ps_DurationMs p)) =
      (\<Sum>s \<leftarrow> jr_StepResults j. sint (sr_Duration s) div 1000000)"
    using assms(1) by (simp add: comp_def ms_nonneg cong: map_cong)
  show ?thesis using sum_div_bounds [OF assms(1), of 1000000] unfolding job total parts by simp
qed

theorem job_duration_ms_witness:
  "sint (pj_DurationMs (domainJobResultToProto plain_text \<lparr>jr_JobName = ''j'', jr_StepResults =
     [(demo_step_result ''a'' 0)\<lparr>sr_Duration := 1999999\<rparr>, (demo_step_result ''b'' 0)\<lparr>sr_Duration := 1000001\<rparr>], jr_SetupErr = None\<rparr>)) = 3"
  using job_duration_ms [of "\<lparr>jr_JobName = ''j'', jr_StepResults =
     [(demo_step_result ''a'' 0)\<lparr>sr_Duration := 1999999\<rparr>, (demo_step_result ''b'' 0)\<lparr>sr_Duration := 1000001\<rparr>], jr_SetupErr = None\<rparr>" plain_text]
  by simp

end
