(* ===== verification/Times.thy ===== *)
theory Times
  imports Prelude "HOL-Library.Monad_Syntax"
begin

text \<open>
  The parts of package \<open>time\<close> that the program uses: the proleptic Gregorian calendar,
  \<open>Format\<close> and \<open>Parse\<close> for RFC 3339 with a fraction of up to nine digits. Points in time
  are nanoseconds since 1970; the offset of a time zone, in seconds, is a parameter.
\<close>

section \<open>The calendar\<close>

text \<open>
  Days are counted in years that begin in March, so that a leap day is the last of its
  year, and in cycles of 400, 100, 4 and 1 years.
\<close>

definition civil_from_days :: "int \<Rightarrow> int \<times> int \<times> int" where
  "civil_from_days days =
     (let z = days + 719468; era = z div 146097; doe = z mod 146097;
          cent = min (doe div 36524) 3; doc = doe - 36524 * cent;
          quad = doc div 1461; doq = doc mod 1461;
          yr = min (doq div 365) 3; doy = doq - 365 * yr;
          mp = (5 * doy + 2) div 153;
          d = doy - (153 * mp + 2) div 5 + 1;
          m = (if mp < 10 then mp + 3 else mp - 9);
          y = 400 * era + 100 * cent + 4 * quad + yr
      in (if m \<le> 2 then y + 1 else y, m, d))"

definition days_from_civil :: "int \<Rightarrow> int \<Rightarrow> int \<Rightarrow> int" where
  "days_from_civil year month day =
     (let y = (if month \<le> 2 then year - 1 else year); era = y div 400; yoe = y mod 400;
          mp = (if month \<le> 2 then month + 9 else month - 3);
          doy = (153 * mp + 2) div 5 + day - 1
      in 146097 * era + 365 * yoe + yoe div 4 - yoe div 100 + doy - 719468)"

definition leap :: "int \<Rightarrow> bool" where
  "leap y \<longleftrightarrow> y mod 4 = 0 \<and> (y mod 100 \<noteq> 0 \<or> y mod 400 = 0)"

definition days_in :: "int \<Rightarrow> int \<Rightarrow> int" where
  "days_in month year =
     (if month = 2 then (if leap year then 29 else 28) else if month \<in> {4, 6, 9, 11} then 30 else 31)"

text \<open>A cycle is split into equal parts, of which the last may be one day longer.\<close>

lemma split_cycle:
  fixes x n k :: int
  assumes "0 \<le> x" and "x \<le> (k + 1) * n" and "0 < n" and "0 \<le> k"
  shows "0 \<le> min (x div n) k \<and> min (x div n) k \<le> k \<and> 0 \<le> x - n * min (x div n) k \<and> x - n * min (x div n) k \<le> n \<and>
    (min (x div n) k < k \<longrightarrow> x - n * min (x div n) k < n) \<and> (x < (k + 1) * n \<longrightarrow> x - n * min (x div n) k < n)"
proof -
  have q: "0 \<le> x div n" "n * (x div n) \<le> x" "x < n * (x div n) + n"
    using assms pos_mod_sign [of n x] pos_mod_bound [of n x] mult_div_mod_eq [of n x]
    by (simp_all add: pos_imp_zdiv_nonneg_iff, linarith+)
  show ?thesis
  proof (cases "x div n \<le> k")
    case True
    then show ?thesis using q assms by simp
  next
    case False
    then have "n * (k + 1) \<le> n * (x div n)" using assms(3) by simp
    then show ?thesis using False q assms by (simp add: algebra_simps min_def)
  qed
qed

lemma civil_ok:
  assumes "civil_from_days days = (y, m, d)"
  shows "1 \<le> m \<and> m \<le> 12 \<and> 1 \<le> d \<and> d \<le> days_in m y \<and> days_from_civil y m d = days"
proof -
  define era where "era = (days + 719468) div 146097"
  define doe where "doe = (days + 719468) mod 146097"
  define cent where "cent = min (doe div 36524) 3"
  define doc where "doc = doe - 36524 * cent"
  define quad where "quad = doc div 1461"
  define doq where "doq = doc mod 1461"
  define yr where "yr = min (doq div 365) 3"
  define doy where "doy = doq - 365 * yr"
  define mp where "mp = (5 * doy + 2) div 153"
  have days: "days = 146097 * era + doe - 719468" by (simp add: era_def doe_def)
  have doe: "0 \<le> doe" "doe \<le> 146096" using pos_mod_bound [of 146097 "days + 719468"] by (simp_all add: doe_def)
  have cent: "0 \<le> cent" "cent \<le> 3" "0 \<le> doc" "doc \<le> 36524" "cent < 3 \<Longrightarrow> doc < 36524"
    using split_cycle [of doe 3 36524] doe by (simp_all add: cent_def doc_def)
  have doq: "doc = 1461 * quad + doq" "0 \<le> doq" "doq < 1461" by (simp_all add: quad_def doq_def)
  then have quad: "0 \<le> quad" "quad \<le> 24" using cent(3,4) by linarith+
  have yr: "0 \<le> yr" "yr \<le> 3" "0 \<le> doy" "doy \<le> 365" "yr < 3 \<Longrightarrow> doy < 365" "doq < 1460 \<Longrightarrow> doy < 365"
    using split_cycle [of doq 3 365] doq by (simp_all add: yr_def doy_def)
  have mp: "153 * mp \<le> 5 * doy + 2" "5 * doy + 2 < 153 * mp + 153"
    using mult_div_mod_eq [of 153 "5 * doy + 2"] pos_mod_bound [of 153 "5 * doy + 2"] pos_mod_sign [of 153 "5 * doy + 2"]
    unfolding mp_def by linarith+
  then have mp12: "0 \<le> mp" "mp \<le> 11" using yr(3,4) by linarith+
  define yoe where "yoe = 100 * cent + 4 * quad + yr"
  have yoe: "0 \<le> yoe" "yoe < 400" "yoe div 4 = 25 * cent + quad" "yoe div 100 = cent"
    using cent(1,2) quad yr(1,2) int_div_pos_eq [of yoe 4 "25 * cent + quad" yr] int_div_pos_eq [of yoe 100 cent "4 * quad + yr"]
    by (simp_all add: yoe_def)
  have leap: "doy < 365" if "\<not> leap (400 * era + yoe + 1)"
  proof (rule ccontr)
    assume "\<not> doy < 365"
    then have "yr = 3" "doq = 1460" using yr(2,5,6) doq(3) by linarith+
    moreover have "quad = 24 \<Longrightarrow> cent = 3" using cent(2,5) doq(1) \<open>doq = 1460\<close> by linarith
    ultimately have cycle: "400 * era + yoe + 1 = 400 * (era + 1)" if "quad = 24"
      using that by (simp add: yoe_def)
    have other: "400 * era + yoe + 1 = 100 * (4 * era + cent) + 4 * (quad + 1)" using \<open>yr = 3\<close> by (simp add: yoe_def)
    show False
    proof (cases "quad = 24")
      case True
      then show False using that cycle unfolding leap_def by (simp only: mod_mult_self1_is_0) simp
    next
      case False
      then have "(400 * era + yoe + 1) mod 100 = 4 * (quad + 1)" using int_mod_pos_eq [OF other] quad by simp
      moreover have "(400 * era + yoe + 1) mod 4 = 0" unfolding other by presburger
      ultimately show False using that quad unfolding leap_def by simp
    qed
  qed
  have "(if (if mp < 10 then mp + 3 else mp - 9) \<le> 2 then 400 * era + 100 * cent + 4 * quad + yr + 1 else 400 * era + 100 * cent + 4 * quad + yr,
      if mp < 10 then mp + 3 else mp - 9, doy - (153 * mp + 2) div 5 + 1) = (y, m, d)"
    using assms unfolding civil_from_days_def Let_def era_def [symmetric] doe_def [symmetric] cent_def [symmetric]
      doc_def [symmetric] quad_def [symmetric] doq_def [symmetric] yr_def [symmetric] doy_def [symmetric] mp_def [symmetric] .
  then have civil: "y = (if mp < 10 then 400 * era + yoe else 400 * era + yoe + 1)" "m = (if mp < 10 then mp + 3 else mp - 9)"
    "d = doy - (153 * mp + 2) div 5 + 1"
    using mp12 by (auto simp: yoe_def)
  have m12: "1 \<le> m" "m \<le> 12" "m \<le> 2 \<longleftrightarrow> 10 \<le> mp" using mp12 civil(2) by (auto split: if_splits)
  have "(if m \<le> 2 then y - 1 else y) = 400 * era + yoe" "(if m \<le> 2 then m + 9 else m - 3) = mp"
    using civil(1,2) m12(3) mp12 by auto
  moreover have "(400 * era + yoe) div 400 = era" "(400 * era + yoe) mod 400 = yoe"
    using int_div_pos_eq [of "400 * era + yoe" 400 era yoe] int_mod_pos_eq [of "400 * era + yoe" 400 era yoe] yoe by simp_all
  ultimately have inverse: "days_from_civil y m d = days"
    using yoe(3,4) civil(3) days by (simp add: days_from_civil_def Let_def yoe_def doy_def) (use doc_def doq(1) in linarith)
  have "mp = 0 \<or> mp = 1 \<or> mp = 2 \<or> mp = 3 \<or> mp = 4 \<or> mp = 5 \<or> mp = 6 \<or> mp = 7 \<or> mp = 8 \<or> mp = 9 \<or> mp = 10 \<or> mp = 11"
    using mp12 by presburger
  then have "1 \<le> d \<and> d \<le> days_in m y" using mp yr(3,4) leap civil by (auto simp: days_in_def)
  then show ?thesis using m12 inverse by simp
qed

section \<open>Formatting\<close>

definition pad :: "nat \<Rightarrow> int \<Rightarrow> string" where
  "pad width i =
     (let ds = nat_digits (nat (abs i))
      in (if i < 0 then [CHR ''-''] else []) @ replicate (width - length ds) (CHR ''0'') @ ds)"

definition fraction :: "int \<Rightarrow> string" where
  "fraction ns =
     (if ns = 0 then [] else CHR ''.'' # rev (dropWhile (\<lambda>c. c = CHR ''0'') (rev (pad 9 ns))))"

text \<open>The offset of a time zone in seconds, of which whole minutes are printed.\<close>

definition zone_text :: "int \<Rightarrow> string" where
  "zone_text off =
     (if off = 0 then ''Z''
      else let zone = abs off div 60
           in (if off \<le> -60 then CHR ''-'' else CHR ''+'') # pad 2 (zone div 60) @ '':'' @ pad 2 (zone mod 60))"

text \<open>\<open>Format(RFC3339Nano)\<close> of a time in a zone.\<close>

definition format_time :: "int \<Rightarrow> gotime \<Rightarrow> string" where
  "format_time off t =
     (let secs = t div 1000000000 + off; ns = t mod 1000000000; days = secs div 86400; s = secs mod 86400;
          (year, month, day) = civil_from_days days
      in pad 4 year @ ''-'' @ pad 2 month @ ''-'' @ pad 2 day @ ''T'' @ pad 2 (s div 3600) @ '':'' @
         pad 2 (s mod 3600 div 60) @ '':'' @ pad 2 (s mod 60) @ fraction ns @ zone_text off)"

section \<open>Parsing\<close>

definition check :: "bool \<Rightarrow> unit option" where "check b = (if b then Some () else None)"

fun expect :: "char \<Rightarrow> string \<Rightarrow> string option" where
  "expect c [] = None"
| "expect c (x # xs) = (if x = c then Some xs else None)"

text \<open>One or two digits, and exactly two when \<open>fixed\<close>.\<close>

definition getnum :: "bool \<Rightarrow> string \<Rightarrow> (int \<times> string) option" where
  "getnum fixed s =
     (case s of
        [] \<Rightarrow> None
      | c # cs \<Rightarrow>
          if \<not> is_digit c then None
          else case cs of
                 d # ds \<Rightarrow> if is_digit d then Some (int (digits_val [c, d]), ds)
                           else if fixed then None else Some (int (digit_val c), cs)
               | [] \<Rightarrow> if fixed then None else Some (int (digit_val c), []))"

definition getyear :: "string \<Rightarrow> (int \<times> string) option" where
  "getyear s = (if length (take 4 s) = 4 \<and> list_all is_digit (take 4 s) then Some (int (digits_val (take 4 s)), drop 4 s) else None)"

text \<open>A fraction is taken after the seconds, with a point or a comma; digits beyond the ninth are dropped.\<close>

definition getfraction :: "string \<Rightarrow> int \<times> string" where
  "getfraction s =
     (case s of
        c # d # ds \<Rightarrow>
          if (c = CHR ''.'' \<or> c = CHR '','') \<and> is_digit d
          then let digits = takeWhile is_digit (d # ds); used = take 9 digits
               in (int (digits_val used) * 10 ^ (9 - length used), drop (length digits) (d # ds))
          else (0, s)
      | _ \<Rightarrow> (0, s))"

definition getzone :: "string \<Rightarrow> (int \<times> string) option" where
  "getzone s =
     (case s of
        [] \<Rightarrow> None
      | sign # r \<Rightarrow>
          if sign = CHR ''Z'' then Some (0, r)
          else do {
            (hr, r1) \<leftarrow> getnum True r;
            r2 \<leftarrow> expect (CHR '':'') r1;
            (mm, r3) \<leftarrow> getnum True r2;
            _ \<leftarrow> check ((sign = CHR ''+'' \<or> sign = CHR ''-'') \<and> hr \<le> 24 \<and> mm \<le> 60);
            Some ((if sign = CHR ''-'' then -1 else 1) * (hr * 60 + mm) * 60, r3)
          })"

text \<open>
  \<open>Parse(RFC3339, s)\<close>. The strict parser that package \<open>time\<close> tries first accepts less, and
  means the same by what it accepts.
\<close>

definition parse_time :: "string \<Rightarrow> gotime option" where
  "parse_time s = do {
     (year, s) \<leftarrow> getyear s;
     s \<leftarrow> expect (CHR ''-'') s;
     (month, s) \<leftarrow> getnum True s;
     _ \<leftarrow> check (1 \<le> month \<and> month \<le> 12);
     s \<leftarrow> expect (CHR ''-'') s;
     (day, s) \<leftarrow> getnum True s;
     s \<leftarrow> expect (CHR ''T'') s;
     (hour, s) \<leftarrow> getnum False s;
     _ \<leftarrow> check (hour < 24);
     s \<leftarrow> expect (CHR '':'') s;
     (minute, s) \<leftarrow> getnum True s;
     _ \<leftarrow> check (minute < 60);
     s \<leftarrow> expect (CHR '':'') s;
     (second, s) \<leftarrow> getnum True s;
     _ \<leftarrow> check (second < 60);
     (ns, s) \<leftarrow> Some (getfraction s);
     (off, s) \<leftarrow> getzone s;
     _ \<leftarrow> check (s = [] \<and> 1 \<le> day \<and> day \<le> days_in month year);
     Some ((days_from_civil year month day * 86400 + hour * 3600 + minute * 60 + second - off) * 1000000000 + ns)
   }"

section \<open>Reading back what was formatted\<close>

lemma digits_val_zeros [simp]: "digits_val (replicate k (CHR ''0'') @ ds) = digits_val ds"
  by (induction k) (simp_all add: digits_val_def digit_val_def)

lemma digits_val_shift: "digits_val (ds @ replicate k (CHR ''0'')) = digits_val ds * 10 ^ k"
proof (induction k)
  case (Suc k)
  have "digits_val (ds @ replicate (Suc k) (CHR ''0'')) = digits_val ((ds @ replicate k (CHR ''0'')) @ [CHR ''0''])"
    by (simp add: replicate_append_same)
  then show ?case using Suc unfolding digits_val_snoc by (simp add: digit_val_def)
qed simp

lemma length_nat_digits: "n < 10 ^ w \<Longrightarrow> 0 < w \<Longrightarrow> length (nat_digits n) \<le> w"
proof (induction n arbitrary: w rule: nat_digits.induct)
  case (1 n)
  show ?case
  proof (cases "n < 10")
    case True
    then show ?thesis using 1(3) by (simp add: nat_digits.simps [of n])
  next
    case False
    obtain v where w: "w = Suc v" using 1(3) by (cases w) auto
    have "0 < v" using False 1(2) w by (cases v) auto
    moreover have "n div 10 < 10 ^ v" using 1(2) w by (simp add: less_mult_imp_div_less mult.commute)
    ultimately have "length (nat_digits (n div 10)) \<le> v" using 1(1) [OF False] by simp
    then show ?thesis using False w by (simp add: nat_digits.simps [of n])
  qed
qed

lemma pad_digits:
  assumes "0 \<le> i" and "i < 10 ^ w" and "0 < w"
  shows "length (pad w i) = w" "list_all is_digit (pad w i)" "digits_val (pad w i) = nat i"
proof -
  have "nat i < 10 ^ w" using assms by (simp add: nat_less_iff)
  then have "length (nat_digits (nat i)) \<le> w" using assms(3) by (rule length_nat_digits)
  then show "length (pad w i) = w" using assms(1) by (simp add: pad_def Let_def)
  have "is_digit (CHR ''0'')" by (simp add: is_digit_def)
  then show "list_all is_digit (pad w i)" using assms(1) nat_digits_are_digits [of "nat i"] by (auto simp: pad_def Let_def list_all_iff)
  show "digits_val (pad w i) = nat i" using assms(1) by (simp add: pad_def Let_def)
qed

lemma check_simps [simp]: "check True = Some ()" "check False = None"
  by (simp_all add: check_def)

lemma getnum_pad [simp]:
  assumes "0 \<le> i" and "i < 100"
  shows "getnum fixed (pad 2 i @ s) = Some (i, s)"
proof -
  note p = pad_digits [of i 2]
  then obtain a b where ab: "pad 2 i = [a, b]" using assms by (auto simp: length_Suc_conv numeral_2_eq_2)
  then show ?thesis using p assms by (simp add: getnum_def)
qed

lemma getyear_pad [simp]:
  assumes "0 \<le> i" and "i < 10000"
  shows "getyear (pad 4 i @ s) = Some (i, s)"
  using pad_digits [of i 4] assms by (simp add: getyear_def)

definition no_fraction :: "string \<Rightarrow> bool" where
  "no_fraction s \<longleftrightarrow> (case s of [] \<Rightarrow> True | c # r \<Rightarrow> \<not> is_digit c \<and> c \<noteq> CHR ''.'' \<and> c \<noteq> CHR '','')"

lemma trailing_zeros: "\<exists>k. s = rev (dropWhile (\<lambda>c. c = CHR ''0'') (rev s)) @ replicate k (CHR ''0'')"
proof (induction s rule: rev_induct)
  case (snoc c s)
  then obtain k where k: "s = rev (dropWhile (\<lambda>c. c = CHR ''0'') (rev s)) @ replicate k (CHR ''0'')" by blast
  then show ?case
    by (cases "c = CHR ''0''") (auto intro: exI [of _ "Suc k"] exI [of _ 0] simp: replicate_append_same [symmetric] simp del: replicate_append_same)
qed simp

lemma getfraction_fraction:
  assumes "0 \<le> ns" and "ns < 1000000000" and "no_fraction s"
  shows "getfraction (fraction ns @ s) = (ns, s)"
proof (cases "ns = 0")
  case True
  then show ?thesis using assms(3) by (auto simp: fraction_def getfraction_def no_fraction_def split: list.split)
next
  case False
  let ?ds = "rev (dropWhile (\<lambda>c. c = CHR ''0'') (rev (pad 9 ns)))"
  obtain k where k: "pad 9 ns = ?ds @ replicate k (CHR ''0'')" using trailing_zeros by blast
  note p = pad_digits [of ns 9]
  have len: "length ?ds + k = 9" using p(1) assms arg_cong [OF k, of length] by simp
  have val: "digits_val ?ds * 10 ^ k = nat ns" using p(3) assms digits_val_shift [of ?ds k] k by simp
  have "list_all is_digit (?ds @ replicate k (CHR ''0''))" unfolding k [symmetric] using p(2) assms by simp
  then have digits: "\<forall>c \<in> set ?ds. is_digit c" by (simp add: list_all_iff)
  have "?ds \<noteq> []"
  proof
    assume "?ds = []"
    then have "digits_val ?ds = 0" by (simp only: digits_val_def foldl_Nil)
    then show False using val False assms(1) by simp
  qed
  then obtain d es where ds: "?ds = d # es" by (cases ?ds) auto
  have take: "takeWhile is_digit (?ds @ s) = ?ds"
    using digits assms(3) by (subst takeWhile_append2) (auto simp: no_fraction_def split: list.splits)
  have "getfraction (CHR ''.'' # ?ds @ s) = (int (digits_val ?ds) * 10 ^ (9 - length ?ds), s)"
    using digits take len unfolding ds getfraction_def by simp
  moreover have "9 - length ?ds = k" using len by simp
  moreover have "int (digits_val ?ds) * 10 ^ k = ns" using val assms(1) by (metis int_nat_eq of_nat_mult of_nat_numeral of_nat_power)
  ultimately show ?thesis using False by (simp add: fraction_def)
qed

lemma zone_no_fraction: "no_fraction (zone_text off @ s)"
  by (simp add: no_fraction_def zone_text_def is_digit_def Let_def)

lemma getzone_text:
  assumes "60 dvd off" and "\<bar>off\<bar> < 86400"
  shows "getzone (zone_text off @ s) = Some (off, s)"
proof -
  obtain m where m: "off = 60 * m" using assms(1) by (auto simp: dvd_def)
  let ?z = "\<bar>off\<bar> div 60"
  have z: "?z = \<bar>m\<bar>" using m by (simp add: abs_mult)
  have r: "0 \<le> ?z div 60" "?z div 60 < 24" "0 \<le> ?z mod 60" "?z mod 60 < 60" "?z div 60 * 60 + ?z mod 60 = \<bar>m\<bar>"
    using assms(2) z m by auto
  show ?thesis
  proof (cases "off = 0")
    case True
    then show ?thesis by (simp add: zone_text_def getzone_def)
  next
    case False
    define h where "h = ?z div 60"
    define n where "n = ?z mod 60"
    have hn: "0 \<le> h" "h < 24" "0 \<le> n" "n < 60" "h * 60 + n = \<bar>m\<bar>" using r by (simp_all add: h_def n_def)
    have sign: "off \<le> -60 \<longleftrightarrow> m < 0" "m \<noteq> 0" using m False by auto
    have "zone_text off = (if m < 0 then CHR ''-'' else CHR ''+'') # pad 2 h @ '':'' @ pad 2 n"
      using False sign by (simp add: zone_text_def h_def n_def Let_def)
    moreover have "(if m < 0 then -1 else 1) * (h * 60 + n) * 60 = off" using hn(5) m by simp
    ultimately show ?thesis using hn by (auto simp: getzone_def)
  qed
qed

text \<open>The year of a time in a zone.\<close>

definition year_of :: "int \<Rightarrow> gotime \<Rightarrow> int" where
  "year_of off t = fst (civil_from_days ((t div 1000000000 + off) div 86400))"

lemma clock_parts:
  fixes s :: int
  assumes "0 \<le> s" and "s < 86400"
  shows "0 \<le> s div 3600 \<and> s div 3600 < 24 \<and> 0 \<le> s mod 3600 div 60 \<and> s mod 3600 div 60 < 60 \<and> 0 \<le> s mod 60 \<and> s mod 60 < 60 \<and>
    s div 3600 * 3600 + s mod 3600 div 60 * 60 + s mod 60 = s"
proof -
  have "s mod 3600 mod 60 = s mod 60" by (simp add: mod_mod_cancel)
  then have "s div 3600 * 3600 + (s mod 3600 div 60 * 60 + s mod 60) = s"
    using div_mult_mod_eq [of "s mod 3600" 60] div_mult_mod_eq [of s 3600] by simp
  moreover have "s mod 3600 < 3600" "s mod 60 < 60" "0 \<le> s mod 3600" "0 \<le> s mod 60" by simp_all
  ultimately show ?thesis using assms by (auto simp: div_less_iff_less_mult pos_imp_zdiv_nonneg_iff)
qed

lemma parse_parts:
  assumes "0 \<le> y" "y < 10000" "1 \<le> m" "m \<le> 12" "1 \<le> d" "d \<le> days_in m y" "d < 100" "0 \<le> h" "h < 24" "0 \<le> mi" "mi < 60" "0 \<le> se" "se < 60"
    and frac: "getfraction rest = (ns, zone)" and zone: "getzone zone = Some (off, [])"
  shows "parse_time (pad 4 y @ ''-'' @ pad 2 m @ ''-'' @ pad 2 d @ ''T'' @ pad 2 h @ '':'' @ pad 2 mi @ '':'' @ pad 2 se @ rest) =
    Some ((days_from_civil y m d * 86400 + h * 3600 + mi * 60 + se - off) * 1000000000 + ns)"
  using assms unfolding parse_time_def by simp

lemma parse_format:
  assumes "60 dvd off" and "\<bar>off\<bar> < 86400" and "0 \<le> year_of off t" and "year_of off t < 10000"
  shows "parse_time (format_time off t) = Some t"
proof -
  define ns where "ns = t mod 1000000000"
  define days where "days = (t div 1000000000 + off) div 86400"
  define s where "s = (t div 1000000000 + off) mod 86400"
  obtain y m d where c: "civil_from_days days = (y, m, d)" by (cases "civil_from_days days")
  note ok = civil_ok [OF c]
  have "d \<le> 31" using ok by (auto simp: days_in_def split: if_splits)
  have y: "0 \<le> y" "y < 10000" using assms(3,4) c by (simp_all add: year_of_def days_def)
  have ns: "0 \<le> ns" "ns < 1000000000" by (simp_all add: ns_def)
  have "0 \<le> s" "s < 86400" by (simp_all add: s_def)
  note parts = clock_parts [OF this]
  have "days * 86400 + s = t div 1000000000 + off" by (simp add: days_def s_def)
  then have "days * 86400 + s div 3600 * 3600 + s mod 3600 div 60 * 60 + s mod 60 - off = t div 1000000000"
    using parts by linarith
  then have instant: "(days * 86400 + s div 3600 * 3600 + s mod 3600 div 60 * 60 + s mod 60 - off) * 1000000000 + ns = t"
    by (simp add: ns_def)
  have printed: "format_time off t = pad 4 y @ ''-'' @ pad 2 m @ ''-'' @ pad 2 d @ ''T'' @ pad 2 (s div 3600) @ '':'' @
      pad 2 (s mod 3600 div 60) @ '':'' @ pad 2 (s mod 60) @ fraction ns @ zone_text off"
    using c unfolding format_time_def Let_def ns_def [symmetric] days_def [symmetric] s_def [symmetric] by simp
  have rest: "getfraction (fraction ns @ zone_text off) = (ns, zone_text off)" "getzone (zone_text off) = Some (off, [])"
    using getfraction_fraction [OF ns zone_no_fraction, of off "[]"] getzone_text [OF assms(1,2), of "[]"] by simp_all
  have "parse_time (format_time off t) =
      Some ((days_from_civil y m d * 86400 + s div 3600 * 3600 + s mod 3600 div 60 * 60 + s mod 60 - off) * 1000000000 + ns)"
    unfolding printed by (rule parse_parts) (use ok y parts \<open>d \<le> 31\<close> rest in linarith | rule rest)+
  then show ?thesis using ok instant by (simp only:)
qed

end
