(* ===== verification/Store.thy ===== *)
theory Store
  imports RunnerContract Times
begin

text \<open>
  The results database (\<open>internal/results/store.go\<close>, schema in
  \<open>migrations/00001_init.sql\<close>): the three tables as row lists, the SQL statements of the
  store as operations on them, and \<open>Record\<close> with its six cases. SQLite may fail any
  statement, and a failed statement changes nothing; which ones fail is a parameter.
\<close>

section \<open>Time stamps\<close>

text \<open>\<open>t.UTC().Format(time.RFC3339Nano)\<close>.\<close>

definition stamp :: "gotime \<Rightarrow> string" where "stamp t = format_time 0 t"

section \<open>The schema\<close>

text \<open>A nullable column is an option; \<open>id\<close> is the primary key.\<close>

record run_row =
  rr_id :: nat
  rr_run_id :: string
  rr_pipeline :: string
  rr_status :: string
  rr_started_at :: string
  rr_finished_at :: "string option"

record job_row =
  jw_id :: nat
  jw_run_id :: nat
  jw_name :: string
  jw_stage :: string
  jw_status :: string
  jw_started_at :: string
  jw_finished_at :: "string option"

record step_row =
  sw_id :: nat
  sw_job_id :: nat
  sw_name :: string
  sw_status :: string
  sw_exit_code :: "goint option"
  sw_duration_ms :: "goint option"
  sw_payload :: string

record db =
  db_runs :: "run_row list"
  db_jobs :: "job_row list"
  db_steps :: "step_row list"

section \<open>The statements\<close>

datatype stmt =
    InsertRun string string string string
  | UpdateRun string string string
  | SelectRun string
  | InsertJob nat string string string string
  | UpdateJob string string nat string
  | SelectJob nat string
  | InsertStep nat string string
  | UpdateStep string "goint option" "goint option" nat string

text \<open>An \<open>INTEGER PRIMARY KEY\<close> that is not given is one more than the greatest in use.\<close>

definition fresh_id :: "nat list \<Rightarrow> nat" where
  "fresh_id ids = Suc (fold max ids 0)"

definition update_where :: "('r \<Rightarrow> bool) \<Rightarrow> ('r \<Rightarrow> 'r) \<Rightarrow> 'r list \<Rightarrow> 'r list" where
  "update_where p f rows = map (\<lambda>r. if p r then f r else r) rows"

definition ex_insert_run :: "string \<Rightarrow> string \<Rightarrow> string \<Rightarrow> string \<Rightarrow> db \<Rightarrow> db" where
  "ex_insert_run rid pipeline st started s =
     (if list_ex (\<lambda>r. rr_run_id r = rid) (db_runs s) then s
      else s\<lparr>db_runs := db_runs s @ [\<lparr>rr_id = fresh_id (map rr_id (db_runs s)), rr_run_id = rid, rr_pipeline = pipeline,
             rr_status = st, rr_started_at = started, rr_finished_at = None\<rparr>]\<rparr>)"

definition ex_insert_job :: "nat \<Rightarrow> string \<Rightarrow> string \<Rightarrow> string \<Rightarrow> string \<Rightarrow> db \<Rightarrow> db" where
  "ex_insert_job run_pk name stage st started s =
     (if list_ex (\<lambda>r. jw_run_id r = run_pk \<and> jw_name r = name) (db_jobs s) then s
      else s\<lparr>db_jobs := db_jobs s @ [\<lparr>jw_id = fresh_id (map jw_id (db_jobs s)), jw_run_id = run_pk, jw_name = name,
             jw_stage = stage, jw_status = st, jw_started_at = started, jw_finished_at = None\<rparr>]\<rparr>)"

definition ex_insert_step :: "nat \<Rightarrow> string \<Rightarrow> string \<Rightarrow> db \<Rightarrow> db" where
  "ex_insert_step job name st s =
     (if list_ex (\<lambda>r. sw_job_id r = job \<and> sw_name r = name) (db_steps s) then s
      else s\<lparr>db_steps := db_steps s @ [\<lparr>sw_id = fresh_id (map sw_id (db_steps s)), sw_job_id = job, sw_name = name,
             sw_status = st, sw_exit_code = None, sw_duration_ms = None, sw_payload = ''{}''\<rparr>]\<rparr>)"

primrec ex :: "stmt \<Rightarrow> db \<Rightarrow> db" where
  "ex (InsertRun rid pipeline st started) s = ex_insert_run rid pipeline st started s"
| "ex (UpdateRun st finished rid) s =
     s\<lparr>db_runs := update_where (\<lambda>r. rr_run_id r = rid) (\<lambda>r. r\<lparr>rr_status := st, rr_finished_at := Some finished\<rparr>) (db_runs s)\<rparr>"
| "ex (SelectRun rid) s = s"
| "ex (InsertJob run_pk name stage st started) s = ex_insert_job run_pk name stage st started s"
| "ex (UpdateJob st finished run_pk name) s =
     s\<lparr>db_jobs := update_where (\<lambda>r. jw_run_id r = run_pk \<and> jw_name r = name)
        (\<lambda>r. r\<lparr>jw_status := st, jw_finished_at := Some finished\<rparr>) (db_jobs s)\<rparr>"
| "ex (SelectJob run_pk name) s = s"
| "ex (InsertStep job name st) s = ex_insert_step job name st s"
| "ex (UpdateStep st code ms job name) s =
     s\<lparr>db_steps := update_where (\<lambda>r. sw_job_id r = job \<and> sw_name r = name)
        (\<lambda>r. r\<lparr>sw_status := st, sw_exit_code := code, sw_duration_ms := ms\<rparr>) (db_steps s)\<rparr>"

text \<open>What SQLite answers to a statement: nothing, or an error.\<close>

type_synonym faults = "stmt \<Rightarrow> go_error option"

definition no_faults :: faults where
  "no_faults s = None"

text \<open>\<open>ExecContext\<close>; the error of the code wraps that of the driver.\<close>

definition ExecContext :: "faults \<Rightarrow> (go_error \<Rightarrow> go_error) \<Rightarrow> stmt \<Rightarrow> db \<Rightarrow> go_error option \<times> db" where
  "ExecContext faults wrap st s =
     (case faults st of Some err \<Rightarrow> (Some (wrap err), s) | None \<Rightarrow> (None, ex st s))"

section \<open>The store\<close>

definition runRow :: "faults \<Rightarrow> string \<Rightarrow> db \<Rightarrow> go_error + nat" where
  "runRow faults runID s =
     (let answer = (case faults (SelectRun runID) of
            Some err \<Rightarrow> Inl err
          | None \<Rightarrow> (case filter (\<lambda>r. rr_run_id r = runID) (db_runs s) of [] \<Rightarrow> Inl ErrNoRows | r # _ \<Rightarrow> Inr (rr_id r)))
      in case answer of
           Inl err \<Rightarrow>
             if errors_Is err ErrNoRows
             then Inl (Errorf [Lit ''results: event references unknown run '', Quoted runID]) else Inl err
         | Inr i \<Rightarrow> Inr i)"

definition jobRow :: "faults \<Rightarrow> string \<Rightarrow> string \<Rightarrow> db \<Rightarrow> go_error + nat" where
  "jobRow faults runID job s =
     (case runRow faults runID s of
        Inl err \<Rightarrow> Inl err
      | Inr run_pk \<Rightarrow>
          (let answer = (case faults (SelectJob run_pk job) of
                 Some err \<Rightarrow> Inl err
               | None \<Rightarrow> (case filter (\<lambda>r. jw_run_id r = run_pk \<and> jw_name r = job) (db_jobs s) of
                            [] \<Rightarrow> Inl ErrNoRows | r # _ \<Rightarrow> Inr (jw_id r)))
           in case answer of
                Inl err \<Rightarrow>
                  if errors_Is err ErrNoRows
                  then Inl (Errorf [Lit ''results: event references unknown job '', Quoted job, Lit '' in run '', Quoted runID])
                  else Inl err
              | Inr i \<Rightarrow> Inr i))"

definition recordPipelineStarted :: "faults \<Rightarrow> db \<Rightarrow> go_event \<Rightarrow> go_error option \<times> db" where
  "recordPipelineStarted faults s event =
     (if ev_RunID event = [] then (Some (Errorf [Lit ''results: pipeline.started without run id'']), s)
      else ExecContext faults (\<lambda>err. Errorf [Lit ''results: record run '', Lit (ev_RunID event), Lit '': '', Wrapped err])
        (InsertRun (ev_RunID event) (ev_Pipeline event) (status_String StatusPending) (stamp (ev_OccurredAt event))) s)"

definition recordPipelineFinished :: "faults \<Rightarrow> db \<Rightarrow> go_event \<Rightarrow> go_error option \<times> db" where
  "recordPipelineFinished faults s event =
     ExecContext faults (\<lambda>err. Errorf [Lit ''results: finish run '', Lit (ev_RunID event), Lit '': '', Wrapped err])
       (UpdateRun (gm_get [] (ev_Payload event) ''status'') (stamp (ev_OccurredAt event)) (ev_RunID event)) s"

definition recordJobStarted :: "faults \<Rightarrow> db \<Rightarrow> go_event \<Rightarrow> go_error option \<times> db" where
  "recordJobStarted faults s event =
     (case runRow faults (ev_RunID event) s of
        Inl err \<Rightarrow> (Some err, s)
      | Inr run_pk \<Rightarrow>
          ExecContext faults (\<lambda>err. Errorf [Lit ''results: record job '', Lit (ev_RunID event), Lit ''/'', Lit (ev_Job event),
              Lit '': '', Wrapped err])
            (InsertJob run_pk (ev_Job event) (gm_get [] (ev_Payload event) ''stage'') (status_String StatusPending)
              (stamp (ev_OccurredAt event))) s)"

definition recordJobFinished :: "faults \<Rightarrow> db \<Rightarrow> go_event \<Rightarrow> go_error option \<times> db" where
  "recordJobFinished faults s event =
     (case runRow faults (ev_RunID event) s of
        Inl err \<Rightarrow> (Some err, s)
      | Inr run_pk \<Rightarrow>
          ExecContext faults (\<lambda>err. Errorf [Lit ''results: finish job '', Lit (ev_RunID event), Lit ''/'', Lit (ev_Job event),
              Lit '': '', Wrapped err])
            (UpdateJob (gm_get [] (ev_Payload event) ''status'') (stamp (ev_OccurredAt event)) run_pk (ev_Job event)) s)"

definition recordStepStarted :: "faults \<Rightarrow> db \<Rightarrow> go_event \<Rightarrow> go_error option \<times> db" where
  "recordStepStarted faults s event =
     (case jobRow faults (ev_RunID event) (ev_Job event) s of
        Inl err \<Rightarrow> (Some err, s)
      | Inr job \<Rightarrow>
          ExecContext faults (\<lambda>err. Errorf [Lit ''results: record step '', Lit (ev_RunID event), Lit ''/'', Lit (ev_Job event),
              Lit ''/'', Lit (ev_Step event), Lit '': '', Wrapped err])
            (InsertStep job (ev_Step event) (status_String StatusPending)) s)"

text \<open>A payload number: absent is NULL, present must parse.\<close>

definition payloadNumber :: "go_event \<Rightarrow> string \<Rightarrow> string \<Rightarrow> go_error + goint option" where
  "payloadNumber event key fn =
     (case map_of (ev_Payload event) key of
        None \<Rightarrow> Inr None
      | Some raw \<Rightarrow>
          (case parse_int fn raw of
             Inl err \<Rightarrow> Inl (Errorf [Lit ''results: step '', Lit (ev_RunID event), Lit ''/'', Lit (ev_Job event), Lit ''/'',
               Lit (ev_Step event), Lit '' bad '', Lit key, Lit '' '', Quoted raw, Lit '': '', Wrapped err])
           | Inr n \<Rightarrow> Inr (Some n)))"

definition recordStepFinished :: "faults \<Rightarrow> db \<Rightarrow> go_event \<Rightarrow> go_error option \<times> db" where
  "recordStepFinished faults s event =
     (case jobRow faults (ev_RunID event) (ev_Job event) s of
        Inl err \<Rightarrow> (Some err, s)
      | Inr job \<Rightarrow>
          (case payloadNumber event ''exit_code'' ''Atoi'' of
             Inl err \<Rightarrow> (Some err, s)
           | Inr exitCode \<Rightarrow>
               (case payloadNumber event ''duration_ms'' ''ParseInt'' of
                  Inl err \<Rightarrow> (Some err, s)
                | Inr duration \<Rightarrow>
                    ExecContext faults (\<lambda>err. Errorf [Lit ''results: finish step '', Lit (ev_RunID event), Lit ''/'',
                        Lit (ev_Job event), Lit ''/'', Lit (ev_Step event), Lit '': '', Wrapped err])
                      (UpdateStep (gm_get [] (ev_Payload event) ''status'') exitCode duration job (ev_Step event)) s)))"

definition Record :: "faults \<Rightarrow> db \<Rightarrow> go_event \<Rightarrow> go_error option \<times> db" where
  "Record faults s event =
     (if ev_Type event = EventPipelineStarted then recordPipelineStarted faults s event
      else if ev_Type event = EventPipelineFinished then recordPipelineFinished faults s event
      else if ev_Type event = EventJobStarted then recordJobStarted faults s event
      else if ev_Type event = EventJobFinished then recordJobFinished faults s event
      else if ev_Type event = EventStepStarted then recordStepStarted faults s event
      else if ev_Type event = EventStepFinished then recordStepFinished faults s event
      else (None, s))"

lemmas record_defs = recordPipelineStarted_def recordPipelineFinished_def recordJobStarted_def
  recordJobFinished_def recordStepStarted_def recordStepFinished_def

end
