(* ===== verification/HandlerContract.thy ===== *)
theory HandlerContract
  imports Domain
begin

text \<open>
  The interface between the consumer and a service (\<open>Handler\<close> in
  \<open>internal/consumer/consumer.go\<close>): delivery is at least once, so a handler must be
  idempotent. The results store is its provider.
\<close>

locale event_handler =
  fixes handle :: "'s \<Rightarrow> go_event \<Rightarrow> go_error option \<times> 's" and inv :: "'s \<Rightarrow> bool"
  assumes handle_inv: "inv s \<Longrightarrow> inv (snd (handle s e))"
    and handle_error: "handle s e = (Some err, s') \<Longrightarrow> s' = s"
    and handle_again: "handle s e = (None, s') \<Longrightarrow> handle s' e = (None, s')"
begin

definition deliver :: "go_event list \<Rightarrow> 's \<Rightarrow> 's" where
  "deliver es s = foldl (\<lambda>s e. snd (handle s e)) s es"

lemma deliver_simps [simp]:
  "deliver [] s = s" "deliver (e # es) s = deliver es (snd (handle s e))"
  "deliver (es @ es') s = deliver es' (deliver es s)"
  by (simp_all add: deliver_def)

lemma deliver_inv: "inv s \<Longrightarrow> inv (deliver es s)"
  by (induction es arbitrary: s) (simp_all add: handle_inv)

text \<open>A second delivery in a row, after a success or after a failure, is the first one again.\<close>

lemma handle_twice: "snd (handle (snd (handle s e)) e) = snd (handle s e)"
proof (cases "handle s e")
  case (Pair err s')
  then show ?thesis by (cases err) (use handle_error handle_again in force)+
qed

text \<open>Repeating deliveries any number of times makes no difference.\<close>

lemma deliver_stutter: "deliver (remdups_adj es) s = deliver es s"
proof (induction es arbitrary: s rule: remdups_adj.induct)
  case (3 x y xs)
  then show ?case by (cases "x = y") (simp_all add: handle_twice)
qed simp_all

end

end
