(* ===== verification/StoreSafety.thy ===== *)
theory StoreSafety
  imports Store HandlerContract
begin

text \<open>
  What the recorder guarantees of the database: the schema's constraints hold after every
  event, an error leaves the rows alone, redelivery is harmless, and readers see what the
  abstract record of a run prescribes.
\<close>

section \<open>Rows\<close>

lemma find_append: "find p (xs @ [y]) = (case find p xs of Some x \<Rightarrow> Some x | None \<Rightarrow> if p y then Some y else None)"
  by (induction xs) auto

lemma find_update_where:
  "(\<And>r. p (f r) = p r) \<Longrightarrow> find p (update_where q f rows) = map_option (\<lambda>r. if q r then f r else r) (find p rows)"
  unfolding update_where_def by (induction rows) auto

lemma case_filter_find: "(case filter p xs of [] \<Rightarrow> a | x # ys \<Rightarrow> f x) = (case find p xs of None \<Rightarrow> a | Some x \<Rightarrow> f x)"
  by (induction xs) auto

lemma find_Some_in: "find p xs = Some x \<Longrightarrow> x \<in> set xs \<and> p x"
  by (induction xs) (auto split: if_splits)

lemma find_None_ex: "find p xs = None \<longleftrightarrow> \<not> list_ex p xs"
  by (induction xs) auto

lemma list_ex_find: "list_ex p xs \<longleftrightarrow> (\<exists>x. find p xs = Some x)"
  using find_None_ex [of p xs] by (cases "find p xs") auto

lemma map_update_where [simp]: "(\<And>r. key (f r) = key r) \<Longrightarrow> map key (update_where p f rows) = map key rows"
  by (simp add: update_where_def)

lemma update_where_twice [simp]:
  "(\<And>r. p r \<Longrightarrow> p (f r)) \<Longrightarrow> (\<And>r. f (f r) = f r) \<Longrightarrow> update_where p f (update_where p f rows) = update_where p f rows"
  by (simp add: update_where_def)

lemma fold_max_ge: "x \<in> insert a (set xs) \<Longrightarrow> x \<le> fold max xs (a :: nat)"
proof (induction xs arbitrary: a x)
  case (Cons y xs)
  show ?case
  proof (cases "x \<in> set xs")
    case True
    then show ?thesis using Cons.IH [of x "max y a"] by simp
  next
    case False
    then have "x \<le> max y a" using Cons.prems by auto
    moreover have "max y a \<le> fold max xs (max y a)" by (rule Cons.IH) simp
    ultimately show ?thesis by (simp add: le_trans)
  qed
qed simp

lemma fresh_id_fresh: "x \<in> set ids \<Longrightarrow> x \<noteq> fresh_id ids"
  using fold_max_ge [of x 0 ids] by (auto simp: fresh_id_def)

lemma fresh_id_notin [simp]: "fresh_id (map f rows) \<notin> f ` set rows"
  using fresh_id_fresh [of _ "map f rows"] by auto

text \<open>The rows that the queries of the store find.\<close>

definition find_run :: "db \<Rightarrow> string \<Rightarrow> run_row option" where
  "find_run s rid = find (\<lambda>r. rr_run_id r = rid) (db_runs s)"

definition find_job :: "db \<Rightarrow> nat \<Rightarrow> string \<Rightarrow> job_row option" where
  "find_job s run_pk name = find (\<lambda>r. jw_run_id r = run_pk \<and> jw_name r = name) (db_jobs s)"

definition find_step :: "db \<Rightarrow> nat \<Rightarrow> string \<Rightarrow> step_row option" where
  "find_step s job_pk name = find (\<lambda>r. sw_job_id r = job_pk \<and> sw_name r = name) (db_steps s)"

lemmas find_defs = find_run_def find_job_def find_step_def

lemma find_rows:
  "find_run s rid = Some r \<Longrightarrow> r \<in> set (db_runs s) \<and> rr_run_id r = rid"
  "find_job s pk n = Some j \<Longrightarrow> j \<in> set (db_jobs s) \<and> jw_run_id j = pk \<and> jw_name j = n"
  "find_step s pk' n' = Some t \<Longrightarrow> t \<in> set (db_steps s) \<and> sw_job_id t = pk' \<and> sw_name t = n'"
  by (auto simp: find_defs dest: find_Some_in)

lemma runRow_find:
  "runRow no_faults rid s = (case find_run s rid of None \<Rightarrow> Inl (Errorf [Lit ''results: event references unknown run '', Quoted rid])
     | Some r \<Rightarrow> Inr (rr_id r))"
  by (simp add: runRow_def no_faults_def find_run_def case_filter_find split: option.split)

lemma jobRow_find:
  "jobRow no_faults rid name s = (case runRow no_faults rid s of Inl err \<Rightarrow> Inl err
     | Inr pk \<Rightarrow> (case find_job s pk name of
         None \<Rightarrow> Inl (Errorf [Lit ''results: event references unknown job '', Quoted name, Lit '' in run '', Quoted rid])
       | Some j \<Rightarrow> Inr (jw_id j)))"
  by (simp add: jobRow_def no_faults_def find_job_def case_filter_find split: option.split sum.split)

text \<open>A query that a fault does not answer gives what it gives without faults.\<close>

lemma runRow_Inr: "runRow f rid s = Inr pk \<Longrightarrow> \<exists>r. find_run s rid = Some r \<and> rr_id r = pk"
  by (auto simp: runRow_def find_run_def case_filter_find Let_def split: option.splits if_splits)

lemma jobRow_Inr:
  "jobRow f rid name s = Inr pk \<Longrightarrow>
     \<exists>r j. find_run s rid = Some r \<and> find_job s (rr_id r) name = Some j \<and> jw_id j = pk"
  unfolding jobRow_def Let_def case_filter_find find_job_def [symmetric]
  by (auto split: sum.splits option.splits if_splits dest: runRow_Inr)

section \<open>One event\<close>

text \<open>An event is refused with an error and changes nothing, or executes at most one statement.\<close>

definition stmt_ok :: "stmt \<Rightarrow> db \<Rightarrow> bool" where
  "stmt_ok st s = (case st of
     InsertRun rid p t u \<Rightarrow> rid \<noteq> []
   | InsertJob pk n g t u \<Rightarrow> pk \<in> rr_id ` set (db_runs s)
   | InsertStep pk n t \<Rightarrow> pk \<in> jw_id ` set (db_jobs s)
   | _ \<Rightarrow> True)"

lemma stmt_ok_simps [simp]:
  "stmt_ok (InsertRun rid p t u) s \<longleftrightarrow> rid \<noteq> []" "stmt_ok (UpdateRun t u rid) s" "stmt_ok (SelectRun rid) s"
  "stmt_ok (InsertJob pk n g t u) s \<longleftrightarrow> pk \<in> rr_id ` set (db_runs s)" "stmt_ok (UpdateJob t u pk n) s"
  "stmt_ok (SelectJob pk n) s" "stmt_ok (InsertStep pk n t) s \<longleftrightarrow> pk \<in> jw_id ` set (db_jobs s)"
  "stmt_ok (UpdateStep t c d pk n) s"
  by (simp_all add: stmt_ok_def)

lemma runRow_in: "runRow f rid s = Inr pk \<Longrightarrow> pk \<in> rr_id ` set (db_runs s)"
  by (auto dest!: runRow_Inr find_rows)

lemma jobRow_in: "jobRow f rid name s = Inr pk \<Longrightarrow> pk \<in> jw_id ` set (db_jobs s)"
  by (auto dest!: jobRow_Inr find_rows)

definition record_effect :: "db \<Rightarrow> go_error option \<times> db \<Rightarrow> bool" where
  "record_effect s res \<longleftrightarrow> (\<exists>err. res = (Some err, s)) \<or> (\<exists>st. stmt_ok st s \<and> res = (None, ex st s))"

lemma record_effect_intros:
  "record_effect s (Some err, s)" "record_effect s (None, s)"
  "stmt_ok st s \<Longrightarrow> record_effect s (ExecContext f w st s)"
  "(\<And>l. x = Inl l \<Longrightarrow> record_effect s (g l)) \<Longrightarrow> (\<And>r. x = Inr r \<Longrightarrow> record_effect s (h r)) \<Longrightarrow>
     record_effect s (case x of Inl l \<Rightarrow> g l | Inr r \<Rightarrow> h r)"
  "(b \<Longrightarrow> record_effect s u) \<Longrightarrow> (\<not> b \<Longrightarrow> record_effect s v) \<Longrightarrow> record_effect s (if b then u else v)"
proof -
  show "record_effect s (None, s)" unfolding record_effect_def by (rule disjI2, rule exI [of _ "SelectRun []"]) simp
qed (auto simp: record_effect_def ExecContext_def split: option.split sum.split)

lemma Record_effect: "record_effect s (Record f s e)"
  unfolding Record_def record_defs by (intro record_effect_intros) (auto dest: runRow_in jobRow_in)

section \<open>The constraints of the schema\<close>

definition store_ok :: "db \<Rightarrow> bool" where
  "store_ok s \<longleftrightarrow>
     distinct (map rr_id (db_runs s)) \<and> distinct (map rr_run_id (db_runs s)) \<and>
     distinct (map jw_id (db_jobs s)) \<and> distinct (map (\<lambda>r. (jw_run_id r, jw_name r)) (db_jobs s)) \<and>
     distinct (map sw_id (db_steps s)) \<and> distinct (map (\<lambda>r. (sw_job_id r, sw_name r)) (db_steps s)) \<and>
     set (map jw_run_id (db_jobs s)) \<subseteq> set (map rr_id (db_runs s)) \<and>
     set (map sw_job_id (db_steps s)) \<subseteq> set (map jw_id (db_jobs s)) \<and>
     [] \<notin> set (map rr_run_id (db_runs s))"

definition empty_db :: db where
  "empty_db = \<lparr>db_runs = [], db_jobs = [], db_steps = []\<rparr>"

lemma store_ok_empty [simp]: "store_ok empty_db"
  by (simp add: store_ok_def empty_db_def)

lemma ex_ok:
  assumes ok: "store_ok s" and st: "stmt_ok st s"
  shows "store_ok (ex st s)"
proof (cases st)
  case (InsertRun rid p t u)
  then show ?thesis using ok st by (auto simp: store_ok_def ex_insert_run_def list_ex_iff)
next
  case (InsertJob pk n g t u)
  then show ?thesis using ok st by (auto simp: store_ok_def ex_insert_job_def list_ex_iff)
next
  case (InsertStep pk n t)
  then show ?thesis using ok st by (auto simp: store_ok_def ex_insert_step_def list_ex_iff)
qed (use ok in \<open>simp_all add: store_ok_def del: set_map\<close>)

lemma Record_ok: "store_ok s \<Longrightarrow> store_ok (snd (Record f s e))"
  using Record_effect [of s f e] ex_ok by (auto simp: record_effect_def)

text \<open>A sequence of events, each with the faults it met.\<close>

definition record_all :: "(faults \<times> go_event) list \<Rightarrow> db \<Rightarrow> db" where
  "record_all fes s = foldl (\<lambda>s (f, e). snd (Record f s e)) s fes"

lemma record_all_ok: "store_ok s \<Longrightarrow> store_ok (record_all fes s)"
  unfolding record_all_def by (induction fes arbitrary: s) (auto simp: Record_ok)

section \<open>What readers see\<close>

text \<open>
  The abstract record of all runs, without row identifiers: a run by its ID, a job by run and
  name, a step by run, job and name.
\<close>

record run_info =
  ri_pipeline :: string
  ri_status :: string
  ri_started :: string
  ri_finished :: "string option"

record job_info =
  ji_stage :: string
  ji_status :: string
  ji_started :: string
  ji_finished :: "string option"

record step_info =
  si_status :: string
  si_exit_code :: "goint option"
  si_duration_ms :: "goint option"

record results_view =
  v_runs :: "string \<Rightarrow> run_info option"
  v_jobs :: "string \<times> string \<Rightarrow> job_info option"
  v_steps :: "string \<times> string \<times> string \<Rightarrow> step_info option"

definition run_info_of :: "run_row \<Rightarrow> run_info" where
  "run_info_of r = \<lparr>ri_pipeline = rr_pipeline r, ri_status = rr_status r, ri_started = rr_started_at r,
     ri_finished = rr_finished_at r\<rparr>"

definition job_info_of :: "job_row \<Rightarrow> job_info" where
  "job_info_of r = \<lparr>ji_stage = jw_stage r, ji_status = jw_status r, ji_started = jw_started_at r, ji_finished = jw_finished_at r\<rparr>"

definition step_info_of :: "step_row \<Rightarrow> step_info" where
  "step_info_of r = \<lparr>si_status = sw_status r, si_exit_code = sw_exit_code r, si_duration_ms = sw_duration_ms r\<rparr>"

definition job_at :: "db \<Rightarrow> string \<Rightarrow> string \<Rightarrow> job_row option" where
  "job_at s rid n = Option.bind (find_run s rid) (\<lambda>r. find_job s (rr_id r) n)"

definition step_at :: "db \<Rightarrow> string \<Rightarrow> string \<Rightarrow> string \<Rightarrow> step_row option" where
  "step_at s rid n t = Option.bind (job_at s rid n) (\<lambda>j. find_step s (jw_id j) t)"

definition view :: "db \<Rightarrow> results_view" where
  "view s = \<lparr>v_runs = (\<lambda>rid. map_option run_info_of (find_run s rid)),
     v_jobs = (\<lambda>(rid, n). map_option job_info_of (job_at s rid n)),
     v_steps = (\<lambda>(rid, n, t). map_option step_info_of (step_at s rid n t))\<rparr>"

text \<open>What an event does to the record; \<^const>\<open>None\<close> when it must be refused.\<close>

definition payload_ok :: "go_event \<Rightarrow> bool" where
  "payload_ok e \<longleftrightarrow> (\<exists>c. payloadNumber e ''exit_code'' ''Atoi'' = Inr c) \<and> (\<exists>d. payloadNumber e ''duration_ms'' ''ParseInt'' = Inr d)"

definition payload_value :: "go_event \<Rightarrow> string \<Rightarrow> string \<Rightarrow> goint option" where
  "payload_value e key fn = (case payloadNumber e key fn of Inl err \<Rightarrow> None | Inr n \<Rightarrow> n)"

definition arecord :: "results_view \<Rightarrow> go_event \<Rightarrow> results_view option" where
  "arecord v e =
     (let rid = ev_RunID e; job = (ev_RunID e, ev_Job e); step = (ev_RunID e, ev_Job e, ev_Step e);
          t = stamp (ev_OccurredAt e); st = gm_get [] (ev_Payload e) ''status''
      in if ev_Type e = EventPipelineStarted then
           if rid = [] then None
           else if v_runs v rid \<noteq> None then Some v
           else Some (v\<lparr>v_runs := (v_runs v)(rid \<mapsto> \<lparr>ri_pipeline = ev_Pipeline e, ri_status = ''pending'', ri_started = t,
                  ri_finished = None\<rparr>)\<rparr>)
         else if ev_Type e = EventPipelineFinished then
           Some (v\<lparr>v_runs := (v_runs v)(rid := map_option (\<lambda>r. r\<lparr>ri_status := st, ri_finished := Some t\<rparr>) (v_runs v rid))\<rparr>)
         else if ev_Type e = EventJobStarted then
           if v_runs v rid = None then None
           else if v_jobs v job \<noteq> None then Some v
           else Some (v\<lparr>v_jobs := (v_jobs v)(job \<mapsto> \<lparr>ji_stage = gm_get [] (ev_Payload e) ''stage'', ji_status = ''pending'',
                  ji_started = t, ji_finished = None\<rparr>)\<rparr>)
         else if ev_Type e = EventJobFinished then
           if v_runs v rid = None then None
           else Some (v\<lparr>v_jobs := (v_jobs v)(job := map_option (\<lambda>j. j\<lparr>ji_status := st, ji_finished := Some t\<rparr>) (v_jobs v job))\<rparr>)
         else if ev_Type e = EventStepStarted then
           if v_jobs v job = None then None
           else if v_steps v step \<noteq> None then Some v
           else Some (v\<lparr>v_steps := (v_steps v)(step \<mapsto> \<lparr>si_status = ''pending'', si_exit_code = None, si_duration_ms = None\<rparr>)\<rparr>)
         else if ev_Type e = EventStepFinished then
           if v_jobs v job = None \<or> \<not> payload_ok e then None
           else Some (v\<lparr>v_steps := (v_steps v)(step := map_option (\<lambda>x. x\<lparr>si_status := st,
                  si_exit_code := payload_value e ''exit_code'' ''Atoi'',
                  si_duration_ms := payload_value e ''duration_ms'' ''ParseInt''\<rparr>) (v_steps v step))\<rparr>)
         else Some v)"

text \<open>The rows after each statement.\<close>

lemma find_run_ex:
  "find_run (ex (InsertRun rid p t u) s) x =
     (if find_run s rid = None \<and> x = rid
      then Some \<lparr>rr_id = fresh_id (map rr_id (db_runs s)), rr_run_id = rid, rr_pipeline = p, rr_status = t,
             rr_started_at = u, rr_finished_at = None\<rparr>
      else find_run s x)"
  "find_run (ex (UpdateRun t u rid) s) x =
     map_option (\<lambda>r. if x = rid then r\<lparr>rr_status := t, rr_finished_at := Some u\<rparr> else r) (find_run s x)"
  "find_run (ex (InsertJob pk n g t u) s) x = find_run s x" "find_run (ex (UpdateJob t u pk n) s) x = find_run s x"
  "find_run (ex (InsertStep pk n t) s) x = find_run s x" "find_run (ex (UpdateStep t c d pk n) s) x = find_run s x"
proof -
  show "find_run (ex (UpdateRun t u rid) s) x =
     map_option (\<lambda>r. if x = rid then r\<lparr>rr_status := t, rr_finished_at := Some u\<rparr> else r) (find_run s x)"
    by (cases "find_run s x") (use find_rows(1) [of s x] in \<open>auto simp: find_run_def find_update_where\<close>)
qed (auto simp: find_run_def ex_insert_run_def ex_insert_job_def ex_insert_step_def list_ex_find find_append
    split: option.splits)

lemma find_job_ex:
  "find_job (ex (InsertJob pk n g t u) s) q x =
     (if find_job s pk n = None \<and> q = pk \<and> x = n
      then Some \<lparr>jw_id = fresh_id (map jw_id (db_jobs s)), jw_run_id = pk, jw_name = n, jw_stage = g, jw_status = t,
             jw_started_at = u, jw_finished_at = None\<rparr>
      else find_job s q x)"
  "find_job (ex (UpdateJob t u pk n) s) q x =
     map_option (\<lambda>r. if q = pk \<and> x = n then r\<lparr>jw_status := t, jw_finished_at := Some u\<rparr> else r) (find_job s q x)"
  "find_job (ex (InsertRun rid p t u) s) q x = find_job s q x" "find_job (ex (UpdateRun t u rid) s) q x = find_job s q x"
  "find_job (ex (InsertStep pk n t) s) q x = find_job s q x" "find_job (ex (UpdateStep t c d pk n) s) q x = find_job s q x"
proof -
  show "find_job (ex (UpdateJob t u pk n) s) q x =
     map_option (\<lambda>r. if q = pk \<and> x = n then r\<lparr>jw_status := t, jw_finished_at := Some u\<rparr> else r) (find_job s q x)"
  proof -
    have "find_job (ex (UpdateJob t u pk n) s) q x =
        map_option (\<lambda>r. if jw_run_id r = pk \<and> jw_name r = n then r\<lparr>jw_status := t, jw_finished_at := Some u\<rparr> else r) (find_job s q x)"
      by (simp add: find_job_def find_update_where)
    then show ?thesis using find_rows(2) [of s q x] by (cases "find_job s q x") simp_all
  qed
qed (auto simp: find_job_def ex_insert_run_def ex_insert_job_def ex_insert_step_def list_ex_find find_append
    split: option.splits)

lemma find_step_ex:
  "find_step (ex (InsertStep pk n t) s) q x =
     (if find_step s pk n = None \<and> q = pk \<and> x = n
      then Some \<lparr>sw_id = fresh_id (map sw_id (db_steps s)), sw_job_id = pk, sw_name = n, sw_status = t,
             sw_exit_code = None, sw_duration_ms = None, sw_payload = ''{}''\<rparr>
      else find_step s q x)"
  "find_step (ex (UpdateStep t c d pk n) s) q x =
     map_option (\<lambda>r. if q = pk \<and> x = n then r\<lparr>sw_status := t, sw_exit_code := c, sw_duration_ms := d\<rparr> else r) (find_step s q x)"
  "find_step (ex (InsertRun rid p t u) s) q x = find_step s q x" "find_step (ex (UpdateRun t u rid) s) q x = find_step s q x"
  "find_step (ex (InsertJob pk' n' g t u) s) q x = find_step s q x" "find_step (ex (UpdateJob t u pk n) s) q x = find_step s q x"
proof -
  show "find_step (ex (UpdateStep t c d pk n) s) q x =
     map_option (\<lambda>r. if q = pk \<and> x = n then r\<lparr>sw_status := t, sw_exit_code := c, sw_duration_ms := d\<rparr> else r) (find_step s q x)"
  proof -
    have "find_step (ex (UpdateStep t c d pk n) s) q x =
        map_option (\<lambda>r. if sw_job_id r = pk \<and> sw_name r = n then r\<lparr>sw_status := t, sw_exit_code := c, sw_duration_ms := d\<rparr> else r) (find_step s q x)"
      by (simp add: find_step_def find_update_where)
    then show ?thesis using find_rows(3) [of s q x] by (cases "find_step s q x") simp_all
  qed
qed (auto simp: find_step_def ex_insert_run_def ex_insert_job_def ex_insert_step_def list_ex_find find_append
    split: option.splits)

lemmas rows_ex = find_run_ex find_job_ex find_step_ex

declare ex.simps [simp del]

text \<open>What the constraints say of the queries: a fresh key has no children, and a key names one row.\<close>

lemma fresh_children:
  assumes "store_ok s"
  shows "find_job s (fresh_id (map rr_id (db_runs s))) n = None" "find_step s (fresh_id (map jw_id (db_jobs s))) n = None"
proof -
  have "jw_run_id ` set (db_jobs s) \<subseteq> rr_id ` set (db_runs s)" "sw_job_id ` set (db_steps s) \<subseteq> jw_id ` set (db_jobs s)"
    using assms by (simp_all add: store_ok_def)
  then have "fresh_id (map rr_id (db_runs s)) \<notin> jw_run_id ` set (db_jobs s)"
    "fresh_id (map jw_id (db_jobs s)) \<notin> sw_job_id ` set (db_steps s)"
    using fresh_id_notin [of rr_id "db_runs s"] fresh_id_notin [of jw_id "db_jobs s"] by blast+
  then show "find_job s (fresh_id (map rr_id (db_runs s))) n = None" "find_step s (fresh_id (map jw_id (db_jobs s))) n = None"
    by (auto simp: find_job_def find_step_def find_None_iff image_iff)
qed

lemma keys_unique:
  assumes "store_ok s"
  shows "find_run s x = Some r \<Longrightarrow> find_run s y = Some r' \<Longrightarrow> rr_id r = rr_id r' \<longleftrightarrow> x = y"
    and "find_job s p n = Some j \<Longrightarrow> find_job s q m = Some j' \<Longrightarrow> jw_id j = jw_id j' \<longleftrightarrow> p = q \<and> n = m"
proof -
  assume r: "find_run s x = Some r" "find_run s y = Some r'"
  have "inj_on rr_id (set (db_runs s))" using assms by (simp add: store_ok_def distinct_map)
  then show "rr_id r = rr_id r' \<longleftrightarrow> x = y" using r find_rows(1) by (metis inj_onD option.inject)
next
  assume j: "find_job s p n = Some j" "find_job s q m = Some j'"
  have "inj_on jw_id (set (db_jobs s))" using assms by (simp add: store_ok_def distinct_map)
  then show "jw_id j = jw_id j' \<longleftrightarrow> p = q \<and> n = m" using j find_rows(2) by (metis inj_onD option.inject)
qed

lemmas at_defs = job_at_def step_at_def

lemma job_at_ex:
  assumes ok: "store_ok s"
  shows "job_at (ex (InsertRun rid p t u) s) x n = job_at s x n"
    and "job_at (ex (UpdateRun t u rid) s) x n = job_at s x n"
    and "find_run s rid = Some r \<Longrightarrow> job_at (ex (InsertJob (rr_id r) m g t u) s) x n =
      (if job_at s rid m = None \<and> x = rid \<and> n = m
       then Some \<lparr>jw_id = fresh_id (map jw_id (db_jobs s)), jw_run_id = rr_id r, jw_name = m, jw_stage = g, jw_status = t,
             jw_started_at = u, jw_finished_at = None\<rparr>
       else job_at s x n)"
    and "find_run s rid = Some r \<Longrightarrow> job_at (ex (UpdateJob t u (rr_id r) m) s) x n =
      map_option (\<lambda>j. if x = rid \<and> n = m then j\<lparr>jw_status := t, jw_finished_at := Some u\<rparr> else j) (job_at s x n)"
    and "job_at (ex (InsertStep pk m t) s) x n = job_at s x n"
    and "job_at (ex (UpdateStep t c d pk m) s) x n = job_at s x n"
proof -
  have u: "rr_id r' = rr_id r \<longleftrightarrow> x = rid" if "find_run s rid = Some r" "find_run s x = Some r'" for r'
    using keys_unique(1) [OF ok that(2,1)] .
  show "job_at (ex (InsertRun rid p t u) s) x n = job_at s x n"
    by (simp add: job_at_def rows_ex fresh_children [OF ok])
  show "job_at (ex (UpdateRun t u rid) s) x n = job_at s x n"
    by (cases "find_run s x") (simp_all add: job_at_def rows_ex)
  show "find_run s rid = Some r \<Longrightarrow> job_at (ex (InsertJob (rr_id r) m g t u) s) x n =
      (if job_at s rid m = None \<and> x = rid \<and> n = m
       then Some \<lparr>jw_id = fresh_id (map jw_id (db_jobs s)), jw_run_id = rr_id r, jw_name = m, jw_stage = g, jw_status = t,
             jw_started_at = u, jw_finished_at = None\<rparr>
       else job_at s x n)"
    by (cases "find_run s x") (auto simp: job_at_def rows_ex u)
  show "find_run s rid = Some r \<Longrightarrow> job_at (ex (UpdateJob t u (rr_id r) m) s) x n =
      map_option (\<lambda>j. if x = rid \<and> n = m then j\<lparr>jw_status := t, jw_finished_at := Some u\<rparr> else j) (job_at s x n)"
    by (cases "find_run s x") (simp_all add: job_at_def rows_ex u)
qed (simp_all add: job_at_def rows_ex)

lemma step_at_ex:
  assumes ok: "store_ok s"
  shows "step_at (ex (InsertRun rid p t u) s) x n k = step_at s x n k"
    and "step_at (ex (UpdateRun t u rid) s) x n k = step_at s x n k"
    and "find_run s rid = Some r \<Longrightarrow> step_at (ex (InsertJob (rr_id r) m g t u) s) x n k = step_at s x n k"
    and "find_run s rid = Some r \<Longrightarrow> step_at (ex (UpdateJob t u (rr_id r) m) s) x n k = step_at s x n k"
    and "job_at s rid m = Some j \<Longrightarrow> step_at (ex (InsertStep (jw_id j) l t) s) x n k =
      (if step_at s rid m l = None \<and> x = rid \<and> n = m \<and> k = l
       then Some \<lparr>sw_id = fresh_id (map sw_id (db_steps s)), sw_job_id = jw_id j, sw_name = l, sw_status = t,
             sw_exit_code = None, sw_duration_ms = None, sw_payload = ''{}''\<rparr>
       else step_at s x n k)"
    and "job_at s rid m = Some j \<Longrightarrow> step_at (ex (UpdateStep t c d (jw_id j) l) s) x n k =
      map_option (\<lambda>y. if x = rid \<and> n = m \<and> k = l then y\<lparr>sw_status := t, sw_exit_code := c, sw_duration_ms := d\<rparr> else y)
        (step_at s x n k)"
proof -
  have jobs: "jw_id j' = jw_id j \<longleftrightarrow> x = rid \<and> n = m" if "job_at s rid m = Some j" "job_at s x n = Some j'" for j j'
  proof -
    from that obtain r r' where "find_run s rid = Some r" "find_job s (rr_id r) m = Some j"
      "find_run s x = Some r'" "find_job s (rr_id r') n = Some j'" by (auto simp: job_at_def bind_eq_Some_conv)
    then show ?thesis using keys_unique [OF ok] by metis
  qed
  show "step_at (ex (InsertRun rid p t u) s) x n k = step_at s x n k" "step_at (ex (UpdateRun t u rid) s) x n k = step_at s x n k"
    by (simp_all add: step_at_def job_at_ex [OF ok] rows_ex)
  show "find_run s rid = Some r \<Longrightarrow> step_at (ex (InsertJob (rr_id r) m g t u) s) x n k = step_at s x n k"
    using fresh_children(2) [OF ok] by (auto simp: step_at_def job_at_ex [OF ok] rows_ex)
  show "find_run s rid = Some r \<Longrightarrow> step_at (ex (UpdateJob t u (rr_id r) m) s) x n k = step_at s x n k"
    by (cases "job_at s x n") (auto simp: step_at_def job_at_ex [OF ok] rows_ex)
  show "job_at s rid m = Some j \<Longrightarrow> step_at (ex (InsertStep (jw_id j) l t) s) x n k =
      (if step_at s rid m l = None \<and> x = rid \<and> n = m \<and> k = l
       then Some \<lparr>sw_id = fresh_id (map sw_id (db_steps s)), sw_job_id = jw_id j, sw_name = l, sw_status = t,
             sw_exit_code = None, sw_duration_ms = None, sw_payload = ''{}''\<rparr>
       else step_at s x n k)"
    by (cases "job_at s x n") (auto simp: step_at_def job_at_ex [OF ok] rows_ex jobs)
  show "job_at s rid m = Some j \<Longrightarrow> step_at (ex (UpdateStep t c d (jw_id j) l) s) x n k =
      map_option (\<lambda>y. if x = rid \<and> n = m \<and> k = l then y\<lparr>sw_status := t, sw_exit_code := c, sw_duration_ms := d\<rparr> else y)
        (step_at s x n k)"
    by (cases "job_at s x n") (auto simp: step_at_def job_at_ex [OF ok] rows_ex jobs)
qed

lemma view_simps [simp]:
  "v_runs (view s) rid = map_option run_info_of (find_run s rid)"
  "v_jobs (view s) (rid, n) = map_option job_info_of (job_at s rid n)"
  "v_steps (view s) (rid, n, t) = map_option step_info_of (step_at s rid n t)"
  by (simp_all add: view_def)

lemma view_eqI:
  "(\<And>x. v_runs v x = map_option run_info_of (find_run s x)) \<Longrightarrow>
   (\<And>x n. v_jobs v (x, n) = map_option job_info_of (job_at s x n)) \<Longrightarrow>
   (\<And>x n t. v_steps v (x, n, t) = map_option step_info_of (step_at s x n t)) \<Longrightarrow> view s = v"
  by (cases v) (auto simp: view_def fun_eq_iff)

lemma view_ex:
  assumes ok: "store_ok s"
  shows "view (ex (InsertRun rid p t u) s) = (if find_run s rid = None
      then (view s)\<lparr>v_runs := (v_runs (view s))(rid \<mapsto> \<lparr>ri_pipeline = p, ri_status = t, ri_started = u, ri_finished = None\<rparr>)\<rparr>
      else view s)"
    and "view (ex (UpdateRun t u rid) s) = (view s)\<lparr>v_runs := (v_runs (view s))
      (rid := map_option (\<lambda>r. r\<lparr>ri_status := t, ri_finished := Some u\<rparr>) (v_runs (view s) rid))\<rparr>"
    and "find_run s rid = Some r \<Longrightarrow> view (ex (InsertJob (rr_id r) m g t u) s) = (if job_at s rid m = None
      then (view s)\<lparr>v_jobs := (v_jobs (view s))((rid, m) \<mapsto> \<lparr>ji_stage = g, ji_status = t, ji_started = u, ji_finished = None\<rparr>)\<rparr>
      else view s)"
    and "find_run s rid = Some r \<Longrightarrow> view (ex (UpdateJob t u (rr_id r) m) s) = (view s)\<lparr>v_jobs := (v_jobs (view s))
      ((rid, m) := map_option (\<lambda>j. j\<lparr>ji_status := t, ji_finished := Some u\<rparr>) (v_jobs (view s) (rid, m)))\<rparr>"
    and "job_at s rid m = Some j \<Longrightarrow> view (ex (InsertStep (jw_id j) l t) s) = (if step_at s rid m l = None
      then (view s)\<lparr>v_steps := (v_steps (view s))((rid, m, l) \<mapsto> \<lparr>si_status = t, si_exit_code = None, si_duration_ms = None\<rparr>)\<rparr>
      else view s)"
    and "job_at s rid m = Some j \<Longrightarrow> view (ex (UpdateStep t c d (jw_id j) l) s) = (view s)\<lparr>v_steps := (v_steps (view s))
      ((rid, m, l) := map_option (\<lambda>y. y\<lparr>si_status := t, si_exit_code := c, si_duration_ms := d\<rparr>) (v_steps (view s) (rid, m, l)))\<rparr>"
  by (rule view_eqI; auto simp: find_run_ex job_at_ex [OF ok] step_at_ex [OF ok] run_info_of_def job_info_of_def step_info_of_def option.map_comp comp_def
      intro!: option.map_cong)+

lemma runRow_view:
  "runRow no_faults rid s = Inr pk \<longleftrightarrow> (\<exists>r. find_run s rid = Some r \<and> pk = rr_id r)"
  "(\<exists>err. runRow no_faults rid s = Inl err) \<longleftrightarrow> find_run s rid = None"
  by (auto simp: runRow_find split: option.splits)

lemma jobRow_view:
  "jobRow no_faults rid n s = Inr pk \<longleftrightarrow> (\<exists>j. job_at s rid n = Some j \<and> pk = jw_id j)"
  "(\<exists>err. jobRow no_faults rid n s = Inl err) \<longleftrightarrow> job_at s rid n = None"
  by (auto simp: jobRow_find runRow_find job_at_def split: option.splits)

text \<open>The refinement: without faults, recording is the abstract operation on the view.\<close>

definition refines :: "db \<Rightarrow> go_error option \<times> db \<Rightarrow> results_view option \<Rightarrow> bool" where
  "refines s res av \<longleftrightarrow> (case av of None \<Rightarrow> (\<exists>err. res = (Some err, s)) | Some v \<Rightarrow> fst res = None \<and> view (snd res) = v)"

lemma refines_exec: "view (ex st s) = v \<Longrightarrow> refines s (ExecContext no_faults w st s) (Some v)"
  by (simp add: refines_def ExecContext_def no_faults_def)

lemma refines_run:
  assumes "find_run s rid = None \<Longrightarrow> av = None" and "\<And>r. find_run s rid = Some r \<Longrightarrow> refines s (g (rr_id r)) av"
  shows "refines s (case runRow no_faults rid s of Inl err \<Rightarrow> (Some err, s) | Inr pk \<Rightarrow> g pk) av"
  using assms by (cases "find_run s rid") (auto simp: runRow_find refines_def)

lemma refines_job:
  assumes "job_at s rid n = None \<Longrightarrow> av = None" and "\<And>j. job_at s rid n = Some j \<Longrightarrow> refines s (g (jw_id j)) av"
  shows "refines s (case jobRow no_faults rid n s of Inl err \<Rightarrow> (Some err, s) | Inr pk \<Rightarrow> g pk) av"
proof (cases "job_at s rid n")
  case None
  then obtain err where "jobRow no_faults rid n s = Inl err" using jobRow_view(2) by blast
  then show ?thesis using assms(1) [OF None] by (simp add: refines_def)
next
  case (Some j)
  then have "jobRow no_faults rid n s = Inr (jw_id j)" by (simp add: jobRow_view)
  then show ?thesis using assms(2) [OF Some] by simp
qed

lemma Record_refines:
  assumes ok: "store_ok s"
  shows "refines s (Record no_faults s e) (arecord (view s) e)"
proof -
  note view = view_ex [OF ok] and ty = event_type_defs and pending = status_defs status_String_def
  have 1: "refines s (recordPipelineStarted no_faults s e) (arecord (view s) e)" if "ev_Type e = EventPipelineStarted"
    using that by (auto simp: arecord_def Let_def recordPipelineStarted_def view pending refines_def [of _ "(Some _, _)"]
        intro!: refines_exec)
  have 2: "refines s (recordPipelineFinished no_faults s e) (arecord (view s) e)" if "ev_Type e = EventPipelineFinished"
    using that by (auto simp: arecord_def Let_def recordPipelineFinished_def ty view intro!: refines_exec)
  have 3: "refines s (recordJobStarted no_faults s e) (arecord (view s) e)" if "ev_Type e = EventJobStarted"
    unfolding recordJobStarted_def using that
    by (intro refines_run) (auto simp: arecord_def Let_def ty view pending intro!: refines_exec)
  have 4: "refines s (recordJobFinished no_faults s e) (arecord (view s) e)" if "ev_Type e = EventJobFinished"
    unfolding recordJobFinished_def using that
    by (intro refines_run) (auto simp: arecord_def Let_def ty view intro!: refines_exec)
  have 5: "refines s (recordStepStarted no_faults s e) (arecord (view s) e)" if "ev_Type e = EventStepStarted"
    unfolding recordStepStarted_def using that
    by (intro refines_job) (auto simp: arecord_def Let_def ty view pending intro!: refines_exec)
  have 6: "refines s (recordStepFinished no_faults s e) (arecord (view s) e)" if "ev_Type e = EventStepFinished"
    unfolding recordStepFinished_def using that
    by (intro refines_job; cases "payloadNumber e ''exit_code'' ''Atoi''"; cases "payloadNumber e ''duration_ms'' ''ParseInt''")
      (auto simp: arecord_def Let_def ty view payload_ok_def payload_value_def refines_def ExecContext_def no_faults_def)
  have 7: "refines s (None, s) (arecord (view s) e)"
    if "ev_Type e \<notin> {EventPipelineStarted, EventPipelineFinished, EventJobStarted, EventJobFinished, EventStepStarted, EventStepFinished}"
    using that by (simp add: arecord_def Let_def refines_def)
  show ?thesis unfolding Record_def by (simp only: split: if_split) (use 1 2 3 4 5 6 7 in blast)
qed

text \<open>A fault can only prevent an event from being recorded, not change how it is.\<close>

lemma ExecContext_no_faults: "ExecContext f w st s = (None, s') \<Longrightarrow> ExecContext no_faults w st s = (None, s')"
  by (auto simp: ExecContext_def no_faults_def split: option.splits)

lemma runRow_no_faults: "runRow f rid s = Inr pk \<Longrightarrow> runRow no_faults rid s = Inr pk"
  by (auto simp: runRow_find dest!: runRow_Inr)

lemma jobRow_no_faults: "jobRow f rid n s = Inr pk \<Longrightarrow> jobRow no_faults rid n s = Inr pk"
  by (auto simp: jobRow_find runRow_find dest!: jobRow_Inr)

definition agrees :: "go_error option \<times> db \<Rightarrow> go_error option \<times> db \<Rightarrow> bool" where
  "agrees res res' \<longleftrightarrow> (\<forall>s'. res = (None, s') \<longrightarrow> res' = (None, s'))"

lemma agrees_intros:
  "agrees (Some err, s) res" "agrees res res" "agrees (ExecContext f w st s) (ExecContext no_faults w st s)"
  "(\<And>pk. x = Inr pk \<Longrightarrow> y = Inr pk) \<Longrightarrow> (\<And>pk. x = Inr pk \<Longrightarrow> agrees (g pk) (h pk)) \<Longrightarrow>
     agrees (case x of Inl err \<Rightarrow> (Some err, s) | Inr pk \<Rightarrow> g pk) (case y of Inl err \<Rightarrow> (Some err, s) | Inr pk \<Rightarrow> h pk)"
  "(b \<Longrightarrow> agrees u u') \<Longrightarrow> (\<not> b \<Longrightarrow> agrees v v') \<Longrightarrow> agrees (if b then u else v) (if b then u' else v')"
  using ExecContext_no_faults by (auto simp: agrees_def split: sum.split)

lemma Record_agrees: "agrees (Record f s e) (Record no_faults s e)"
  unfolding Record_def record_defs
  by (intro agrees_intros) (simp_all add: runRow_no_faults jobRow_no_faults)

lemma Record_no_faults: "Record f s e = (None, s') \<Longrightarrow> Record no_faults s e = (None, s')"
  using Record_agrees [of f s e] by (simp add: agrees_def)

lemma Record_error: "Record f s e = (Some err, s') \<Longrightarrow> s' = s"
  using Record_effect [of s f e] by (auto simp: record_effect_def)

lemma Record_view:
  assumes "store_ok s"
  shows "view (snd (Record f s e)) = view s \<or> arecord (view s) e = Some (view (snd (Record f s e)))"
    and "Record f s e = (None, s') \<Longrightarrow> arecord (view s) e = Some (view s')"
proof -
  show *: "Record f s e = (None, s') \<Longrightarrow> arecord (view s) e = Some (view s')" for s'
    using Record_refines [OF assms, of e] Record_no_faults [of f s e s']
    by (auto simp: refines_def split: option.splits)
  show "view (snd (Record f s e)) = view s \<or> arecord (view s) e = Some (view (snd (Record f s e)))"
    using * Record_error [of f s e] by (cases "Record f s e"; cases "fst (Record f s e)") auto
qed

section \<open>Redelivery\<close>

lemma ex_twice: "ex st (ex st s) = ex st s"
  by (cases st) (simp_all add: ex.simps ex_insert_run_def ex_insert_job_def ex_insert_step_def)

definition inserts_run :: "stmt \<Rightarrow> bool" where
  "inserts_run st = (case st of InsertRun a b c d \<Rightarrow> True | _ \<Rightarrow> False)"

lemma find_run_id_ex: "\<not> inserts_run st \<Longrightarrow> map_option rr_id (find_run (ex st s) rid) = map_option rr_id (find_run s rid)"
  by (cases st) (auto simp: inserts_run_def find_run_ex ex.simps(3,6) option.map_comp comp_def intro!: option.map_cong)

lemma runRow_cong:
  "map_option rr_id (find_run s rid) = map_option rr_id (find_run s' rid) \<Longrightarrow> runRow f rid s = runRow f rid s'"
  unfolding runRow_def case_filter_find find_run_def [symmetric]
  by (cases "find_run s rid"; cases "find_run s' rid"; cases "f (SelectRun rid)") simp_all

lemma runRow_ex: "\<not> inserts_run st \<Longrightarrow> runRow f rid (ex st s) = runRow f rid s"
  by (rule runRow_cong) (rule find_run_id_ex)

lemma jobRow_ex:
  "jobRow f rid n (ex (InsertStep a b c) s) = jobRow f rid n s"
  "jobRow f rid n (ex (UpdateStep a' b' c' d' e') s) = jobRow f rid n s"
  unfolding jobRow_def case_filter_find find_job_def [symmetric]
  by (simp_all only: runRow_ex [of "InsertStep a b c"] runRow_ex [of "UpdateStep a' b' c' d' e'"] find_job_ex
      inserts_run_def stmt.case not_False_eq_True)

lemma ExecContext_None [simp]: "ExecContext f w st s = (None, s') \<longleftrightarrow> f st = None \<and> s' = ex st s"
  by (auto simp: ExecContext_def split: option.split)

text \<open>Repeating a query and a statement that went through repeats their results.\<close>

definition repeats :: "(db \<Rightarrow> go_error option \<times> db) \<Rightarrow> db \<Rightarrow> bool" where
  "repeats op s \<longleftrightarrow> (\<forall>s'. op s = (None, s') \<longrightarrow> op s' = (None, s'))"

lemma repeats_exec: "repeats (ExecContext f w st) s"
  by (simp add: repeats_def ex_twice)

lemma repeats_query:
  assumes "\<And>pk w. q s = Inr pk \<Longrightarrow> q (ex (st pk) s) = Inr pk"
  shows "repeats (\<lambda>s. case q s of Inl err \<Rightarrow> (Some err, s) | Inr pk \<Rightarrow> ExecContext f w (st pk) s) s"
  using assms by (cases "q s") (auto simp: repeats_def ex_twice)

lemma record_again:
  "repeats (\<lambda>s. recordPipelineStarted f s e) s" "repeats (\<lambda>s. recordPipelineFinished f s e) s"
  "repeats (\<lambda>s. recordJobStarted f s e) s" "repeats (\<lambda>s. recordJobFinished f s e) s"
  "repeats (\<lambda>s. recordStepStarted f s e) s" "repeats (\<lambda>s. recordStepFinished f s e) s"
proof -
  show "repeats (\<lambda>s. recordPipelineStarted f s e) s"
    by (cases "ev_RunID e = []") (simp_all add: recordPipelineStarted_def repeats_exec, simp add: repeats_def)
  show "repeats (\<lambda>s. recordPipelineFinished f s e) s" unfolding recordPipelineFinished_def by (rule repeats_exec)
  show "repeats (\<lambda>s. recordJobStarted f s e) s" "repeats (\<lambda>s. recordJobFinished f s e) s"
    unfolding recordJobStarted_def recordJobFinished_def by (rule repeats_query; simp add: runRow_ex inserts_run_def)+
  show "repeats (\<lambda>s. recordStepStarted f s e) s" unfolding recordStepStarted_def by (rule repeats_query) (simp add: jobRow_ex)
  show "repeats (\<lambda>s. recordStepFinished f s e) s"
  proof (cases "payload_ok e")
    case True
    then obtain c d where "payloadNumber e ''exit_code'' ''Atoi'' = Inr c" "payloadNumber e ''duration_ms'' ''ParseInt'' = Inr d"
      by (auto simp: payload_ok_def)
    then have eq: "\<And>s. recordStepFinished f s e =
        (case jobRow f (ev_RunID e) (ev_Job e) s of Inl err \<Rightarrow> (Some err, s)
         | Inr pk \<Rightarrow> ExecContext f (\<lambda>err. Errorf [Lit ''results: finish step '', Lit (ev_RunID e), Lit ''/'',
                        Lit (ev_Job e), Lit ''/'', Lit (ev_Step e), Lit '': '', Wrapped err])
                      (UpdateStep (gm_get [] (ev_Payload e) ''status'') c d pk (ev_Step e)) s)"
      by (simp_all add: recordStepFinished_def split: sum.split)
    show ?thesis unfolding eq by (rule repeats_query) (simp add: jobRow_ex)
  next
    case False
    then have "fst (recordStepFinished f s e) \<noteq> None"
      by (auto simp: recordStepFinished_def payload_ok_def split: sum.split)
    then show ?thesis by (auto simp: repeats_def)
  qed
qed

lemma Record_again:
  assumes "Record f s e = (None, s')"
  shows "Record f s' e = (None, s')"
proof -
  have split: "repeats F s \<Longrightarrow> repeats G s \<Longrightarrow> repeats (\<lambda>s. if b then F s else G s) s" for b F G
    by (cases b) simp_all
  have "repeats (\<lambda>s. Record f s e) s"
    unfolding Record_def by (intro split record_again) (simp add: repeats_def)
  then show ?thesis using assms by (simp add: repeats_def)
qed

text \<open>The store keeps the consumer's contract: \<open>Record\<close> is an idempotent handler.\<close>

interpretation recorder: event_handler "Record f" store_ok
  by unfold_locales (auto simp: Record_ok Record_again dest: Record_error)

end
