(* ===== verification/StoreProperties.thy ===== *)
theory StoreProperties
  imports StoreSafety
begin

text \<open>
  The properties of the results store, over its tables and over the view that readers have
  of them.
\<close>

section \<open>Late redelivery\<close>

text \<open>The row that an event is about.\<close>

definition row_exists :: "results_view \<Rightarrow> go_event \<Rightarrow> bool" where
  "row_exists v e \<longleftrightarrow>
     (ev_Type e \<in> {EventPipelineStarted, EventPipelineFinished} \<longrightarrow> v_runs v (ev_RunID e) \<noteq> None) \<and>
     (ev_Type e \<in> {EventJobStarted, EventJobFinished} \<longrightarrow> v_jobs v (ev_RunID e, ev_Job e) \<noteq> None) \<and>
     (ev_Type e \<in> {EventStepStarted, EventStepFinished} \<longrightarrow> v_steps v (ev_RunID e, ev_Job e, ev_Step e) \<noteq> None)"

text \<open>Two different finished events about the same row.\<close>

definition conflicts :: "go_event \<Rightarrow> go_event \<Rightarrow> bool" where
  "conflicts e e' \<longleftrightarrow> e \<noteq> e' \<and> ev_Type e = ev_Type e' \<and> ev_RunID e = ev_RunID e' \<and>
     (ev_Type e = EventPipelineFinished \<or> ev_Type e = EventJobFinished \<and> ev_Job e = ev_Job e' \<or>
      ev_Type e = EventStepFinished \<and> ev_Job e = ev_Job e' \<and> ev_Step e = ev_Step e')"

definition applied :: "results_view \<Rightarrow> go_event \<Rightarrow> bool" where
  "applied v e \<longleftrightarrow> arecord v e = Some v \<and> row_exists v e"

text \<open>Every row implies its parents.\<close>

definition view_ok :: "results_view \<Rightarrow> bool" where
  "view_ok v \<longleftrightarrow> v_runs v [] = None \<and> (\<forall>rid n. v_jobs v (rid, n) \<noteq> None \<longrightarrow> v_runs v rid \<noteq> None) \<and>
     (\<forall>rid n t. v_steps v (rid, n, t) \<noteq> None \<longrightarrow> v_jobs v (rid, n) \<noteq> None)"

lemma view_ok_view: "store_ok s \<Longrightarrow> view_ok (view s)"
proof -
  assume "store_ok s"
  then have "find_run s [] = None" by (auto simp: find_run_def find_None_iff store_ok_def image_iff)
  then show ?thesis by (auto simp: view_ok_def job_at_def step_at_def bind_eq_Some_conv)
qed

text \<open>An event changes a row that is there only when it is the row's finished event.\<close>

lemma arecord_rows:
  assumes "arecord v e = Some v'"
  shows "v_runs v rid = Some r \<Longrightarrow> v_runs v' rid = Some r \<or>
      ev_Type e = EventPipelineFinished \<and> ev_RunID e = rid \<and> v_runs v' rid \<noteq> None"
    and "v_jobs v (rid, n) = Some j \<Longrightarrow> v_jobs v' (rid, n) = Some j \<or>
      ev_Type e = EventJobFinished \<and> ev_RunID e = rid \<and> ev_Job e = n \<and> v_jobs v' (rid, n) \<noteq> None"
    and "v_steps v (rid, n, t) = Some x \<Longrightarrow> v_steps v' (rid, n, t) = Some x \<or>
      ev_Type e = EventStepFinished \<and> ev_RunID e = rid \<and> ev_Job e = n \<and> ev_Step e = t \<and> v_steps v' (rid, n, t) \<noteq> None"
  using assms unfolding arecord_def Let_def by (auto split: if_splits)

text \<open>What it takes for an event to be applied already.\<close>

lemma view_upd_id:
  "v\<lparr>v_runs := (v_runs v)(a := x)\<rparr> = v \<longleftrightarrow> v_runs v a = x" "v\<lparr>v_jobs := (v_jobs v)(b := y)\<rparr> = v \<longleftrightarrow> v_jobs v b = y"
  "v\<lparr>v_steps := (v_steps v)(c := z)\<rparr> = v \<longleftrightarrow> v_steps v c = z" for v :: results_view
  by (cases v; simp add: fun_upd_idem_iff)+

lemma info_upd_id:
  "r = r\<lparr>ri_status := st, ri_finished := f\<rparr> \<longleftrightarrow> ri_status r = st \<and> ri_finished r = f"
  "j = j\<lparr>ji_status := st, ji_finished := f\<rparr> \<longleftrightarrow> ji_status j = st \<and> ji_finished j = f"
  "t = t\<lparr>si_status := st, si_exit_code := ec, si_duration_ms := d\<rparr> \<longleftrightarrow> si_status t = st \<and> si_exit_code t = ec \<and> si_duration_ms t = d"
  for r :: run_info and j :: job_info and t :: step_info
proof -
  show "r = r\<lparr>ri_status := st, ri_finished := f\<rparr> \<longleftrightarrow> ri_status r = st \<and> ri_finished r = f" by (cases r) auto
  show "j = j\<lparr>ji_status := st, ji_finished := f\<rparr> \<longleftrightarrow> ji_status j = st \<and> ji_finished j = f" by (cases j) auto
  show "t = t\<lparr>si_status := st, si_exit_code := ec, si_duration_ms := d\<rparr> \<longleftrightarrow>
      si_status t = st \<and> si_exit_code t = ec \<and> si_duration_ms t = d" by (cases t) auto
qed

definition applied_row :: "results_view \<Rightarrow> go_event \<Rightarrow> bool" where
  "applied_row v e \<longleftrightarrow>
     (let st = gm_get [] (ev_Payload e) ''status''; t = Some (stamp (ev_OccurredAt e)) in
      (ev_Type e = EventPipelineStarted \<longrightarrow> v_runs v (ev_RunID e) \<noteq> None) \<and>
      (ev_Type e = EventPipelineFinished \<longrightarrow> (\<exists>r. v_runs v (ev_RunID e) = Some r \<and> ri_status r = st \<and> ri_finished r = t)) \<and>
      (ev_Type e = EventJobStarted \<longrightarrow> v_jobs v (ev_RunID e, ev_Job e) \<noteq> None) \<and>
      (ev_Type e = EventJobFinished \<longrightarrow>
        (\<exists>j. v_jobs v (ev_RunID e, ev_Job e) = Some j \<and> ji_status j = st \<and> ji_finished j = t)) \<and>
      (ev_Type e = EventStepStarted \<longrightarrow> v_steps v (ev_RunID e, ev_Job e, ev_Step e) \<noteq> None) \<and>
      (ev_Type e = EventStepFinished \<longrightarrow> payload_ok e \<and>
        (\<exists>x. v_steps v (ev_RunID e, ev_Job e, ev_Step e) = Some x \<and> si_status x = st \<and>
           si_exit_code x = payload_value e ''exit_code'' ''Atoi'' \<and> si_duration_ms x = payload_value e ''duration_ms'' ''ParseInt'')))"

lemma applied_iff:
  assumes "view_ok v"
  shows "applied v e \<longleftrightarrow> applied_row v e"
proof -
  have p: "v_runs v [] = None" "v_jobs v (ev_RunID e, ev_Job e) \<noteq> None \<Longrightarrow> v_runs v (ev_RunID e) \<noteq> None"
    "v_steps v (ev_RunID e, ev_Job e, ev_Step e) \<noteq> None \<Longrightarrow> v_jobs v (ev_RunID e, ev_Job e) \<noteq> None"
    using assms unfolding view_ok_def by blast+
  note defs = applied_def applied_row_def arecord_def Let_def row_exists_def event_type_defs view_upd_id info_upd_id
  consider "ev_Type e = EventPipelineStarted" | "ev_Type e = EventPipelineFinished" | "ev_Type e = EventJobStarted"
    | "ev_Type e = EventJobFinished" | "ev_Type e = EventStepStarted" | "ev_Type e = EventStepFinished"
    | "ev_Type e \<notin> {EventPipelineStarted, EventPipelineFinished, EventJobStarted, EventJobFinished, EventStepStarted, EventStepFinished}"
    by blast
  then show ?thesis
  proof cases
    case 1
    then show ?thesis using p(1) by (cases "ev_RunID e = []") (simp_all add: defs)
  next
    case 2
    then show ?thesis by (cases "v_runs v (ev_RunID e)") (simp_all add: defs)
  next
    case 3
    then show ?thesis using p(2)
      by (cases "v_runs v (ev_RunID e)"; cases "v_jobs v (ev_RunID e, ev_Job e)") (simp_all add: defs)
  next
    case 4
    then show ?thesis using p(2)
      by (cases "v_runs v (ev_RunID e)"; cases "v_jobs v (ev_RunID e, ev_Job e)") (simp_all add: defs)
  next
    case 5
    then show ?thesis using p(3)
      by (cases "v_jobs v (ev_RunID e, ev_Job e)"; cases "v_steps v (ev_RunID e, ev_Job e, ev_Step e)") (simp_all add: defs)
  next
    case 6
    then show ?thesis using p(3)
      by (cases "v_jobs v (ev_RunID e, ev_Job e)"; cases "v_steps v (ev_RunID e, ev_Job e, ev_Step e)") (auto simp: defs)
  qed (simp add: defs)
qed

text \<open>Applied once, an event stays applied while no other event finishes its row differently.\<close>

lemma applied_stays:
  assumes "applied_row v e" and "arecord v e' = Some v'" and "\<not> conflicts e e'" and "view_ok v'" "view_ok v"
  shows "applied_row v' e"
proof (cases "e = e'")
  case True
  then have "v' = v" using assms(1,2) applied_iff [OF assms(5)] by (metis applied_def option.inject)
  then show ?thesis using assms(1) by simp
next
  case False
  note rows = arecord_rows [OF assms(2)]
  have run: "v_runs v' (ev_RunID e) = Some r" if "v_runs v (ev_RunID e) = Some r" "ev_Type e = EventPipelineFinished" for r
    using rows(1) [OF that(1)] that(2) assms(3) False by (auto simp: conflicts_def)
  have job: "v_jobs v' (ev_RunID e, ev_Job e) = Some j"
    if "v_jobs v (ev_RunID e, ev_Job e) = Some j" "ev_Type e = EventJobFinished" for j
    using rows(2) [OF that(1)] that(2) assms(3) False by (auto simp: conflicts_def)
  have step: "v_steps v' (ev_RunID e, ev_Job e, ev_Step e) = Some x"
    if "v_steps v (ev_RunID e, ev_Job e, ev_Step e) = Some x" "ev_Type e = EventStepFinished" for x
    using rows(3) [OF that(1)] that(2) assms(3) False by (auto simp: conflicts_def)
  have "v_runs v (ev_RunID e) \<noteq> None \<Longrightarrow> v_runs v' (ev_RunID e) \<noteq> None"
    "v_jobs v (ev_RunID e, ev_Job e) \<noteq> None \<Longrightarrow> v_jobs v' (ev_RunID e, ev_Job e) \<noteq> None"
    "v_steps v (ev_RunID e, ev_Job e, ev_Step e) \<noteq> None \<Longrightarrow> v_steps v' (ev_RunID e, ev_Job e, ev_Step e) \<noteq> None"
    using rows(1) [of "ev_RunID e"] rows(2) [of "ev_RunID e" "ev_Job e"] rows(3) [of "ev_RunID e" "ev_Job e" "ev_Step e"]
    by fastforce+
  then show ?thesis using assms(1) run job step unfolding applied_row_def Let_def by blast
qed

text \<open>The same over the tables, for any later events and any faults.\<close>

lemma stays_applied:
  assumes "store_ok s" and "Record f s e = (None, s1)" and "row_exists (view s1) e"
    and "\<forall>(f', e') \<in> set later. \<not> conflicts e e'"
  shows "view (snd (Record f'' (record_all later s1) e)) = view (record_all later s1)"
proof -
  have ok: "store_ok s1" using Record_ok [OF assms(1), of f e] assms(2) by simp
  have "arecord (view s1) e = Some (view s1)"
    using Record_view(2) [OF ok Record_again [OF assms(2)]] .
  then have "applied_row (view s1) e"
    using assms(3) applied_iff [OF view_ok_view [OF ok]] unfolding applied_def by blast
  then have "applied_row (view (record_all later s1)) e" using ok assms(4)
  proof (induction later arbitrary: s1)
    case (Cons fe later)
    obtain f' e' where fe: "fe = (f', e')" by (cases fe)
    let ?s = "snd (Record f' s1 e')"
    have ok': "store_ok ?s" by (rule Record_ok [OF Cons.prems(2)])
    have "applied_row (view ?s) e"
      using Record_view(1) [OF Cons.prems(2), of f' e'] Cons.prems(1,3) fe
        applied_stays [OF Cons.prems(1) _ _ view_ok_view [OF ok'] view_ok_view [OF Cons.prems(2)], of e'] by auto
    then show ?case using Cons.IH [OF _ ok'] Cons.prems(3) by (simp add: record_all_def fe)
  qed (simp add: record_all_def)
  then have "arecord (view (record_all later s1)) e = Some (view (record_all later s1))"
    using applied_iff [OF view_ok_view [OF record_all_ok [OF ok]], of later e] unfolding applied_def by blast
  then show ?thesis using Record_view(1) [OF record_all_ok [OF ok], of f'' later e] by auto
qed

section \<open>Examples\<close>

definition ev :: "string \<Rightarrow> gotime \<Rightarrow> string \<Rightarrow> string \<Rightarrow> string gomap \<Rightarrow> go_event" where
  "ev type t job step payload = \<lparr>ev_Type = type, ev_OccurredAt = t, ev_RunID = ''run-1'', ev_Pipeline = ''ci'', ev_Job = job,
     ev_Step = step, ev_Payload = payload\<rparr>"

definition ev_step_done :: go_event where
  "ev_step_done = ev EventStepFinished 4 ''lint'' ''vet'' [(''status'', ''failed''), (''duration_ms'', ''12''), (''exit_code'', ''3'')]"

definition demo_events :: "(faults \<times> go_event) list" where
  "demo_events = map (Pair no_faults)
     [ev EventPipelineStarted 1 [] [] [], ev EventJobStarted 2 ''lint'' [] [(''stage'', ''check'')],
      ev EventStepStarted 3 ''lint'' ''vet'' []]"

definition demo_db :: db where
  "demo_db =
     \<lparr>db_runs = [\<lparr>rr_id = 1, rr_run_id = ''run-1'', rr_pipeline = ''ci'', rr_status = ''pending'',
                  rr_started_at = ''1970-01-01T00:00:00.000000001Z'', rr_finished_at = None\<rparr>],
      db_jobs = [\<lparr>jw_id = 1, jw_run_id = 1, jw_name = ''lint'', jw_stage = ''check'', jw_status = ''pending'',
                  jw_started_at = ''1970-01-01T00:00:00.000000002Z'', jw_finished_at = None\<rparr>],
      db_steps = [\<lparr>sw_id = 1, sw_job_id = 1, sw_name = ''vet'', sw_status = ''pending'', sw_exit_code = None,
                  sw_duration_ms = None, sw_payload = ''{}''\<rparr>]\<rparr>"

lemmas demo_db_eq = demo_db_def

lemma demo_db_ok: "store_ok demo_db"
  by (simp add: demo_db_def store_ok_def)

lemma demo_numbers:
  "payloadNumber ev_step_done ''exit_code'' ''Atoi'' = Inr (Some 3)"
  "payloadNumber ev_step_done ''duration_ms'' ''ParseInt'' = Inr (Some 12)"
  by code_simp+

section \<open>Properties\<close>

text \<open>
  C30. Whatever events arrive, in whatever order, and whichever statements SQLite
  fails, the tables keep their constraints: primary keys are unique, so are run IDs, job names
  in a run and step names in a job, every job belongs to a run and every step to a job, and
  no run is without an ID. An event that is refused changes no row, and a fault can only
  prevent an event from being recorded, not change what is recorded.
\<close>

theorem store_invariant:
  assumes "store_ok s"
  shows "store_ok (record_all fes s) \<and>
    (\<forall>f e err s'. Record f s e = (Some err, s') \<longrightarrow> s' = s) \<and>
    (\<forall>f e s'. Record f s e = (None, s') \<longrightarrow> Record no_faults s e = (None, s'))"
  using record_all_ok [OF assms] Record_error Record_no_faults by blast

theorem store_invariant_witness: "store_ok (record_all demo_events empty_db)"
  using store_invariant [OF store_ok_empty] by blast

text \<open>
  C9. Seen through the queries that readers make, recording an event is the
  abstract operation on runs, jobs and steps by name: a start adds a pending entry unless
  there is one, a finish sets the status, the time and the payload's numbers of the entry,
  and an event with no run ID at a start, with an unknown run or job, or with a number that
  does not parse is refused.
\<close>

theorem record_refines:
  assumes "store_ok s"
  shows "case arecord (view s) e of
      None \<Rightarrow> \<exists>err. Record no_faults s e = (Some err, s)
    | Some v \<Rightarrow> \<exists>s'. Record no_faults s e = (None, s') \<and> view s' = v"
  using Record_refines [OF assms, of e]
  by (cases "Record no_faults s e") (auto simp: refines_def split: option.splits)

theorem record_refines_witness:
  "\<exists>s'. Record no_faults demo_db ev_step_done = (None, s') \<and>
     v_steps (view s') (''run-1'', ''lint'', ''vet'') = Some \<lparr>si_status = ''failed'', si_exit_code = Some 3, si_duration_ms = Some 12\<rparr>"
proof -
  have "v_jobs (view demo_db) (''run-1'', ''lint'') \<noteq> None" "v_steps (view demo_db) (''run-1'', ''lint'', ''vet'') =
      Some \<lparr>si_status = ''pending'', si_exit_code = None, si_duration_ms = None\<rparr>"
    unfolding demo_db_eq
    by (simp_all add: job_at_def step_at_def find_defs job_info_of_def step_info_of_def)
  moreover have "payload_ok ev_step_done" "payload_value ev_step_done ''exit_code'' ''Atoi'' = Some 3"
    "payload_value ev_step_done ''duration_ms'' ''ParseInt'' = Some 12"
    by (simp_all add: payload_ok_def payload_value_def demo_numbers)
  ultimately have "arecord (view demo_db) ev_step_done = Some ((view demo_db)\<lparr>v_steps := (v_steps (view demo_db))
      ((''run-1'', ''lint'', ''vet'') \<mapsto> \<lparr>si_status = ''failed'', si_exit_code = Some 3, si_duration_ms = Some 12\<rparr>)\<rparr>)"
    by (auto simp: arecord_def Let_def ev_step_done_def ev_def event_type_defs gm_get_def)
  with record_refines [OF demo_db_ok, of ev_step_done] obtain s' where
    rec: "Record no_faults demo_db ev_step_done = (None, s')" and
    v: "view s' = (view demo_db)\<lparr>v_steps := (v_steps (view demo_db))
      ((''run-1'', ''lint'', ''vet'') \<mapsto> \<lparr>si_status = ''failed'', si_exit_code = Some 3, si_duration_ms = Some 12\<rparr>)\<rparr>"
    by auto
  have "v_steps (view s') (''run-1'', ''lint'', ''vet'') =
      Some \<lparr>si_status = ''failed'', si_exit_code = Some 3, si_duration_ms = Some 12\<rparr>" unfolding v by simp
  then show ?thesis using rec by blast
qed



text \<open>
  What the runner reports of a step is what the results table says: recording
  the finished event built for a step result, for a job that is known, sets the step's
  status, its duration in milliseconds, and its exit code, which is NULL exactly when the
  process never produced one. The numbers the runner prints always parse.
\<close>

theorem step_columns:
  assumes "store_ok s" and "v_steps (view s) (rid, n, sr_StepName r) \<noteq> None"
  shows "\<exists>s'. Record no_faults s ((stepFinishedEvent n r t)\<lparr>ev_Pipeline := pl, ev_RunID := rid\<rparr>) = (None, s') \<and>
    view s' = (view s)\<lparr>v_steps := (v_steps (view s))((rid, n, sr_StepName r) \<mapsto>
      \<lparr>si_status = status_String (stepStatus r),
       si_exit_code = (if sr_ExitCode r = ExitNone then None else Some (sr_ExitCode r)),
       si_duration_ms = Some (milliseconds (sr_Duration r))\<rparr>)\<rparr>"
proof -
  let ?e = "(stepFinishedEvent n r t)\<lparr>ev_Pipeline := pl, ev_RunID := rid\<rparr>"
  have p: "gm_get [] (finishedPayload r) ''status'' = status_String (stepStatus r)"
    "map_of (finishedPayload r) ''duration_ms'' = Some (itoa (sint (milliseconds (sr_Duration r))))"
    "map_of (finishedPayload r) ''exit_code'' = (if sr_ExitCode r = ExitNone then None else Some (itoa (sint (sr_ExitCode r))))"
    by (simp_all add: finishedPayload_def Let_def gm_get_def)
  have num: "payloadNumber ?e ''exit_code'' ''Atoi'' = Inr (if sr_ExitCode r = ExitNone then None else Some (sr_ExitCode r))"
    "payloadNumber ?e ''duration_ms'' ''ParseInt'' = Inr (Some (milliseconds (sr_Duration r)))"
    using p by (simp_all add: payloadNumber_def stepFinishedEvent_def)
  from assms(2) obtain x where x: "v_steps (view s) (rid, n, sr_StepName r) = Some x" by auto
  then have job: "v_jobs (view s) (rid, n) \<noteq> None"
    using view_ok_view [OF assms(1)] unfolding view_ok_def by blast
  have "arecord (view s) ?e = Some ((view s)\<lparr>v_steps := (v_steps (view s))((rid, n, sr_StepName r) \<mapsto>
      \<lparr>si_status = status_String (stepStatus r),
       si_exit_code = (if sr_ExitCode r = ExitNone then None else Some (sr_ExitCode r)),
       si_duration_ms = Some (milliseconds (sr_Duration r))\<rparr>)\<rparr>)"
    using job x num p(1) unfolding arecord_def Let_def payload_ok_def payload_value_def
    by (cases x) (simp add: stepFinishedEvent_def event_type_defs del: view_simps)
  then show ?thesis
    using Record_refines [OF assms(1), of ?e]
    by (cases "Record no_faults s ?e") (auto simp: refines_def)
qed

theorem step_columns_witness:
  "\<exists>s'. Record no_faults demo_db ((stepFinishedEvent ''lint'' \<lparr>sr_StepName = ''vet'', sr_Stdout = [], sr_Stderr = [],
      sr_ExitCode = -1, sr_Duration = 2000000, sr_Err = Some Canceled\<rparr> 9)\<lparr>ev_Pipeline := ''ci'', ev_RunID := ''run-1''\<rparr>) = (None, s')"
proof -
  have "v_steps (view demo_db) (''run-1'', ''lint'', ''vet'') \<noteq> None"
    unfolding demo_db_eq by (simp add: job_at_def step_at_def find_defs)
  then show ?thesis
    using step_columns [OF demo_db_ok, where rid = "''run-1''" and n = "''lint''" and t = 9 and pl = "''ci''" and
      r = "\<lparr>sr_StepName = ''vet'', sr_Stdout = [], sr_Stderr = [], sr_ExitCode = -1, sr_Duration = 2000000, sr_Err = Some Canceled\<rparr>"]
    by auto
qed

text \<open>
  A finished event whose row is not there is accepted and lost: the update
  touches no row, which the store does not check. For the end of a pipeline this includes an
  event without a run ID, and an unknown run.
\<close>

theorem lost_finish:
  assumes "store_ok s" and "ev_Type e = EventPipelineFinished \<and> v_runs (view s) (ev_RunID e) = None \<or>
    ev_Type e = EventJobFinished \<and> v_runs (view s) (ev_RunID e) \<noteq> None \<and> v_jobs (view s) (ev_RunID e, ev_Job e) = None"
  shows "\<exists>s'. Record no_faults s e = (None, s') \<and> view s' = view s"
proof -
  have "arecord (view s) e = Some (view s)"
    using assms(2)
    by (elim disjE conjE exE) (simp_all add: arecord_def Let_def event_type_defs view_upd_id del: view_simps)
  then show ?thesis
    using Record_refines [OF assms(1), of e] by (cases "Record no_faults s e") (auto simp: refines_def)
qed

theorem lost_finish_witness:
  "\<exists>s'. Record no_faults demo_db ((ev EventPipelineFinished 9 [] [] [(''status'', ''passed'')])\<lparr>ev_RunID := []\<rparr>) = (None, s') \<and>
     view s' = view demo_db"
  by (rule lost_finish [OF demo_db_ok]) (simp add: ev_def demo_db_eq find_defs)

text \<open>
  The stored time stamps are not sortable as text: the fraction of a
  second loses its trailing zeros, so a whole second sorts after every later time within it.
\<close>

theorem stamp_not_sortable:
  "\<exists>t t' :: gotime. t < t' \<and> stamp t' < stamp t"
proof -
  have "nat_digits 1970 = ''1970''" "nat_digits 1 = ''1''" "nat_digits 0 = ''0''"
    by (simp_all add: nat_digits.simps digit_char_def char_of_def bit_0)
  moreover have "replicate 8 (CHR ''0'') = ''00000000''" by (simp add: numeral_eq_Suc)
  ultimately have pads: "pad 4 1970 = ''1970''" "pad 2 1 = ''01''" "pad 2 0 = ''00''" "pad 9 1 = ''000000001''"
    by (simp_all add: pad_def)
  have "civil_from_days 0 = (1970, 1, 1)" by code_simp
  then have "stamp 0 = ''1970-01-01T00:00:00Z''" "stamp 1 = ''1970-01-01T00:00:00.000000001Z''"
    by (simp_all add: stamp_def format_time_def zone_text_def year_of_def fraction_def pads)
  moreover have "CHR ''.'' < CHR ''Z''" by (simp add: less_char_def del: less_char_simp)
  ultimately have "stamp 1 < stamp 0" by (simp del: less_char_simp)
  then show ?thesis by (intro exI [of _ 0] exI [of _ 1]) simp
qed

end
