(* ===== verification/Bus.thy ===== *)
theory Bus
  imports Process
begin

text \<open>
  The event bus (\<open>internal/bus/bus.go\<close>): the names and bounds of the two streams, and the
  publisher, which writes an event as one entry with a JSON envelope. The JSON encoding of
  an event is an argument (theory EventJson has it).
\<close>

definition StreamEvents :: string where "StreamEvents = ''odyssey:events''"
definition StreamDead :: string where "StreamDead = ''odyssey:dead''"
definition maxStreamLen :: goint where "maxStreamLen = 100000"

lemma streams_differ [simp]: "StreamEvents \<noteq> StreamDead" "StreamDead \<noteq> StreamEvents"
  by (simp_all add: StreamEvents_def StreamDead_def)

definition Publisher_Publish :: "(go_event \<Rightarrow> go_error + string) \<Rightarrow> ctx \<Rightarrow> go_event \<Rightarrow> go_error option proc" where
  "Publisher_Publish marshal ctx event =
     (case marshal event of
        Inl err \<Rightarrow> Return (Some err)
      | Inr body \<Rightarrow> callE (XAdd ctx StreamEvents (Some (maxStreamLen, True)) [(''envelope'', body)]))"

end
