(* ===== verification/Consumer.thy ===== *)
theory Consumer
  imports Bus
begin

text \<open>
  The consumer (\<open>internal/consumer/consumer.go\<close>): one service's subscription to the event
  bus. The Redis client, the service's handler and the context are called; the JSON decoding
  of an envelope (theory EventJson has it) and the text of a Redis error are arguments. The two loops that may go on
  for ever, the claim scan and the main loop, take fuel and say whether it ran out.
\<close>

section \<open>Construction\<close>

record consumer_options =
  opt_Group :: string
  opt_Consumer :: string
  opt_Stream :: string
  opt_MinIdle :: duration
  opt_MaxAttempts :: goint
  opt_Block :: duration

definition defaultMinIdle :: duration where "defaultMinIdle = 5 * 60 * 1000000000"
definition defaultMaxAttempts :: goint where "defaultMaxAttempts = 5"
definition readBackoff :: duration where "readBackoff = 2 * 1000000000"
definition defaultBlock :: duration where "defaultBlock = 1000000000"

text \<open>\<open>New\<close>: the first two arguments tell whether the client and the handler are nil.\<close>

definition New :: "bool \<Rightarrow> bool \<Rightarrow> consumer_options \<Rightarrow> go_error + consumer_options" where
  "New clientNil handlerNil opts =
     (if clientNil then Inl (Errorf [Lit ''consumer: nil redis client''])
      else if handlerNil then Inl (Errorf [Lit ''consumer: nil handler''])
      else if opt_Group opts = [] then Inl (Errorf [Lit ''consumer: group must not be empty''])
      else if opt_Consumer opts = [] then Inl (Errorf [Lit ''consumer: consumer must not be empty''])
      else let opts = (if opt_Stream opts = [] then opts\<lparr>opt_Stream := StreamEvents\<rparr> else opts);
               opts = (if opt_MinIdle opts = 0 then opts\<lparr>opt_MinIdle := defaultMinIdle\<rparr> else opts);
               opts = (if opt_MaxAttempts opts = 0 then opts\<lparr>opt_MaxAttempts := defaultMaxAttempts\<rparr> else opts);
               opts = (if opt_Block opts = 0 then opts\<lparr>opt_Block := defaultBlock\<rparr> else opts)
           in Inr opts)"

section \<open>One entry\<close>

type_synonym decoder = "string \<Rightarrow> go_error + go_event"

text \<open>\<open>msg.Values["envelope"].(string)\<close>: the envelope and whether it is a string.\<close>

definition envelope :: "xmessage \<Rightarrow> string \<times> bool" where
  "envelope msg = (case map_of (msg_Values msg) ''envelope'' of Some (RString raw) \<Rightarrow> (raw, True) | _ \<Rightarrow> ([], False))"

definition deadLetterEntry :: "consumer_options \<Rightarrow> ctx \<Rightarrow> string \<Rightarrow> string \<Rightarrow> unit proc" where
  "deadLetterEntry opts ctx i raw =
     pbind (callE (XAdd ctx StreamDead None [(''envelope'', raw), (''source_id'', i)])) (\<lambda>err. case err of
        Some e \<Rightarrow> Return ()
      | None \<Rightarrow> pbind (callE (XAck ctx (opt_Stream opts) (opt_Group opts) i)) (\<lambda>ackErr. Return ()))"

definition deadLetter :: "consumer_options \<Rightarrow> ctx \<Rightarrow> string \<Rightarrow> unit proc" where
  "deadLetter opts ctx i =
     pbind (callM (XRange ctx (opt_Stream opts) i i)) (\<lambda>range. case range of
        Inl err \<Rightarrow> Return ()
      | Inr entries \<Rightarrow>
          pbind (case entries of
              [entry] \<Rightarrow> callE (XAdd ctx StreamDead None [(''envelope'', fst (envelope entry)), (''source_id'', i)])
            | _ \<Rightarrow> Return None) (\<lambda>err. case err of
              Some e \<Rightarrow> Return ()
            | None \<Rightarrow> pbind (callE (XAck ctx (opt_Stream opts) (opt_Group opts) i)) (\<lambda>ackErr. Return ())))"

definition handle :: "decoder \<Rightarrow> consumer_options \<Rightarrow> ctx \<Rightarrow> xmessage \<Rightarrow> unit proc" where
  "handle unmarshal opts ctx msg =
     (case envelope msg of (raw, ok) \<Rightarrow>
        if \<not> ok then deadLetterEntry opts ctx (msg_ID msg) []
        else case unmarshal raw of
               Inl err \<Rightarrow> deadLetterEntry opts ctx (msg_ID msg) raw
             | Inr event \<Rightarrow>
                 pbind (callE (HandleEvent ctx event)) (\<lambda>err. case err of
                    Some e \<Rightarrow> Return ()
                  | None \<Rightarrow> pbind (callE (XAck ctx (opt_Stream opts) (opt_Group opts) (msg_ID msg))) (\<lambda>ackErr. Return ())))"

definition recoverOne :: "decoder \<Rightarrow> consumer_options \<Rightarrow> ctx \<Rightarrow> xmessage \<Rightarrow> unit proc" where
  "recoverOne unmarshal opts ctx msg =
     pbind (callP (XPendingExt ctx (opt_Stream opts) (opt_Group opts) (msg_ID msg) (msg_ID msg) 1)) (\<lambda>pending. case pending of
        Inl err \<Rightarrow> Return ()
      | Inr counts \<Rightarrow>
          if length counts = 1 \<and> sint (hd counts) > sint (opt_MaxAttempts opts) then deadLetter opts ctx (msg_ID msg)
          else handle unmarshal opts ctx msg)"

section \<open>The loops\<close>

fun for_each :: "('a \<Rightarrow> unit proc) \<Rightarrow> 'a list \<Rightarrow> unit proc" where
  "for_each body [] = Return ()"
| "for_each body (x # xs) = pbind (body x) (\<lambda>_. for_each body xs)"

text \<open>The claim scan from a cursor; the result tells whether it came to an end.\<close>

fun recoverFrom :: "nat \<Rightarrow> decoder \<Rightarrow> consumer_options \<Rightarrow> ctx \<Rightarrow> string \<Rightarrow> bool proc" where
  "recoverFrom 0 unmarshal opts ctx start = Return False"
| "recoverFrom (Suc fuel) unmarshal opts ctx start =
     pbind (callC (XAutoClaim ctx (opt_Stream opts) (opt_Group opts) (opt_Consumer opts) (opt_MinIdle opts) start 64))
     (\<lambda>res. case res of
        Inl err \<Rightarrow> pbind (callE (CtxErr ctx)) (\<lambda>_. Return True)
      | Inr (claimed, nxt) \<Rightarrow>
          pbind (for_each (recoverOne unmarshal opts ctx) claimed) (\<lambda>_.
          if nxt = ''0-0'' then Return True else recoverFrom fuel unmarshal opts ctx nxt))"

definition recoverStuck :: "nat \<Rightarrow> decoder \<Rightarrow> consumer_options \<Rightarrow> ctx \<Rightarrow> bool proc" where
  "recoverStuck fuel unmarshal opts ctx = recoverFrom fuel unmarshal opts ctx ''0-0''"

definition ensureGroup :: "(go_error \<Rightarrow> string) \<Rightarrow> consumer_options \<Rightarrow> ctx \<Rightarrow> go_error option proc" where
  "ensureGroup errorText opts ctx =
     pbind (callE (XGroupCreateMkStream ctx (opt_Stream opts) (opt_Group opts) ''0'')) (\<lambda>err. case err of
        Some e \<Rightarrow> if sublist ''BUSYGROUP'' (errorText e) then Return None else Return (Some e)
      | None \<Rightarrow> Return None)"

text \<open>How a pass of the main loop ends: the function returns nil, or the loop goes on.\<close>

datatype pass = Stopped | Continued | OutOfFuel

definition consumeOnce :: "nat \<Rightarrow> decoder \<Rightarrow> consumer_options \<Rightarrow> ctx \<Rightarrow> pass proc" where
  "consumeOnce fuel unmarshal opts ctx =
     pbind (callE (CtxErr ctx)) (\<lambda>ctxErr. case ctxErr of
        Some e \<Rightarrow> Return Stopped
      | None \<Rightarrow>
          pbind (recoverStuck fuel unmarshal opts ctx) (\<lambda>finished.
          if \<not> finished then Return OutOfFuel
          else pbind (callR (XReadGroup ctx (opt_Group opts) (opt_Consumer opts) (opt_Stream opts) 10 (opt_Block opts)))
            (\<lambda>res. case res of
               Inl err \<Rightarrow>
                 pbind (callE (CtxErr ctx)) (\<lambda>ctxErr.
                 if ctxErr \<noteq> None \<or> errors_Is err RedisNil then Return Continued
                 else pbind (callE (WaitAfter ctx readBackoff)) (\<lambda>done. case done of
                        Some e \<Rightarrow> Return Stopped | None \<Rightarrow> Return Continued))
             | Inr streams \<Rightarrow>
                 pbind (for_each (\<lambda>messages. for_each (handle unmarshal opts ctx) messages) streams) (\<lambda>_. Return Continued))))"

text \<open>\<open>Run\<close>: \<^const>\<open>None\<close> when the fuel ran out, else what it returned.\<close>

fun consumeLoop :: "nat \<Rightarrow> nat \<Rightarrow> decoder \<Rightarrow> consumer_options \<Rightarrow> ctx \<Rightarrow> go_error option option proc" where
  "consumeLoop 0 scan unmarshal opts ctx = Return None"
| "consumeLoop (Suc fuel) scan unmarshal opts ctx =
     pbind (consumeOnce scan unmarshal opts ctx) (\<lambda>pass. case pass of
        Stopped \<Rightarrow> Return (Some None)
      | OutOfFuel \<Rightarrow> Return None
      | Continued \<Rightarrow> consumeLoop fuel scan unmarshal opts ctx)"

definition Consumer_Run :: "nat \<Rightarrow> nat \<Rightarrow> (go_error \<Rightarrow> string) \<Rightarrow> decoder \<Rightarrow> consumer_options \<Rightarrow> ctx \<Rightarrow>
    go_error option option proc" where
  "Consumer_Run fuel scan errorText unmarshal opts ctx =
     pbind (ensureGroup errorText opts ctx) (\<lambda>err. case err of
        Some e \<Rightarrow> Return (Some (Some e))
      | None \<Rightarrow> consumeLoop fuel scan unmarshal opts ctx)"

end
