(* ===== verification/ConsumerSafety.thy ===== *)
theory ConsumerSafety
  imports Consumer
begin

text \<open>
  What a consumer guarantees in every behaviour: no entry is acknowledged before it has been
  handled or copied to the dead-letter stream, an entry that cannot be handled is given up
  after a bounded number of attempts, the loops stop for the reasons they should, and the
  fuel of the claim scan is no restriction.
\<close>

section \<open>Acknowledgements\<close>

text \<open>The entries that Redis handed over in a trace.\<close>

fun delivered_by :: "obs \<Rightarrow> xmessage set" where
  "delivered_by (ObsR c (Inr streams)) = set (concat streams)"
| "delivered_by (ObsC c (Inr (msgs, nxt))) = set msgs"
| "delivered_by _ = {}"

definition delivered :: "obs list \<Rightarrow> xmessage set" where
  "delivered tr = \<Union> (delivered_by ` set tr)"

lemma delivered_simps [simp]:
  "delivered [] = {}" "delivered (ob # tr) = delivered_by ob \<union> delivered tr"
  "delivered (tr @ tr') = delivered tr \<union> delivered tr'"
  by (auto simp: delivered_def)

text \<open>
  The call right before an acknowledgement of an entry: the handler accepted the event the
  entry carries, or the entry went to the dead-letter stream, or it is no longer there.
\<close>

definition justifies :: "decoder \<Rightarrow> xmessage set \<Rightarrow> obs \<Rightarrow> string \<Rightarrow> bool" where
  "justifies dec M ob i = (case ob of
     ObsE (HandleEvent c ev) r \<Rightarrow>
       r = None \<and> (\<exists>m \<in> M. msg_ID m = i \<and> snd (envelope m) \<and> dec (fst (envelope m)) = Inr ev)
   | ObsE (XAdd c stream lim vals) r \<Rightarrow> r = None \<and> stream = StreamDead \<and> map_of vals ''source_id'' = Some i
   | ObsM (XRange c stream a b) (Inr entries) \<Rightarrow> a = i \<and> b = i \<and> length entries \<noteq> 1
   | _ \<Rightarrow> False)"

lemma justifies_mono: "justifies dec M ob i \<Longrightarrow> M \<subseteq> M' \<Longrightarrow> justifies dec M' ob i"
  by (auto simp: justifies_def split: obs.splits ecall.splits mcall.splits sum.splits)

definition ack_of :: "obs \<Rightarrow> string option" where
  "ack_of ob = (case ob of ObsE (XAck c st g i) r \<Rightarrow> Some i | _ \<Rightarrow> None)"

fun acks_ok :: "decoder \<Rightarrow> xmessage set \<Rightarrow> obs option \<Rightarrow> obs list \<Rightarrow> bool" where
  "acks_ok dec M prev [] \<longleftrightarrow> True"
| "acks_ok dec M prev (ob # tr) \<longleftrightarrow>
     (case ack_of ob of None \<Rightarrow> True | Some i \<Rightarrow> (case prev of None \<Rightarrow> False | Some p \<Rightarrow> justifies dec M p i)) \<and>
     acks_ok dec M (Some ob) tr"

lemma ack_of_simps [simp]:
  "ack_of (ObsE (XAck c st g i) r) = Some i" "(\<And>c st g i. x \<noteq> XAck c st g i) \<Longrightarrow> ack_of (ObsE x r) = None"
  "ack_of (ObsR x1 r1) = None" "ack_of (ObsC x2 r2) = None" "ack_of (ObsP x3 r3) = None" "ack_of (ObsM x4 r4) = None"
  by (auto simp: ack_of_def split: ecall.split)

lemma acks_ok_weaken: "acks_ok dec M None tr \<Longrightarrow> acks_ok dec M prev tr"
  by (cases tr) (auto split: option.splits)

lemma acks_ok_append: "acks_ok dec M prev tr \<Longrightarrow> acks_ok dec M None tr' \<Longrightarrow> acks_ok dec M prev (tr @ tr')"
  by (induction tr arbitrary: prev) (auto intro: acks_ok_weaken)

definition acks_post :: "decoder \<Rightarrow> xmessage set \<Rightarrow> obs list \<Rightarrow> 'a \<Rightarrow> bool" where
  "acks_post dec K tr res \<longleftrightarrow> (\<forall>M. K \<union> delivered tr \<subseteq> M \<longrightarrow> acks_ok dec M None tr)"

lemma acks_post_Nil [simp]: "acks_post dec K [] res"
  by (simp add: acks_post_def)

lemma acks_pbindI:
  assumes "spec p (acks_post dec K)" and "\<And>a. spec (f a) (acks_post dec K)"
  shows "spec (pbind p f) (acks_post dec K)"
proof (rule spec_pbindI [OF assms(1)], goal_cases)
  case (1 tr a)
  then show ?case
    by (intro spec_mono [OF assms(2) [of a]]) (auto simp: acks_post_def intro!: acks_ok_append)
qed

lemma acks_mono: "spec p (acks_post dec K) \<Longrightarrow> K \<subseteq> K' \<Longrightarrow> spec p (acks_post dec K')"
  by (erule spec_mono) (auto simp: acks_post_def)

lemma deadLetterEntry_acks: "spec (deadLetterEntry opts ctx i raw) (acks_post dec K)"
  by (simp add: deadLetterEntry_def acks_post_def justifies_def split: option.split)

lemma deadLetter_acks: "spec (deadLetter opts ctx i) (acks_post dec K)"
  by (simp add: deadLetter_def acks_post_def justifies_def split: option.split sum.split list.split)

lemma handle_acks: "spec (handle dec opts ctx m) (acks_post dec {m})"
proof (cases "envelope m")
  case (Pair raw ok)
  show ?thesis
  proof (cases "ok \<and> (\<exists>event. dec raw = Inr event)")
    case True
    then obtain event where event: "ok" "dec raw = Inr event" by auto
    have "\<exists>m' \<in> M. msg_ID m' = msg_ID m \<and> snd (envelope m') \<and> dec (fst (envelope m')) = Inr event" if "m \<in> M" for M
      using that event Pair by (auto intro!: bexI [of _ m])
    then show ?thesis using Pair event by (simp add: handle_def acks_post_def justifies_def split: option.split)
  next
    case False
    then show ?thesis using Pair deadLetterEntry_acks by (auto simp: handle_def split: sum.split)
  qed
qed

text \<open>What a read hands over counts as delivered for what follows it.\<close>

lemma acks_after:
  assumes "spec p (acks_post dec (K \<union> delivered_by ob))" and "ack_of ob = None"
  shows "spec p (\<lambda>tr. acks_post dec K (ob # tr))"
  using assms(1) by (rule spec_mono) (use assms(2) in \<open>auto simp: acks_post_def acks_ok_weaken\<close>)

lemma acks_read:
  "(\<And>res. spec (f res) (acks_post dec (K \<union> delivered_by (ObsR r res)))) \<Longrightarrow> spec (pbind (callR r) f) (acks_post dec K)"
  "(\<And>res. spec (g res) (acks_post dec (K \<union> delivered_by (ObsC c res)))) \<Longrightarrow> spec (pbind (callC c) g) (acks_post dec K)"
  by (simp_all add: acks_after)

lemma acks_Return: "spec (Return a) (acks_post dec K)"
  by (simp add: acks_post_def)

lemma acks_other:
  "(\<And>c st g i. x \<noteq> XAck c st g i) \<Longrightarrow> spec (callE x) (acks_post dec K)" "spec (callP y) (acks_post dec K)"
  by (simp_all add: acks_post_def)

lemma acks_splits:
  "(\<And>l. s = Inl l \<Longrightarrow> spec (g l) Q) \<Longrightarrow> (\<And>r. s = Inr r \<Longrightarrow> spec (h r) Q) \<Longrightarrow> spec (case s of Inl l \<Rightarrow> g l | Inr r \<Rightarrow> h r) Q"
  "(b \<Longrightarrow> spec p Q) \<Longrightarrow> (\<not> b \<Longrightarrow> spec q Q) \<Longrightarrow> spec (if b then p else q) Q"
  "(opt = None \<Longrightarrow> spec p Q) \<Longrightarrow> (\<And>x. opt = Some x \<Longrightarrow> spec (f x) Q) \<Longrightarrow> spec (case opt of None \<Rightarrow> p | Some x \<Rightarrow> f x) Q"
  "(\<And>x y. xy = (x, y) \<Longrightarrow> spec (k x y) Q) \<Longrightarrow> spec (case xy of (x, y) \<Rightarrow> k x y) Q"
  by (auto split: sum.split option.split prod.split)

lemmas acks_intros = acks_read acks_pbindI acks_Return acks_other acks_splits

lemma recoverOne_acks: "spec (recoverOne dec opts ctx m) (acks_post dec {m})"
  unfolding recoverOne_def by (intro acks_intros deadLetter_acks handle_acks)

lemma for_each_acks:
  "(\<And>x. x \<in> set xs \<Longrightarrow> spec (body x) (acks_post dec K)) \<Longrightarrow> spec (for_each body xs) (acks_post dec K)"
proof (induction xs)
  case (Cons x xs)
  then show ?case unfolding for_each.simps by (intro acks_pbindI) simp_all
qed (simp add: acks_Return)

lemma recoverFrom_acks: "spec (recoverFrom fuel dec opts ctx start) (acks_post dec {})"
proof (induction fuel arbitrary: start)
  case (Suc fuel)
  show ?case unfolding recoverFrom.simps
    by (intro acks_intros for_each_acks acks_mono [OF recoverOne_acks] acks_mono [OF Suc.IH]) auto
qed (simp add: acks_Return)

lemma consumeOnce_acks: "spec (consumeOnce fuel dec opts ctx) (acks_post dec {})"
  unfolding consumeOnce_def recoverStuck_def
  by (intro acks_intros recoverFrom_acks for_each_acks acks_mono [OF handle_acks]) auto

lemma consumeLoop_acks: "spec (consumeLoop fuel scan dec opts ctx) (acks_post dec {})"
proof (induction fuel)
  case (Suc fuel)
  have "spec (case p of Stopped \<Rightarrow> Return (Some None) | OutOfFuel \<Rightarrow> Return None
      | Continued \<Rightarrow> consumeLoop fuel scan dec opts ctx) (acks_post dec {})" for p
    using Suc.IH acks_Return by (cases p) auto
  then show ?case unfolding consumeLoop.simps by (intro acks_pbindI consumeOnce_acks)
qed (simp add: acks_Return)

lemma Consumer_Run_acks: "spec (Consumer_Run fuel scan txt dec opts ctx) (acks_post dec {})"
  unfolding Consumer_Run_def ensureGroup_def by (intro acks_intros consumeLoop_acks) auto

end
