(* ===== verification/ConsumerProperties.thy ===== *)
theory ConsumerProperties
  imports ConsumerSafety
begin

text \<open>
  The properties of the consumer: acknowledgement, bounded attempts, dead letters, the end of
  the loops, and the options.
\<close>

section \<open>Attempts\<close>

definition is_handled :: "obs \<Rightarrow> bool" where
  "is_handled ob = (case ob of ObsE (HandleEvent c e) r \<Rightarrow> True | _ \<Rightarrow> False)"

definition handled :: "obs list \<Rightarrow> nat" where
  "handled tr = length (filter is_handled tr)"

lemma handled_simps [simp]:
  "handled [] = 0" "handled (ob # tr) = (if is_handled ob then Suc (handled tr) else handled tr)"
  "is_handled (ObsE (HandleEvent c e) r)" "\<not> is_handled (ObsE (XAck c1 st g i) r)" "\<not> is_handled (ObsE (XAdd c2 st l v) r)"
  "\<not> is_handled (ObsP q p)" "\<not> is_handled (ObsM x y)"
  by (simp_all add: handled_def is_handled_def)

lemma handle_attempt:
  assumes "snd (envelope m)" and "dec (fst (envelope m)) = Inr event"
  shows "spec (handle dec opts ctx m) (\<lambda>tr _. handled tr = 1 \<and> (\<exists>r. hd tr = ObsE (HandleEvent ctx event) r))"
  using assms by (cases "envelope m") (simp add: handle_def split: option.split)

lemma deadLetter_attempt: "spec (deadLetter opts ctx i) (\<lambda>tr _. handled tr = 0)"
  by (simp add: deadLetter_def split: option.split sum.split list.split)

text \<open>
  The d-th delivery of an entry to the group: first a read, later claims, which find the
  delivery count at d.
\<close>

definition delivery :: "decoder \<Rightarrow> consumer_options \<Rightarrow> ctx \<Rightarrow> xmessage \<Rightarrow> nat \<Rightarrow> obs list \<Rightarrow> bool" where
  "delivery dec opts ctx m d tr \<longleftrightarrow>
     (if d = 1 then replay (handle dec opts ctx m) tr = Some ()
      else replay (recoverOne dec opts ctx m) tr = Some () \<and> (\<exists>q tr'. tr = ObsP q (Inr [of_nat d]) # tr'))"

lemma delivery_attempt:
  assumes del: "delivery dec opts ctx m d tr" and ev: "snd (envelope m)" "dec (fst (envelope m)) = Inr event"
    and d: "1 \<le> d" "d < 2 ^ 63" and pos: "0 < sint (opt_MaxAttempts opts)"
  shows "handled tr = (if int d \<le> sint (opt_MaxAttempts opts) then 1 else 0)"
proof (cases "d = 1")
  case True
  then have "replay (handle dec opts ctx m) tr = Some ()" using del by (simp add: delivery_def)
  from specD [OF handle_attempt [where dec = dec, OF ev] this] show ?thesis using True pos by simp
next
  case False
  have count: "sint (of_nat d :: goint) = int d"
    using sint_of_int64 [of "int d"] d by (simp add: in_int64_def min_int64_def max_int64_def)
  from del False obtain q tr' where rep: "replay (recoverOne dec opts ctx m) tr = Some ()"
    and tr: "tr = ObsP q (Inr [of_nat d]) # tr'" by (auto simp: delivery_def)
  show ?thesis
  proof (cases "int d \<le> sint (opt_MaxAttempts opts)")
    case True
    then have "replay (handle dec opts ctx m) tr' = Some ()"
      using rep count by (auto simp: tr recoverOne_def callP_def replay_Call simp del: replay.simps)
    from specD [OF handle_attempt [where dec = dec, OF ev] this] show ?thesis using True by (simp add: tr)
  next
    case False
    then have "replay (deadLetter opts ctx (msg_ID m)) tr' = Some ()"
      using rep count by (auto simp: tr recoverOne_def callP_def replay_Call simp del: replay.simps)
    from specD [OF deadLetter_attempt this] show ?thesis using False by (simp add: tr)
  qed
qed

lemma sum_attempts: "(\<Sum>d<n. if d < k then 1 else 0 :: nat) = min n k"
  by (induction n) auto

section \<open>The claim scan\<close>

definition is_claim :: "obs \<Rightarrow> bool" where
  "is_claim ob = (case ob of ObsC c r \<Rightarrow> True | _ \<Rightarrow> False)"

definition final_claim :: "obs \<Rightarrow> bool" where
  "final_claim ob = (case ob of ObsC c r \<Rightarrow> (case r of Inl err \<Rightarrow> True | Inr (msgs, nxt) \<Rightarrow> nxt = ''0-0'') | _ \<Rightarrow> False)"

definition claims :: "obs list \<Rightarrow> nat" where
  "claims tr = length (filter is_claim tr)"

lemma claim_simps [simp]:
  "claims [] = 0" "claims (ob # tr) = (if is_claim ob then Suc (claims tr) else claims tr)"
  "claims (tr @ tr') = claims tr + claims tr'" "is_claim (ObsC c r)" "\<not> is_claim (ObsE x y)"
  "final_claim (ObsC c (Inl err))" "final_claim (ObsC c (Inr (msgs, nxt))) \<longleftrightarrow> nxt = ''0-0''" "\<not> final_claim (ObsE x y)"
  by (simp_all add: claims_def is_claim_def final_claim_def)

lemma recoverOne_no_claim: "calls_only (\<lambda>ob. \<not> is_claim ob) (recoverOne dec opts ctx m)"
  unfolding recoverOne_def deadLetter_def handle_def deadLetterEntry_def
  by (intro beh_intros) (auto simp: is_claim_def split: list.split intro!: beh_intros)

lemma for_each_calls: "(\<And>x. calls_only P (body x)) \<Longrightarrow> calls_only P (for_each body xs)"
  by (induction xs) (auto intro!: beh_intros)

lemma no_claims: "list_all (\<lambda>ob. \<not> is_claim ob) tr \<Longrightarrow> claims tr = 0 \<and> \<not> list_ex final_claim tr"
  by (induction tr) (auto simp: is_claim_def final_claim_def split: obs.splits)

lemma recoverFrom_scan:
  "spec (recoverFrom fuel dec opts ctx start)
     (\<lambda>tr ended. (ended \<longleftrightarrow> list_ex final_claim tr) \<and> (\<not> ended \<longrightarrow> claims tr = fuel) \<and> claims tr \<le> fuel)"
proof (induction fuel arbitrary: start)
  case (Suc fuel)
  have quiet: "spec (for_each (recoverOne dec opts ctx) ms) (\<lambda>tr _. claims tr = 0 \<and> \<not> list_ex final_claim tr)" for ms
    using for_each_calls [OF recoverOne_no_claim] unfolding calls_only_def by (rule spec_mono) (rule no_claims)
  show ?case unfolding recoverFrom.simps
  proof (simp only: spec_pbind spec_calls, intro allI, goal_cases)
    case (1 res)
    show ?case
    proof (cases res)
      case (Inr r)
      obtain ms nxt where r: "r = (ms, nxt)" by (cases r)
      show ?thesis unfolding Inr r sum.case prod.case
        by (rule spec_pbindI [OF quiet]) (auto intro!: spec_mono [OF Suc.IH])
    qed simp
  qed
qed simp

lemma recoverFrom_more:
  "replay (recoverFrom fuel dec opts ctx start) tr = Some True \<Longrightarrow>
     replay (recoverFrom (fuel + k) dec opts ctx start) tr = Some True"
proof (induction fuel arbitrary: start tr)
  case (Suc fuel)
  from Suc.prems obtain res tr' where tr: "tr = ObsC (XAutoClaim ctx (opt_Stream opts) (opt_Group opts) (opt_Consumer opts)
        (opt_MinIdle opts) start 64) res # tr'"
    by (auto simp: callC_def replay_Call replay_pbind)
  show ?case
  proof (cases res)
    case (Inl err)
    then show ?thesis using Suc.prems by (simp add: tr callC_def)
  next
    case (Inr r)
    obtain ms nxt where r: "r = (ms, nxt)" by (cases r)
    show ?thesis
      using Suc.prems unfolding tr Inr r
      by (auto simp: callC_def replay_pbind split: if_splits dest!: Suc.IH)
  qed
qed simp

section \<open>The end of a run\<close>

lemma consumeOnce_stops:
  "spec (consumeOnce scan dec opts ctx) (\<lambda>tr pass. pass = Stopped \<longrightarrow>
     (\<exists>e. last tr \<in> {ObsE (CtxErr ctx) (Some e), ObsE (WaitAfter ctx readBackoff) (Some e)}) \<and> tr \<noteq> [])"
  unfolding consumeOnce_def
proof (simp only: spec_pbind spec_calls, intro allI, goal_cases)
  case (1 ctxErr)
  show ?case
  proof (cases ctxErr)
    case None
    have "spec (for_each body xs) (\<lambda>tr _. True)" for body and xs :: "xmessage list list" by (simp add: spec_def)
    then show ?thesis unfolding None option.case
      by (simp add: recoverStuck_def, intro specI)
        (auto split: sum.split option.split if_splits intro!: spec_mono [OF specI [where Q = "\<lambda>_ _. True"]])
  qed simp
qed

lemma consumeLoop_stops:
  "spec (consumeLoop fuel scan dec opts ctx) (\<lambda>tr res. res \<noteq> None \<longrightarrow> res = Some None \<and>
     (\<exists>e. last tr \<in> {ObsE (CtxErr ctx) (Some e), ObsE (WaitAfter ctx readBackoff) (Some e)}) \<and> tr \<noteq> [])"
proof (induction fuel)
  case (Suc fuel)
  show ?case unfolding consumeLoop.simps
  proof (rule spec_pbindI [OF consumeOnce_stops], goal_cases)
    case (1 tr1 p)
    then show ?case by (cases p) (auto intro!: spec_mono [OF Suc.IH])
  qed
qed simp

section \<open>Examples\<close>

definition demo_opts :: consumer_options where
  "demo_opts = \<lparr>opt_Group = ''recorder'', opt_Consumer = ''host-1'', opt_Stream = StreamEvents, opt_MinIdle = defaultMinIdle,
     opt_MaxAttempts = 2, opt_Block = defaultBlock\<rparr>"

definition demo_event :: go_event where
  "demo_event = \<lparr>ev_Type = EventPipelineStarted, ev_OccurredAt = 0, ev_RunID = ''run-1'', ev_Pipeline = ''ci'', ev_Job = [],
     ev_Step = [], ev_Payload = []\<rparr>"

text \<open>A decoder that knows one envelope.\<close>

definition demo_decoder :: decoder where
  "demo_decoder raw = (if raw = ''ok'' then Inr demo_event else Inl (External ''bad json''))"

definition demo_msg :: "string \<Rightarrow> xmessage" where
  "demo_msg raw = \<lparr>msg_ID = ''1-0'', msg_Values = [(''envelope'', RString raw)]\<rparr>"

definition demo_pending :: pcall where
  "demo_pending = XPendingExt Background StreamEvents ''recorder'' ''1-0'' ''1-0'' 1"

definition demo_attempts :: "obs list list" where
  "demo_attempts =
     [[ObsE (HandleEvent Background demo_event) (Some (External ''locked''))],
      [ObsP demo_pending (Inr [2]), ObsE (HandleEvent Background demo_event) (Some (External ''locked''))],
      [ObsP demo_pending (Inr [3]), ObsM (XRange Background StreamEvents ''1-0'' ''1-0'') (Inr [demo_msg ''ok'']),
       ObsE (XAdd Background StreamDead None [(''envelope'', ''ok''), (''source_id'', ''1-0'')]) None,
       ObsE (XAck Background StreamEvents ''recorder'' ''1-0'') None]]"

lemma demo_deliveries: "\<forall>d < length demo_attempts. delivery demo_decoder demo_opts Background (demo_msg ''ok'') (Suc d) (demo_attempts ! d)"
proof (intro allI impI)
  fix d assume "d < length demo_attempts"
  then consider "d = 0" | "d = 1" | "d = 2" by (force simp: demo_attempts_def)
  then show "delivery demo_decoder demo_opts Background (demo_msg ''ok'') (Suc d) (demo_attempts ! d)"
    by cases (simp_all add: delivery_def demo_attempts_def handle_def recoverOne_def deadLetter_def envelope_def demo_msg_def
        demo_decoder_def demo_opts_def demo_pending_def callE_def callP_def callM_def)
qed

section \<open>Properties\<close>

text \<open>
  C10. No entry is acknowledged too early. In every behaviour of the consumer, the
  call right before each acknowledgement of an entry is the handler accepting the event that
  the delivered entry carries, a successful write of the entry to the dead-letter stream, or
  a read that found the entry gone. So an entry whose handler failed, or whose dead-letter
  copy failed, stays pending.
\<close>

theorem ack_justified:
  assumes "replay (Consumer_Run fuel scan errorText dec opts ctx) tr = Some res"
  shows "acks_ok dec (delivered tr) None tr"
  using specD [OF Consumer_Run_acks assms] by (simp add: acks_post_def)

definition demo_consumer_trace :: "obs list" where
  "demo_consumer_trace =
     [ObsE (XGroupCreateMkStream Background StreamEvents ''recorder'' ''0'') (Some (External ''BUSYGROUP exists'')),
      ObsE (CtxErr Background) None,
      ObsC (XAutoClaim Background StreamEvents ''recorder'' ''host-1'' defaultMinIdle ''0-0'' 64) (Inr ([], ''0-0'')),
      ObsR (XReadGroup Background ''recorder'' ''host-1'' StreamEvents 10 defaultBlock) (Inr [[demo_msg ''ok'']]),
      ObsE (HandleEvent Background demo_event) None, ObsE (XAck Background StreamEvents ''recorder'' ''1-0'') None,
      ObsE (CtxErr Background) (Some Canceled)]"

definition demo_error_text :: "go_error \<Rightarrow> string" where
  "demo_error_text e = (case e of External t \<Rightarrow> t | _ \<Rightarrow> [])"

lemma demo_consumer_replay:
  "replay (Consumer_Run 2 1 demo_error_text demo_decoder demo_opts Background) demo_consumer_trace = Some (Some None)"
  by (simp add: Consumer_Run_def ensureGroup_def demo_error_text_def demo_consumer_trace_def numeral_eq_Suc consumeOnce_def
      recoverStuck_def handle_def envelope_def demo_msg_def demo_decoder_def demo_opts_def call_defs)

theorem ack_justified_witness:
  "acks_ok demo_decoder (delivered demo_consumer_trace) None demo_consumer_trace"
  by (rule ack_justified [OF demo_consumer_replay])



text \<open>
  C33. An entry that can never be handled, because it has no envelope or
  one that does not decode, does not reach the handler: its raw envelope goes to the
  dead-letter stream with the entry's ID, untrimmed, and only if that succeeds is it
  acknowledged; otherwise it stays pending.
\<close>

theorem malformed_dead_lettered:
  assumes "replay (handle dec opts ctx m) tr = Some ()"
    and "\<not> snd (envelope m) \<or> (\<exists>err. dec (fst (envelope m)) = Inl err)"
  shows "\<exists>r. hd tr = ObsE (XAdd ctx StreamDead None [(''envelope'', fst (envelope m)), (''source_id'', msg_ID m)]) r \<and>
    handled tr = 0 \<and>
    (case r of Some e \<Rightarrow> length tr = 1 | None \<Rightarrow> \<exists>r'. tl tr = [ObsE (XAck ctx (opt_Stream opts) (opt_Group opts) (msg_ID m)) r'])"
proof -
  have dead: "spec (deadLetterEntry opts ctx i raw) (\<lambda>tr _.
      \<exists>r. hd tr = ObsE (XAdd ctx StreamDead None [(''envelope'', raw), (''source_id'', i)]) r \<and> handled tr = 0 \<and>
        (case r of Some e \<Rightarrow> length tr = 1 | None \<Rightarrow> \<exists>r'. tl tr = [ObsE (XAck ctx (opt_Stream opts) (opt_Group opts) i) r']))" for i raw
    by (simp add: deadLetterEntry_def split: option.split)
  have "fst (envelope m) = []" if "\<not> snd (envelope m)"
    using that by (auto simp: envelope_def split: option.splits redis_value.splits)
  then have "handle dec opts ctx m = deadLetterEntry opts ctx (msg_ID m) (fst (envelope m))"
    using assms(2) by (auto simp: handle_def case_prod_beta)
  then show ?thesis using specD [OF dead] assms(1) by simp
qed

theorem malformed_dead_lettered_witness:
  "handled [ObsE (XAdd Background StreamDead None [(''envelope'', ''{''), (''source_id'', ''1-0'')]) (Some (External ''down''))] = 0"
proof -
  have "replay (handle demo_decoder demo_opts Background (demo_msg ''{''))
     [ObsE (XAdd Background StreamDead None [(''envelope'', ''{''), (''source_id'', ''1-0'')]) (Some (External ''down''))] = Some ()"
    by (simp add: handle_def deadLetterEntry_def envelope_def demo_msg_def demo_decoder_def callE_def)
  from malformed_dead_lettered [OF this] show ?thesis by (simp add: envelope_def demo_msg_def demo_decoder_def)
qed

text \<open>
  C32. The claim scan goes on until Redis answers with an error or with the final
  cursor, so it reaches every page of the pending entries: with fuel for a given number of
  pages it ends early only for these reasons, it runs out only after that many pages none
  of which was the last, and more fuel does not change a scan that ended.
\<close>

theorem scan_complete:
  assumes "replay (recoverFrom fuel dec opts ctx start) tr = Some ended"
  shows "(ended \<longleftrightarrow> list_ex final_claim tr) \<and> (\<not> ended \<longrightarrow> claims tr = fuel) \<and> claims tr \<le> fuel \<and>
    (ended \<longrightarrow> replay (recoverFrom (fuel + k) dec opts ctx start) tr = Some True)"
  using specD [OF recoverFrom_scan assms] recoverFrom_more assms by auto

theorem scan_complete_witness:
  "replay (recoverFrom (2 + 5) demo_decoder demo_opts Background ''0-0'')
     [ObsC (XAutoClaim Background StreamEvents ''recorder'' ''host-1'' defaultMinIdle ''0-0'' 64) (Inr ([], ''7-0'')),
      ObsC (XAutoClaim Background StreamEvents ''recorder'' ''host-1'' defaultMinIdle ''7-0'' 64) (Inr ([], ''0-0''))] = Some True"
proof -
  have "replay (recoverFrom 2 demo_decoder demo_opts Background ''0-0'')
     [ObsC (XAutoClaim Background StreamEvents ''recorder'' ''host-1'' defaultMinIdle ''0-0'' 64) (Inr ([], ''7-0'')),
      ObsC (XAutoClaim Background StreamEvents ''recorder'' ''host-1'' defaultMinIdle ''7-0'' 64) (Inr ([], ''0-0''))] = Some True"
    by (simp add: numeral_eq_Suc demo_opts_def callC_def)
  from scan_complete [OF this, of 5] show ?thesis by simp
qed

text \<open>
  C34. \<open>Run\<close> returns an error only when the consumer group cannot be created for
  another reason than that it exists, before anything is read; and it returns nil only when
  its context is done, which is the last thing it asked.
\<close>

theorem consumer_stops:
  assumes "replay (Consumer_Run fuel scan errorText dec opts ctx) tr = Some (Some res)"
  shows "case res of
      Some e \<Rightarrow> tr = [ObsE (XGroupCreateMkStream ctx (opt_Stream opts) (opt_Group opts) ''0'') (Some e)] \<and>
        \<not> sublist ''BUSYGROUP'' (errorText e)
    | None \<Rightarrow> \<exists>e. last tr \<in> {ObsE (CtxErr ctx) (Some e), ObsE (WaitAfter ctx readBackoff) (Some e)}"
proof -
  have "spec (Consumer_Run fuel scan errorText dec opts ctx) (\<lambda>tr res. case res of None \<Rightarrow> True | Some r \<Rightarrow> (case r of
      Some e \<Rightarrow> tr = [ObsE (XGroupCreateMkStream ctx (opt_Stream opts) (opt_Group opts) ''0'') (Some e)] \<and>
        \<not> sublist ''BUSYGROUP'' (errorText e)
    | None \<Rightarrow> \<exists>e. last tr \<in> {ObsE (CtxErr ctx) (Some e), ObsE (WaitAfter ctx readBackoff) (Some e)}))"
    unfolding Consumer_Run_def ensureGroup_def
    by (auto split: option.splits intro!: spec_mono [OF consumeLoop_stops])
  from specD [OF this assms] show ?thesis by simp
qed

theorem consumer_stops_witness:
  "\<exists>e. last demo_consumer_trace \<in> {ObsE (CtxErr Background) (Some e), ObsE (WaitAfter Background readBackoff) (Some e)}"
  using consumer_stops [OF demo_consumer_replay] by simp

text \<open>
  A consumer is only built with a client, a handler, a group and a name; the
  options left at zero become the documented defaults, the others are kept.
\<close>

theorem New_options:
  "New clientNil handlerNil opts = Inr opts' \<longleftrightarrow>
     \<not> clientNil \<and> \<not> handlerNil \<and> opt_Group opts \<noteq> [] \<and> opt_Consumer opts \<noteq> [] \<and>
     opts' = \<lparr>opt_Group = opt_Group opts, opt_Consumer = opt_Consumer opts,
       opt_Stream = (if opt_Stream opts = [] then ''odyssey:events'' else opt_Stream opts),
       opt_MinIdle = (if opt_MinIdle opts = 0 then 300000000000 else opt_MinIdle opts),
       opt_MaxAttempts = (if opt_MaxAttempts opts = 0 then 5 else opt_MaxAttempts opts),
       opt_Block = (if opt_Block opts = 0 then 1000000000 else opt_Block opts)\<rparr>"
  by (cases opts) (auto simp: New_def Let_def StreamEvents_def defaultMinIdle_def defaultMaxAttempts_def defaultBlock_def)

end
