(* ===== verification/Startup.thy ===== *)
theory Startup
  imports Store Consumer
begin

text \<open>
  The server's main program (\<open>cmd/server/main.go\<close>) with the constructors it calls:
  \<open>Open\<close> of the results store and \<open>NewDockerRunner\<close>. The environment variables, as
  they are once \<open>godotenv\<close> has read a \<open>.env\<close> file, and the process ID are parameters.
  \<open>os.Exit\<close> ends the program at once, without the deferred calls.
\<close>

section \<open>Opening the results store\<close>

definition closeDB :: "go_error \<Rightarrow> (go_error + string) proc" where
  "closeDB err = pbind (callE (Host CloseDB)) (\<lambda>_. Return (Inl err))"

text \<open>The result is the path that the store was opened on.\<close>

definition Store_Open :: "string \<Rightarrow> (go_error + string) proc" where
  "Store_Open path =
     pbind (callE (Host (SqlOpen path))) (\<lambda>err. case err of
        Some e \<Rightarrow> Return (Inl (Errorf [Lit ''results: open '', Lit path, Lit '': '', Wrapped e]))
      | None \<Rightarrow>
     pbind (callE (Host (SetMaxOpenConns 1))) (\<lambda>_.
     pbind (callE (Host (SqlExec ''PRAGMA journal_mode=WAL''))) (\<lambda>err. case err of
        Some e \<Rightarrow> closeDB (Errorf [Lit ''results: enable WAL on '', Lit path, Lit '': '', Wrapped e])
      | None \<Rightarrow>
     pbind (callE (Host MigrationFiles)) (\<lambda>err. case err of
        Some e \<Rightarrow> closeDB (Errorf [Lit ''results: migration filesystem: '', Wrapped e])
      | None \<Rightarrow>
     pbind (callE (Host NewProvider)) (\<lambda>err. case err of
        Some e \<Rightarrow> closeDB (Errorf [Lit ''results: migration provider: '', Wrapped e])
      | None \<Rightarrow>
     pbind (callE (Host MigrateUp)) (\<lambda>err. case err of
        Some e \<Rightarrow> closeDB (Errorf [Lit ''results: migrate '', Lit path, Lit '': '', Wrapped e])
      | None \<Rightarrow> Return (Inr path)))))))"

text \<open>\<open>Path\<close> and \<open>Close\<close> of an open store.\<close>

definition Store_Path :: "string \<Rightarrow> string" where "Store_Path store = store"
definition Store_Close :: "string \<Rightarrow> go_error option proc" where "Store_Close store = callE (Host CloseDB)"

section \<open>The Docker runner's client\<close>

definition NewDockerRunner :: "go_error option proc" where
  "NewDockerRunner =
     pbind (callE (Host NewDockerClient)) (\<lambda>err. case err of
        Some e \<Rightarrow> Return (Some (Errorf [Lit ''failed to create Docker client: '', Wrapped e]))
      | None \<Rightarrow> Return None)"

definition DockerRunner_Close :: "go_error option proc" where "DockerRunner_Close = callE (Host CloseDocker)"
definition DockerRunner_Ping :: "go_error option proc" where "DockerRunner_Ping = callE (Host PingDocker)"

section \<open>The configuration of the server\<close>

definition listenAddr :: "string \<Rightarrow> string" where
  "listenAddr env = (if env \<noteq> [] then env else ''localhost:50051'')"

text \<open>\<open>newLogger\<close>: the level and the format, by the environment before the \<open>.env\<close> file is read.\<close>

datatype log_level = LevelDebug | LevelInfo
datatype log_format = TextFormat | JSONFormat

definition newLogger :: "(string \<Rightarrow> string) \<Rightarrow> log_level \<times> log_format" where
  "newLogger getenv =
     (if getenv ''ODYSSEY_ENV'' = ''production'' then LevelInfo else LevelDebug,
      if getenv ''ODYSSEY_LOG_FORMAT'' = ''json'' then JSONFormat else TextFormat)"

definition instanceName :: "int \<Rightarrow> string proc" where
  "instanceName pid =
     pbind (callS Hostname) (\<lambda>r. Return ((case r of Inl err \<Rightarrow> ''unknown'' | Inr host \<Rightarrow> host) @ ''-'' @ itoa pid))"

section \<open>\<open>main\<close>\<close>

datatype outcome = Exited nat | Finished

text \<open>
  The recording half: nothing without a Redis address; else whether there is a sink, and the
  deferred calls, the last deferred first; \<^const>\<open>None\<close> when the program has to exit.
\<close>

definition recorderOptions :: "string \<Rightarrow> consumer_options" where
  "recorderOptions name = \<lparr>opt_Group = ''results-recorder'', opt_Consumer = name, opt_Stream = [], opt_MinIdle = 0,
     opt_MaxAttempts = 0, opt_Block = 0\<rparr>"

definition startRecording :: "(string \<Rightarrow> string) \<Rightarrow> int \<Rightarrow> (bool \<times> host_call list) option proc" where
  "startRecording getenv pid =
     (let redisAddr = getenv ''ODYSSEY_REDIS_ADDR'' in
      if redisAddr = [] then Return (Some (False, []))
      else
        pbind (callE (Host (NewRedisClient redisAddr))) (\<lambda>_.
        let resultsPath = (if getenv ''ODYSSEY_RESULTS_DB'' = [] then ''odyssey-results.db'' else getenv ''ODYSSEY_RESULTS_DB'') in
        pbind (Store_Open resultsPath) (\<lambda>store. case store of
           Inl err \<Rightarrow> Return None
         | Inr resultsStore \<Rightarrow>
             pbind (instanceName pid) (\<lambda>name.
             case New False False (recorderOptions name) of
               Inl err \<Rightarrow> Return None
             | Inr opts \<Rightarrow>
                 pbind (callE (Host (GoConsumer (opt_Group opts) (opt_Consumer opts)))) (\<lambda>_.
                 Return (Some (True, [StopSignals, CloseDB, CloseRedis])))))))"

fun runDeferred :: "host_call list \<Rightarrow> unit proc" where
  "runDeferred [] = Return ()"
| "runDeferred (c # cs) = pbind (callE (Host c)) (\<lambda>_. runDeferred cs)"

definition server_main :: "(string \<Rightarrow> string) \<Rightarrow> int \<Rightarrow> outcome proc" where
  "server_main getenv pid =
     pbind (callE (Host GodotenvLoad)) (\<lambda>_.
     pbind (callE (Host (NetListen (listenAddr (getenv ''ODYSSEY_ADDR''))))) (\<lambda>err. case err of
        Some e \<Rightarrow> Return (Exited 1)
      | None \<Rightarrow>
     pbind (startRecording getenv pid) (\<lambda>started. case started of
        None \<Rightarrow> Return (Exited 1)
      | Some (sink, deferred) \<Rightarrow>
     pbind NewDockerRunner (\<lambda>err. case err of
        Some e \<Rightarrow> Return (Exited 1)
      | None \<Rightarrow>
     pbind (callE (Host ServeGRPC)) (\<lambda>err. case err of
        Some e \<Rightarrow> Return (Exited 1)
      | None \<Rightarrow> pbind (runDeferred (CloseDocker # deferred)) (\<lambda>_. Return Finished))))))"

section \<open>What the calls leave open\<close>

text \<open>The resources that are open after the calls of a trace, of which failed calls open none.\<close>

fun opens :: "host_call \<Rightarrow> host_call option" where
  "opens (SqlOpen p) = Some CloseDB"
| "opens (NewRedisClient a) = Some CloseRedis"
| "opens NewDockerClient = Some CloseDocker"
| "opens _ = None"

fun host_step :: "host_call list \<Rightarrow> obs \<Rightarrow> host_call list" where
  "host_step open (ObsE (Host c) r) =
     (if c \<in> {CloseDB, CloseRedis, CloseDocker} then remove1 c open
      else case opens c of Some d \<Rightarrow> if r = None \<or> d = CloseRedis then d # open else open | None \<Rightarrow> open)"
| "host_step open ob = open"

definition left_open :: "obs list \<Rightarrow> host_call list" where
  "left_open tr = foldl host_step [] tr"

text \<open>The answers of the host calls, in order.\<close>

fun host_answer :: "obs \<Rightarrow> (host_call \<times> go_error option) list" where
  "host_answer (ObsE (Host c) r) = [(c, r)]"
| "host_answer ob = []"

definition host_calls :: "obs list \<Rightarrow> (host_call \<times> go_error option) list" where
  "host_calls tr = concat (map host_answer tr)"

lemma host_calls_simps [simp]:
  "host_calls [] = []" "host_calls (ob # tr) = host_answer ob @ host_calls tr" "host_calls (tr @ tr') = host_calls tr @ host_calls tr'"
  by (simp_all add: host_calls_def)

definition succeeded :: "obs list \<Rightarrow> host_call \<Rightarrow> bool" where
  "succeeded tr c \<longleftrightarrow> (c, None) \<in> set (host_calls tr)"

definition called :: "obs list \<Rightarrow> host_call \<Rightarrow> bool" where
  "called tr c \<longleftrightarrow> c \<in> fst ` set (host_calls tr)"

lemma trace_calls [simp]:
  "\<not> called [] c" "called (ObsE (Host d) r # tr) c \<longleftrightarrow> c = d \<or> called tr c" "called (ObsS x s # tr) c = called tr c"
  "called (tr @ tr') c \<longleftrightarrow> called tr c \<or> called tr' c"
  "\<not> succeeded [] c" "succeeded (ObsE (Host d) r # tr) c \<longleftrightarrow> (c = d \<and> r = None) \<or> succeeded tr c"
  "succeeded (ObsS x s # tr) c = succeeded tr c" "succeeded (tr @ tr') c \<longleftrightarrow> succeeded tr c \<or> succeeded tr' c"
  by (auto simp: called_def succeeded_def)

text \<open>A store is open exactly when \<open>Open\<close> succeeded, and then it has been migrated.\<close>

definition open_post :: "string \<Rightarrow> obs list \<Rightarrow> go_error + string \<Rightarrow> bool" where
  "open_post path tr res \<longleftrightarrow> (\<forall>open. foldl host_step open tr = (case res of Inl e \<Rightarrow> open | Inr st \<Rightarrow> CloseDB # open)) \<and>
     \<not> called tr ServeGRPC \<and>
     (\<forall>st. res = Inr st \<longrightarrow> st = path \<and> map fst (host_calls tr) =
        [SqlOpen path, SetMaxOpenConns 1, SqlExec ''PRAGMA journal_mode=WAL'', MigrationFiles, NewProvider, MigrateUp] \<and>
        succeeded tr (SqlOpen path) \<and> succeeded tr MigrateUp)"

lemma Store_Open_post: "spec (Store_Open path) (open_post path)"
  by (simp add: Store_Open_def closeDB_def open_post_def split: option.split)

end
