(* ===== verification/StartupProperties.thy ===== *)
theory StartupProperties
  imports Startup
begin

text \<open>
  The properties of the server's main program: what has happened by the time it serves, how
  it ends, and the names of its instances.
\<close>

section \<open>The sequence of calls\<close>

definition results_path :: "(string \<Rightarrow> string) \<Rightarrow> string" where
  "results_path getenv = (if getenv ''ODYSSEY_RESULTS_DB'' = [] then ''odyssey-results.db'' else getenv ''ODYSSEY_RESULTS_DB'')"

definition recording_calls :: "(string \<Rightarrow> string) \<Rightarrow> string \<Rightarrow> host_call list" where
  "recording_calls getenv name =
     (if getenv ''ODYSSEY_REDIS_ADDR'' = [] then []
      else [NewRedisClient (getenv ''ODYSSEY_REDIS_ADDR''), SqlOpen (results_path getenv), SetMaxOpenConns 1,
            SqlExec ''PRAGMA journal_mode=WAL'', MigrationFiles, NewProvider, MigrateUp, GoConsumer ''results-recorder'' name])"

definition deferred_calls :: "(string \<Rightarrow> string) \<Rightarrow> host_call list" where
  "deferred_calls getenv = (if getenv ''ODYSSEY_REDIS_ADDR'' = [] then [] else [StopSignals, CloseDB, CloseRedis])"

definition named_by :: "int \<Rightarrow> string \<Rightarrow> bool" where
  "named_by pid name \<longleftrightarrow> (\<exists>host. name = host @ ''-'' @ itoa pid)"

lemma instanceName_post: "spec (instanceName pid) (\<lambda>tr name. host_calls tr = [] \<and> (\<forall>op. foldl host_step op tr = op) \<and> named_by pid name)"
  by (auto simp: instanceName_def named_by_def)

lemma New_recorder:
  "named_by pid name \<Longrightarrow> New False False (recorderOptions name) = Inr \<lparr>opt_Group = ''results-recorder'', opt_Consumer = name,
     opt_Stream = StreamEvents, opt_MinIdle = defaultMinIdle, opt_MaxAttempts = defaultMaxAttempts, opt_Block = defaultBlock\<rparr>"
  by (auto simp: New_def recorderOptions_def named_by_def Let_def)

lemma no_calls: "host_calls tr = [] \<Longrightarrow> \<not> called tr c"
  by (simp add: called_def)

lemma not_called: "\<not> called tr c \<Longrightarrow> \<not> succeeded tr c"
  by (auto simp: called_def succeeded_def image_iff)

definition recording_post :: "(string \<Rightarrow> string) \<Rightarrow> int \<Rightarrow> obs list \<Rightarrow> (bool \<times> host_call list) option \<Rightarrow> bool" where
  "recording_post getenv pid tr res \<longleftrightarrow> \<not> called tr ServeGRPC \<and>
     (case res of None \<Rightarrow> True
      | Some (sink, deferred) \<Rightarrow> (\<exists>name. named_by pid name \<and> map fst (host_calls tr) = recording_calls getenv name) \<and>
          deferred = deferred_calls getenv \<and> (sink \<longleftrightarrow> getenv ''ODYSSEY_REDIS_ADDR'' \<noteq> []) \<and>
          foldl host_step [] tr = removeAll StopSignals deferred \<and>
          (sink \<longrightarrow> succeeded tr (SqlOpen (results_path getenv)) \<and> succeeded tr MigrateUp))"

lemma startRecording_post: "spec (startRecording getenv pid) (recording_post getenv pid)"
proof (cases "getenv ''ODYSSEY_REDIS_ADDR'' = []")
  case True
  then show ?thesis
    by (auto simp: startRecording_def recording_post_def recording_calls_def deferred_calls_def named_by_def)
next
  case False
  show ?thesis unfolding startRecording_def Let_def if_not_P [OF False] results_path_def [symmetric]
  proof (simp only: spec_pbind [of "callE _"] spec_calls, intro allI spec_pbindI [OF Store_Open_post], goal_cases)
    case (1 r tr1 st)
    show ?case
    proof (cases st)
      case (Inr store)
      show ?thesis unfolding Inr sum.case
      proof (rule spec_pbindI [OF instanceName_post], goal_cases)
        case (1 tr2 name)
        then show ?case using \<open>open_post _ _ _\<close> False
          by (auto simp: New_recorder recording_post_def recording_calls_def deferred_calls_def open_post_def Inr no_calls)
      qed
    qed (use 1 in \<open>simp add: recording_post_def open_post_def\<close>)
  qed
qed

section \<open>Instance names\<close>

lemma nat_digits_no_dash: "CHR ''-'' \<notin> set (nat_digits n)"
  using nat_digits_are_digits [of n] is_digit_not_sign by (auto simp: list_all_iff)

lemma last_dash:
  assumes "c \<notin> set v" and "c \<notin> set v'" and "u @ c # v = u' @ c # v'"
  shows "u = u' \<and> v = v'"
  using assms(3)
proof (induction u arbitrary: u')
  case Nil
  then show ?case using assms(1,2) by (cases u') auto
next
  case (Cons x u)
  then show ?case using assms(1,2) by (cases u') auto
qed

section \<open>Properties\<close>

text \<open>
  C14. The server only serves once everything it needs is there: it then has
  made exactly the calls listed, it is listening on the configured address and has a Docker
  client; and when an event bus is configured, the results database has been opened and
  migrated and the recorder started: a server that cannot record refuses to start. It ends
  normally exactly when serving ended without an error, having released everything it
  opened, and with exit code one in all other cases.
\<close>

theorem server_startup:
  assumes "replay (server_main getenv pid) tr = Some out"
  shows "(called tr ServeGRPC \<longrightarrow>
      (\<exists>name. named_by pid name \<and> map fst (host_calls tr) =
        [GodotenvLoad, NetListen (listenAddr (getenv ''ODYSSEY_ADDR''))] @ recording_calls getenv name @
        [NewDockerClient, ServeGRPC] @ (if out = Finished then CloseDocker # deferred_calls getenv else [])) \<and>
      succeeded tr (NetListen (listenAddr (getenv ''ODYSSEY_ADDR''))) \<and> succeeded tr NewDockerClient \<and>
      (getenv ''ODYSSEY_REDIS_ADDR'' \<noteq> [] \<longrightarrow> succeeded tr (SqlOpen (results_path getenv)) \<and> succeeded tr MigrateUp)) \<and>
    (out = Finished \<longleftrightarrow> succeeded tr ServeGRPC) \<and> (out = Finished \<longrightarrow> left_open tr = []) \<and> (out \<noteq> Finished \<longrightarrow> out = Exited 1)"
proof -
  note [simp] = left_open_def
  have "spec (server_main getenv pid) (\<lambda>tr out. (called tr ServeGRPC \<longrightarrow>
      (\<exists>name. named_by pid name \<and> map fst (host_calls tr) =
        [GodotenvLoad, NetListen (listenAddr (getenv ''ODYSSEY_ADDR''))] @ recording_calls getenv name @
        [NewDockerClient, ServeGRPC] @ (if out = Finished then CloseDocker # deferred_calls getenv else [])) \<and>
      succeeded tr (NetListen (listenAddr (getenv ''ODYSSEY_ADDR''))) \<and> succeeded tr NewDockerClient \<and>
      (getenv ''ODYSSEY_REDIS_ADDR'' \<noteq> [] \<longrightarrow> succeeded tr (SqlOpen (results_path getenv)) \<and> succeeded tr MigrateUp)) \<and>
    (out = Finished \<longleftrightarrow> succeeded tr ServeGRPC) \<and> (out = Finished \<longrightarrow> left_open tr = []) \<and> (out \<noteq> Finished \<longrightarrow> out = Exited 1))"
    unfolding server_main_def
  proof (simp only: spec_pbind [of "callE _"] spec_calls, intro allI, goal_cases)
    case (1 r1 r2)
    show ?case
    proof (cases r2)
      case None
      show ?thesis unfolding None option.case
      proof (rule spec_pbindI [OF startRecording_post], goal_cases)
        case (1 tr1 started)
        show ?case
        proof (cases started)
          case (Some sd)
          obtain sink deferred where sd: "sd = (sink, deferred)" by (cases sd)
          obtain name where name: "named_by pid name" "map fst (host_calls tr1) = recording_calls getenv name"
            "deferred = deferred_calls getenv" "sink \<longleftrightarrow> getenv ''ODYSSEY_REDIS_ADDR'' \<noteq> []"
            "foldl host_step [] tr1 = removeAll StopSignals deferred" "\<not> called tr1 ServeGRPC" "\<not> succeeded tr1 ServeGRPC"
            "sink \<Longrightarrow> succeeded tr1 (SqlOpen (results_path getenv)) \<and> succeeded tr1 MigrateUp"
            using 1 by (auto simp: recording_post_def Some sd not_called)
          then show ?thesis unfolding Some sd option.case prod.case
            by (auto simp: NewDockerRunner_def deferred_calls_def split: option.splits)
        qed (use 1 in \<open>simp add: recording_post_def not_called\<close>)
      qed
    qed simp
  qed
  from specD [OF this assms] show ?thesis .
qed

definition demo_getenv :: "string \<Rightarrow> string" where
  "demo_getenv k = (if k = ''ODYSSEY_REDIS_ADDR'' then ''redis:6379'' else [])"

definition demo_startup :: "obs list" where
  "demo_startup =
     [ObsE (Host GodotenvLoad) (Some (External ''no .env'')), ObsE (Host (NetListen ''localhost:50051'')) None,
      ObsE (Host (NewRedisClient ''redis:6379'')) None, ObsE (Host (SqlOpen ''odyssey-results.db'')) None,
      ObsE (Host (SetMaxOpenConns 1)) None, ObsE (Host (SqlExec ''PRAGMA journal_mode=WAL'')) None,
      ObsE (Host MigrationFiles) None, ObsE (Host NewProvider) None, ObsE (Host MigrateUp) None,
      ObsS Hostname (Inr ''agent''), ObsE (Host (GoConsumer ''results-recorder'' ''agent-7'')) None,
      ObsE (Host NewDockerClient) None, ObsE (Host ServeGRPC) None, ObsE (Host CloseDocker) None,
      ObsE (Host StopSignals) None, ObsE (Host CloseDB) None, ObsE (Host CloseRedis) None]"

lemma demo_startup_replay: "replay (server_main demo_getenv 7) demo_startup = Some Finished"
proof -
  have "itoa 7 = ''7''" by code_simp
  then show ?thesis
    by (simp add: server_main_def demo_startup_def startRecording_def demo_getenv_def listenAddr_def Store_Open_def instanceName_def
        New_def recorderOptions_def NewDockerRunner_def Let_def call_defs)
qed

theorem server_startup_witness: "left_open demo_startup = [] \<and> succeeded demo_startup MigrateUp"
  using server_startup [OF demo_startup_replay]
  by (simp add: demo_startup_def demo_getenv_def)

text \<open>
  Replicas on different hosts, or with different process IDs, have
  different consumer names within their group.
\<close>

theorem instance_names:
  assumes "0 \<le> pid" and "0 \<le> pid'"
  shows "host @ ''-'' @ itoa pid = host' @ ''-'' @ itoa pid' \<longleftrightarrow> host = host' \<and> pid = pid'"
proof -
  have "pid = pid'" if "nat_digits (nat pid) = nat_digits (nat pid')"
    using that assms digits_val_nat_digits by (metis eq_nat_nat_iff)
  then show ?thesis
    using last_dash [OF nat_digits_no_dash nat_digits_no_dash, of host "nat pid" host' "nat pid'"] assms
    by (auto simp: itoa_def)
qed

theorem instance_names_witness: "''agent'' @ ''-'' @ itoa 12 \<noteq> ''agent-1'' @ ''-'' @ itoa 2"
  using instance_names [of 12 2 "''agent''" "''agent-1''"] by simp

end
