(* ===== verification/Clients.thy ===== *)
theory Clients
  imports Startup ProtoMapping
begin

text \<open>
  The two programs beside the server: the command line client (\<open>cmd/client/main.go\<close>),
  which requests one run and prints the response, and the events logger
  (\<open>cmd/events-logger/main.go\<close>), a consumer that prints every event. Flags are parsed by
  package \<open>flag\<close>; their values and the positional arguments are parameters.
\<close>

section \<open>The client\<close>

text \<open>The generated \<open>Status.String()\<close>.\<close>

fun status_name :: "proto_status \<Rightarrow> string" where
  "status_name STATUS_UNSPECIFIED = ''STATUS_UNSPECIFIED''"
| "status_name STATUS_PENDING = ''STATUS_PENDING''"
| "status_name STATUS_RUNNING = ''STATUS_RUNNING''"
| "status_name STATUS_PASSED = ''STATUS_PASSED''"
| "status_name STATUS_FAILED = ''STATUS_FAILED''"
| "status_name STATUS_SKIPPED = ''STATUS_SKIPPED''"
| "status_name STATUS_ERRORED = ''STATUS_ERRORED''"

definition optional_line :: "string \<Rightarrow> string \<Rightarrow> string" where
  "optional_line label text = (if text \<noteq> [] then label @ text @ [newline] else [])"

definition print_step :: "proto_step \<Rightarrow> string" where
  "print_step step =
     ''      Step: '' @ ps_StepName step @ ''  Exit: '' @ itoa (sint (ps_ExitCode step)) @ ''  Status: '' @
     status_name (ps_Status step) @ [newline] @
     optional_line ''        stdout: '' (ps_Stdout step) @ optional_line ''        stderr: '' (ps_Stderr step) @
     optional_line ''        error: '' (ps_Error step)"

definition print_job :: "proto_job \<Rightarrow> string" where
  "print_job job =
     ''    Job: '' @ pj_JobName job @ ''  Status: '' @ status_name (pj_Status job) @ [newline] @
     concat (map print_step (pj_StepResults job))"

definition print_stage :: "proto_stage \<Rightarrow> string" where
  "print_stage stage =
     ''  Stage: '' @ pg_StageName stage @ ''  Status: '' @ status_name (pg_Status stage) @ [newline] @
     concat (map print_job (pg_JobResults stage))"

definition print_response :: "RunPipelineResponse \<Rightarrow> string" where
  "print_response resp =
     ''Pipeline: '' @ rp_PipelineName resp @ ''  Status: '' @ status_name (rp_Status resp) @ [newline] @
     concat (map print_stage (rp_StageResults resp))"

text \<open>What the client writes to its two outputs, and its exit code.\<close>

record client_result =
  cl_Stdout :: string
  cl_Stderr :: string
  cl_Exit :: nat

text \<open>
  \<open>main\<close> of the client, given the positional arguments, the error of \<open>NewClient\<close> and the
  answer of the service to a request for the first argument.
\<close>

definition client_main :: "(go_error \<Rightarrow> string) \<Rightarrow> string list \<Rightarrow> go_error option \<Rightarrow> (string \<Rightarrow> go_error + RunPipelineResponse) \<Rightarrow>
    client_result" where
  "client_main errorText args dial service =
     (case args of
        [] \<Rightarrow> \<lparr>cl_Stdout = [], cl_Stderr = ''usage: odyssey-client [-addr HOST:PORT] <project-path>'' @ [newline], cl_Exit = 2\<rparr>
      | projectPath # _ \<Rightarrow>
          (case dial of
             Some err \<Rightarrow> \<lparr>cl_Stdout = [], cl_Stderr = ''dial: '' @ errorText err @ [newline], cl_Exit = 1\<rparr>
           | None \<Rightarrow>
               (case service projectPath of
                  Inl err \<Rightarrow> \<lparr>cl_Stdout = [], cl_Stderr = ''error: '' @ errorText err @ [newline], cl_Exit = 1\<rparr>
                | Inr resp \<Rightarrow> \<lparr>cl_Stdout = print_response resp, cl_Stderr = [], cl_Exit = 0\<rparr>)))"

section \<open>The events logger\<close>

definition printEvent :: "go_event \<Rightarrow> go_error option \<times> string" where
  "printEvent e =
     (None, ''type='' @ ev_Type e @ '' pipeline='' @ ev_Pipeline e @ '' job='' @ ev_Job e @ '' step='' @ ev_Step e @ [newline])"

text \<open>\<open>main\<close> of the events logger; \<^const>\<open>None\<close> when the fuel of the consumer ran out.\<close>

definition loggerOptions :: "string \<Rightarrow> string \<Rightarrow> consumer_options" where
  "loggerOptions grp name = \<lparr>opt_Group = grp, opt_Consumer = name, opt_Stream = [], opt_MinIdle = 0, opt_MaxAttempts = 0, opt_Block = 0\<rparr>"

definition logger_instanceName :: "int \<Rightarrow> string proc" where
  "logger_instanceName pid =
     pbind (callS Hostname) (\<lambda>r.
     let host = (case r of Inl err \<Rightarrow> ''unknown'' | Inr host \<Rightarrow> host)
     in Return (host @ ''-'' @ itoa pid))"

definition logger_main :: "nat \<Rightarrow> nat \<Rightarrow> (go_error \<Rightarrow> string) \<Rightarrow> decoder \<Rightarrow> string \<Rightarrow> string \<Rightarrow> int \<Rightarrow> ctx \<Rightarrow> outcome option proc" where
  "logger_main fuel scan errorText unmarshal redisAddr grp pid ctx =
     pbind (callE (Host (NewRedisClient redisAddr))) (\<lambda>_.
     pbind (logger_instanceName pid) (\<lambda>name.
     case New False False (loggerOptions grp name) of
       Inl err \<Rightarrow> Return (Some (Exited 1))
     | Inr opts \<Rightarrow>
         pbind (Consumer_Run fuel scan errorText unmarshal opts ctx) (\<lambda>res. case res of
            None \<Rightarrow> Return None
          | Some (Some err) \<Rightarrow> Return (Some (Exited 1))
          | Some None \<Rightarrow> pbind (runDeferred [StopSignals, CloseRedis]) (\<lambda>_. Return (Some Finished)))))"

section \<open>Lemmas\<close>

lemma sublist_app: "sublist x z \<Longrightarrow> sublist x (y @ z)"
  using sublist_append_leftI sublist_order.order_trans by blast

lemma printed_step:
  assumes "g \<in> set (rp_StageResults resp)" and "j \<in> set (pg_JobResults g)" and "s \<in> set (pj_StepResults j)"
  shows "sublist (print_step s) (print_response resp)"
proof -
  have part: "sublist (f x) (concat (map f xs))" if "x \<in> set xs" for f :: "'a \<Rightarrow> string" and x xs
    using that by (induction xs) (auto intro: sublist_order.order_trans)
  have "sublist (print_step s) (print_job j)"
    unfolding print_job_def by (intro sublist_app part assms)
  also have "sublist (print_job j) (print_stage g)"
    unfolding print_stage_def by (intro sublist_app part assms)
  also have "sublist (print_stage g) (print_response resp)"
    unfolding print_response_def by (intro sublist_app part assms)
  finally show ?thesis .
qed

section \<open>Properties\<close>



end
