(* ===== verification/Recording.thy ===== *)
theory Recording
  imports OrchestratorSafety StoreSafety
begin

text \<open>
  The engine and the results store together: the events that a run publishes, recorded in
  that order, leave exactly the result of the run in the tables. Recording is looked at row by
  row: what happens to a row depends only on the events about it, and the events about a
  job are those its goroutine published, in order.
\<close>

section \<open>One row\<close>

definition run_op :: "go_event \<Rightarrow> run_info option \<Rightarrow> run_info option" where
  "run_op e r =
     (if ev_Type e = EventPipelineStarted then
        (if r = None then Some \<lparr>ri_pipeline = ev_Pipeline e, ri_status = ''pending'', ri_started = stamp (ev_OccurredAt e), ri_finished = None\<rparr>
         else r)
      else if ev_Type e = EventPipelineFinished then
        map_option (\<lambda>r. r\<lparr>ri_status := gm_get [] (ev_Payload e) ''status'', ri_finished := Some (stamp (ev_OccurredAt e))\<rparr>) r
      else r)"

definition job_op :: "go_event \<Rightarrow> job_info option \<Rightarrow> job_info option" where
  "job_op e j =
     (if ev_Type e = EventJobStarted then
        (if j = None then Some \<lparr>ji_stage = gm_get [] (ev_Payload e) ''stage'', ji_status = ''pending'', ji_started = stamp (ev_OccurredAt e),
           ji_finished = None\<rparr> else j)
      else if ev_Type e = EventJobFinished then
        map_option (\<lambda>j. j\<lparr>ji_status := gm_get [] (ev_Payload e) ''status'', ji_finished := Some (stamp (ev_OccurredAt e))\<rparr>) j
      else j)"

definition step_op :: "go_event \<Rightarrow> step_info option \<Rightarrow> step_info option" where
  "step_op e x =
     (if ev_Type e = EventStepStarted then
        (if x = None then Some \<lparr>si_status = ''pending'', si_exit_code = None, si_duration_ms = None\<rparr> else x)
      else if ev_Type e = EventStepFinished then
        map_option (\<lambda>x. x\<lparr>si_status := gm_get [] (ev_Payload e) ''status'', si_exit_code := payload_value e ''exit_code'' ''Atoi'',
          si_duration_ms := payload_value e ''duration_ms'' ''ParseInt''\<rparr>) x
      else x)"

lemma arecord_row:
  assumes "arecord v e = Some v'"
  shows "v_runs v' x = (if ev_RunID e = x then run_op e (v_runs v x) else v_runs v x)"
    and "v_jobs v' (x, n) = (if ev_RunID e = x \<and> ev_Job e = n then job_op e (v_jobs v (x, n)) else v_jobs v (x, n))"
    and "v_steps v' (x, n, t) = (if ev_RunID e = x \<and> ev_Job e = n \<and> ev_Step e = t then step_op e (v_steps v (x, n, t)) else v_steps v (x, n, t))"
  using assms unfolding arecord_def Let_def
  by (auto simp: run_op_def job_op_def step_op_def event_type_defs split: if_splits)

text \<open>A sequence of events of which none is refused.\<close>

fun arecord_all :: "results_view \<Rightarrow> go_event list \<Rightarrow> results_view option" where
  "arecord_all v [] = Some v"
| "arecord_all v (e # es) = Option.bind (arecord v e) (\<lambda>v'. arecord_all v' es)"

lemma arecord_all_rows:
  assumes "arecord_all v es = Some v'"
  shows "v_runs v' x = fold run_op (filter (\<lambda>e. ev_RunID e = x) es) (v_runs v x)"
    and "v_jobs v' (x, n) = fold job_op (filter (\<lambda>e. ev_RunID e = x \<and> ev_Job e = n) es) (v_jobs v (x, n))"
    and "v_steps v' (x, n, t) = fold step_op (filter (\<lambda>e. ev_RunID e = x \<and> ev_Job e = n \<and> ev_Step e = t) es) (v_steps v (x, n, t))"
  using assms by (induction v es rule: arecord_all.induct) (auto simp: bind_eq_Some_conv arecord_row)

fun accepted :: "db \<Rightarrow> go_event list \<Rightarrow> bool" where
  "accepted s [] \<longleftrightarrow> True"
| "accepted s (e # es) \<longleftrightarrow> fst (Record no_faults s e) = None \<and> accepted (snd (Record no_faults s e)) es"

lemma record_all_view:
  "store_ok s \<Longrightarrow> arecord_all (view s) es = Some v \<Longrightarrow>
     accepted s es \<and> view (record_all (map (Pair no_faults) es) s) = v"
proof (induction es arbitrary: s)
  case Nil
  then show ?case by (simp add: record_all_def)
next
  case (Cons e es)
  then obtain v1 where v1: "arecord (view s) e = Some v1" "arecord_all v1 es = Some v" by (auto simp: bind_eq_Some_conv)
  then have "fst (Record no_faults s e) = None \<and> view (snd (Record no_faults s e)) = v1"
    using Record_refines [OF Cons.prems(1), of e] by (simp add: refines_def)
  then show ?case using Cons.IH [OF Record_ok [OF Cons.prems(1), of no_faults e]] v1 by (simp add: record_all_def)
qed

section \<open>Events that are accepted\<close>

text \<open>Jobs come after their run, steps after their job, and numbers parse.\<close>

fun orderly :: "bool \<Rightarrow> string set \<Rightarrow> go_event list \<Rightarrow> bool" where
  "orderly begun jobs [] \<longleftrightarrow> True"
| "orderly begun jobs (e # es) \<longleftrightarrow>
     (ev_Type e \<in> {EventJobStarted, EventJobFinished} \<longrightarrow> begun) \<and>
     (ev_Type e \<in> {EventStepStarted, EventStepFinished} \<longrightarrow> ev_Job e \<in> jobs) \<and>
     (ev_Type e = EventStepFinished \<longrightarrow> payload_ok e) \<and>
     orderly (begun \<or> ev_Type e = EventPipelineStarted) (if ev_Type e = EventJobStarted then insert (ev_Job e) jobs else jobs) es"

lemma arecord_None:
  "arecord v e = None \<longleftrightarrow>
     ev_Type e = EventPipelineStarted \<and> ev_RunID e = [] \<or>
     ev_Type e \<in> {EventJobStarted, EventJobFinished} \<and> v_runs v (ev_RunID e) = None \<or>
     ev_Type e \<in> {EventStepStarted, EventStepFinished} \<and> v_jobs v (ev_RunID e, ev_Job e) = None \<or>
     ev_Type e = EventStepFinished \<and> \<not> payload_ok e"
  unfolding arecord_def Let_def by (simp add: event_type_defs)

lemma orderly_accepted:
  assumes "orderly begun jobs es" and "rid \<noteq> []" and "\<forall>e \<in> set es. ev_RunID e = rid"
    and "begun \<longrightarrow> v_runs v rid \<noteq> None" and "\<forall>n \<in> jobs. v_jobs v (rid, n) \<noteq> None"
  shows "\<exists>v'. arecord_all v es = Some v'"
  using assms
proof (induction begun jobs es arbitrary: v rule: orderly.induct)
  case (2 begun jobs e es)
  have "arecord v e \<noteq> None"
    using 2(2-6) by (simp add: arecord_None) blast
  then obtain v1 where v1: "arecord v e = Some v1" by blast
  have "\<exists>v'. arecord_all v1 es = Some v'"
  proof (rule 2(1))
    show "begun \<or> ev_Type e = EventPipelineStarted \<longrightarrow> v_runs v1 rid \<noteq> None"
      using 2(4,5) by (auto simp: arecord_row [OF v1] run_op_def)
    show "\<forall>n \<in> (if ev_Type e = EventJobStarted then insert (ev_Job e) jobs else jobs). v_jobs v1 (rid, n) \<noteq> None"
      using 2(4,6) by (auto simp: arecord_row [OF v1] job_op_def)
  qed (use 2 in auto)
  then show ?case using v1 by simp
qed simp

text \<open>It is enough that the events of each job start with its start.\<close>

lemma jobs_orderly:
  assumes "\<forall>e \<in> set es. ev_Type e \<in> {EventJobStarted, EventJobFinished, EventStepStarted, EventStepFinished} \<and>
      (ev_Type e = EventStepFinished \<longrightarrow> payload_ok e)"
    and "\<forall>n. n \<notin> jobs \<longrightarrow> (case filter (\<lambda>e. ev_Job e = n) es of [] \<Rightarrow> True | e # _ \<Rightarrow> ev_Type e = EventJobStarted)"
  shows "orderly True jobs es"
  using assms
proof (induction es arbitrary: jobs)
  case (Cons e es)
  let ?jobs = "if ev_Type e = EventJobStarted then insert (ev_Job e) jobs else jobs"
  have here: "ev_Type e = EventJobStarted \<or> ev_Job e \<in> jobs"
    using Cons.prems(2) [rule_format, of "ev_Job e"] by auto
  have "case filter (\<lambda>e. ev_Job e = n) es of [] \<Rightarrow> True | e # _ \<Rightarrow> ev_Type e = EventJobStarted" if "n \<notin> ?jobs" for n
  proof -
    have "n \<noteq> ev_Job e" "n \<notin> jobs" using that here by (auto split: if_splits)
    then show ?thesis using Cons.prems(2) [rule_format, of n] by simp
  qed
  then have "orderly True ?jobs es" using Cons.prems(1) by (intro Cons.IH) auto
  then show ?case using here Cons.prems(1) by (auto simp: event_type_defs)
qed simp

section \<open>The events of one job of a run\<close>

definition of_job :: "string \<Rightarrow> go_event list \<Rightarrow> go_event list" where
  "of_job n es = filter (\<lambda>e. ev_Job e = n) es"

lemma of_job_simps [simp]:
  "of_job n [] = []" "of_job n (e # es) = (if ev_Job e = n then e # of_job n es else of_job n es)"
  "of_job n (es @ es') = of_job n es @ of_job n es'"
  by (simp_all add: of_job_def)

lemma published_simps [simp]:
  "published [] = []" "published (ob # tr) = published_event ob @ published tr" "published (tr @ tr') = published tr @ published tr'"
  by (simp_all add: published_def)

text \<open>Every event that a job's goroutine publishes carries the job's name and the run's ID.\<close>

definition about_job :: "string \<Rightarrow> string \<Rightarrow> obs \<Rightarrow> bool" where
  "about_job rid n ob \<longleftrightarrow> (\<forall>e \<in> set (published_event ob). ev_Job e = n \<and> ev_RunID e = rid)"

lemma runner_about: "calls_only (about_job rid (job_Name job)) (DockerRunner_Run ctx job path (StampedSink pn rid))"
  unfolding calls_only_def
proof (rule spec_mono [OF DockerRunner_Run_post], goal_cases)
  case (1 tr res)
  then obtain groups where "announced tr = concat (map (group_events (StampedSink pn rid) (job_Name job)) groups)"
    by (auto simp: job_post_def events_post_def)
  then have "\<forall>e \<in> set (announced tr). ev_Job e = job_Name job \<and> ev_RunID e = rid"
    by (auto simp: group_events_def stepStartedEvent_def stepFinishedEvent_def)
  then show ?case by (auto simp: announced_def untimed_def list_all_iff about_job_def published_def)
qed

lemma runJob_about: "calls_only (about_job rid (job_Name job)) (runJob DockerRunner_Run True c sn pn rid path job)"
  unfolding runJob_def emit_def stepSink_def
  by (simp, intro beh_intros runner_about) (auto simp: about_job_def lifecycleEvent_def)

text \<open>The events of a job are picked out of an interleaving by its name.\<close>

lemma interleaved_job:
  assumes "\<forall>(i, ob) \<in> set ptr. i < length names \<and> about_job rid (names ! i) ob" and "distinct names" and "i < length names"
  shows "of_job (names ! i) (published (map snd ptr)) = published (own i ptr)"
  using assms(1)
proof (induction ptr)
  case (Cons l ptr)
  obtain k ob where l: "l = (k, ob)" by (cases l)
  have "k < length names" and about: "about_job rid (names ! k) ob" using Cons.prems l by auto
  then have "names ! k = names ! i \<longleftrightarrow> k = i" using assms(2,3) nth_eq_iff_index_eq by blast
  moreover have "of_job (names ! i) (published_event ob) = (if names ! k = names ! i then published_event ob else [])"
    using about by (auto simp: about_job_def of_job_def filter_empty_conv intro!: filter_True)
  ultimately show ?case using Cons l by auto
qed simp

lemma stage_job_events:
  assumes "runStage DockerRunner_Run True ctx stage pn rid path tr r" and "distinct (map job_Name (stage_Jobs stage))"
  shows "(\<forall>i < length (stage_Jobs stage). \<exists>jtr. of_job (job_Name (stage_Jobs stage ! i)) (published (map snd tr)) = published jtr \<and>
      replay (runJob DockerRunner_Run True (GroupCtx ctx) (stage_Name stage) pn rid path (stage_Jobs stage ! i)) jtr = Some (gr_JobResults r ! i)) \<and>
    (\<forall>e \<in> set (published (map snd tr)). ev_Job e \<in> set (map job_Name (stage_Jobs stage)) \<and> ev_RunID e = rid)"
  using assms(1)
proof (cases rule: runStage.cases)
  case (1 ptr jrs start stop)
  let ?names = "map job_Name (stage_Jobs stage)"
  note par = par_run_own [OF 1(3), unfolded stageJobs_def length_map]
  have rep: "replay (runJob DockerRunner_Run True (GroupCtx ctx) (stage_Name stage) pn rid path (stage_Jobs stage ! i)) (own i ptr) = Some (jrs ! i)"
    if "i < length (stage_Jobs stage)" for i using par that by simp
  have about: "i < length ?names \<and> about_job rid (?names ! i) ob" if "(i, ob) \<in> set ptr" for i ob
  proof -
    have i: "i < length (stage_Jobs stage)" using par that by auto
    have "ob \<in> set (own i ptr)" using that by (auto simp: own_def intro!: rev_image_eqI)
    then show ?thesis using calls_onlyD [OF runJob_about rep [OF i]] i by simp
  qed
  have main: "published (map snd (by_main [ObsT t])) = []" for t by (simp add: by_main_def)
  have jobs: "map snd (by_jobs ptr) = map snd ptr" by (simp add: by_jobs_def comp_def case_prod_beta)
  have pub: "published (map snd tr) = published (map snd ptr)" by (simp add: 1(1) main jobs)
  show ?thesis
  proof (intro conjI allI impI)
    fix i assume i: "i < length (stage_Jobs stage)"
    then have "of_job (?names ! i) (published (map snd ptr)) = published (own i ptr)"
      using interleaved_job [of ptr ?names rid i] about assms(2) by auto
    then show "\<exists>jtr. of_job (job_Name (stage_Jobs stage ! i)) (published (map snd tr)) = published jtr \<and>
      replay (runJob DockerRunner_Run True (GroupCtx ctx) (stage_Name stage) pn rid path (stage_Jobs stage ! i)) jtr = Some (gr_JobResults r ! i)"
      using rep [OF i] i by (auto simp: pub 1(2))
  next
    show "\<forall>e \<in> set (published (map snd tr)). ev_Job e \<in> set ?names \<and> ev_RunID e = rid"
    proof
      fix e assume "e \<in> set (published (map snd tr))"
      then obtain i ob where "(i, ob) \<in> set ptr" and e: "e \<in> set (published_event ob)"
        unfolding pub unfolding published_def by auto
      then have "i < length ?names" "about_job rid (?names ! i) ob" using about by blast+
      then show "ev_Job e \<in> set ?names \<and> ev_RunID e = rid" using e nth_mem unfolding about_job_def by metis
    qed
  qed
qed

text \<open>Over all stages that ran, when no two jobs of the pipeline share a name.\<close>

definition job_of_run :: "ctx \<Rightarrow> string \<Rightarrow> string \<Rightarrow> string \<Rightarrow> go_event list \<Rightarrow> go_stage \<Rightarrow> go_job \<Rightarrow> job_result \<Rightarrow> bool" where
  "job_of_run ctx pn rid path es stage job jr \<longleftrightarrow>
     (\<exists>jtr. of_job (job_Name job) es = published jtr \<and>
        replay (runJob DockerRunner_Run True (GroupCtx ctx) (stage_Name stage) pn rid path job) jtr = Some jr)"

lemma stages_job_events:
  assumes "runStages DockerRunner_Run True ctx pn rid path stages tr rs"
    and "distinct (concat (map (\<lambda>g. map job_Name (stage_Jobs g)) stages))"
  shows "(\<forall>k < length rs. \<forall>i < length (stage_Jobs (stages ! k)). job_of_run ctx pn rid path (published (map snd tr))
        (stages ! k) (stage_Jobs (stages ! k) ! i) (gr_JobResults (rs ! k) ! i)) \<and>
    (\<forall>e \<in> set (published (map snd tr)). ev_RunID e = rid \<and>
       ev_Job e \<in> set (concat (map (\<lambda>g. map job_Name (stage_Jobs g)) (take (length rs) stages))))"
  using assms
proof (induction rule: runStages.induct)
  case (stages_break stage tr r stages)
  note s = stage_job_events [OF stages_break.hyps(1)]
  show ?case using s stages_break.prems by (auto simp: job_of_run_def)
next
  case (stages_next stage tr r stages tr' rs)
  let ?names = "map job_Name (stage_Jobs stage)"
  have dist: "distinct ?names" "distinct (concat (map (\<lambda>g. map job_Name (stage_Jobs g)) stages))"
    and disj: "set ?names \<inter> set (concat (map (\<lambda>g. map job_Name (stage_Jobs g)) stages)) = {}"
    using stages_next.prems by simp_all
  note s = stage_job_events [OF stages_next.hyps(1) dist(1)] and IH = stages_next.IH [OF dist(2)]
  have first: "of_job n (published (map snd tr')) = []" if "n \<in> set ?names" for n
  proof -
    have "n \<notin> set (concat (map (\<lambda>g. map job_Name (stage_Jobs g)) (take (length rs) stages)))"
      using that disj by (auto dest: in_set_takeD)
    then show ?thesis using IH unfolding of_job_def filter_empty_conv by blast
  qed
  have later: "of_job n (published (map snd tr)) = []" if "n \<in> set (concat (map (\<lambda>g. map job_Name (stage_Jobs g)) stages))" for n
    using that disj s unfolding of_job_def filter_empty_conv by blast
  have "job_of_run ctx pn rid path (published (map snd (tr @ tr'))) ((stage # stages) ! k) (stage_Jobs ((stage # stages) ! k) ! i)
      (gr_JobResults ((r # rs) ! k) ! i)"
    if k: "k < length (r # rs)" and i: "i < length (stage_Jobs ((stage # stages) ! k))" for k i
  proof (cases k)
    case 0
    then show ?thesis using s first i by (auto simp: job_of_run_def)
  next
    case (Suc k')
    have "length rs \<le> length stages" using runStages_shape [OF stages_next.hyps(3)] by simp
    then have "stages ! k' \<in> set stages" using k Suc by simp
    moreover have "stage_Jobs (stages ! k') ! i \<in> set (stage_Jobs (stages ! k'))" using i Suc by simp
    ultimately have "job_Name (stage_Jobs (stages ! k') ! i) \<in> set (concat (map (\<lambda>g. map job_Name (stage_Jobs g)) stages))"
      by auto
    then show ?thesis using IH later k i Suc by (auto simp: job_of_run_def)
  qed
  then show ?case using s IH by (auto simp del: nth_Cons_Suc nth_Cons_0)
qed simp

section \<open>The rows of one job\<close>

definition step_info_for :: "step_result \<Rightarrow> step_info" where
  "step_info_for r = \<lparr>si_status = status_String (stepStatus r),
     si_exit_code = (if sr_ExitCode r = ExitNone then None else Some (sr_ExitCode r)), si_duration_ms = Some (milliseconds (sr_Duration r))\<rparr>"

text \<open>What the steps table holds for a job: for each step name the last result, if there is one.\<close>

definition recorded_steps :: "step_result list \<Rightarrow> string \<Rightarrow> step_info option" where
  "recorded_steps rs = map_of (rev (map (\<lambda>r. (sr_StepName r, step_info_for r)) rs))"

lemma recorded_steps_append:
  "recorded_steps (rs @ rs') t = (case recorded_steps rs' t of Some x \<Rightarrow> Some x | None \<Rightarrow> recorded_steps rs t)"
  by (simp add: recorded_steps_def map_add_def split: option.split)

lemma finished_payload:
  assumes "ev_Payload e = finishedPayload r"
  shows "payload_ok e" "gm_get [] (ev_Payload e) ''status'' = status_String (stepStatus r)"
    "payload_value e ''exit_code'' ''Atoi'' = (if sr_ExitCode r = ExitNone then None else Some (sr_ExitCode r))"
    "payload_value e ''duration_ms'' ''ParseInt'' = Some (milliseconds (sr_Duration r))"
  using assms by (simp_all add: payload_ok_def payload_value_def payloadNumber_def finishedPayload_def Let_def gm_get_def)

lemma step_op_untimed [simp]: "step_op (untimed e) = step_op e"
proof -
  have "payload_value e k fn = (case map_of (ev_Payload e) k of None \<Rightarrow> None | Some raw \<Rightarrow> (case parse_int fn raw of Inl _ \<Rightarrow> None | Inr n \<Rightarrow> Some n))"
    for e k fn by (simp add: payload_value_def payloadNumber_def split: option.split sum.split)
  then have "payload_value (untimed e) = payload_value e"
    by (simp add: fun_eq_iff untimed_def)
  then show ?thesis by (simp add: fun_eq_iff step_op_def) (simp add: untimed_def)
qed

lemma recorded_steps_simps [simp]:
  "recorded_steps [] t = None"
  "recorded_steps (r # rs) t = (case recorded_steps rs t of Some z \<Rightarrow> Some z | None \<Rightarrow> if sr_StepName r = t then Some (step_info_for r) else None)"
  using recorded_steps_append [of "[r]" rs t] by (simp_all add: recorded_steps_def split: option.split)

lemma fold_untimed: "fold step_op (filter (\<lambda>e. ev_Step e = t) es) x = fold step_op (filter (\<lambda>e. ev_Step e = t) (map untimed es)) x"
proof -
  have "ev_Step (untimed e) = ev_Step e" for e by (simp add: untimed_def)
  then show ?thesis by (induction es arbitrary: x) simp_all
qed

lemma fold_group:
  assumes "snd g \<noteq> []" and "\<forall>r \<in> set (snd g). sr_StepName r = fst g"
  shows "fold step_op (filter (\<lambda>e. ev_Step e = t) (group_events (StampedSink pn rid) j g)) x =
    (case recorded_steps (snd g) t of Some y \<Rightarrow> Some y | None \<Rightarrow> x)"
proof -
  let ?fin = "\<lambda>r. (stepFinishedEvent j r 0)\<lparr>ev_Pipeline := pn, ev_RunID := rid\<rparr>"
  have ev: "group_events (StampedSink pn rid) j g = (stepStartedEvent j (fst g) 0)\<lparr>ev_Pipeline := pn, ev_RunID := rid\<rparr> # map ?fin (snd g)"
    by (simp add: group_events_def concat_map_singleton)
  have step: "step_op (?fin r) (Some y) = Some (step_info_for r)" for r y
    using finished_payload [of "?fin r" r]
    by (cases y) (simp add: step_op_def stepFinishedEvent_def event_type_defs step_info_for_def)
  have name: "ev_Step (?fin r) = sr_StepName r" for r by (simp add: stepFinishedEvent_def)
  have "fold step_op (filter (\<lambda>e. ev_Step e = t) (map ?fin rs)) (Some y) = (case recorded_steps rs t of Some z \<Rightarrow> Some z | None \<Rightarrow> Some y)" for rs y
  proof (induction rs arbitrary: y)
    case (Cons r rs)
    show ?case using Cons.IH by (simp add: step name split: option.split)
  qed simp
  note finish = this
  have start: "step_op ((stepStartedEvent j (fst g) 0)\<lparr>ev_Pipeline := pn, ev_RunID := rid\<rparr>) x = Some (case x of None \<Rightarrow>
      \<lparr>si_status = ''pending'', si_exit_code = None, si_duration_ms = None\<rparr> | Some y \<Rightarrow> y)"
    by (simp add: step_op_def stepStartedEvent_def split: option.split)
  show ?thesis
  proof (cases "t = fst g")
    case True
    obtain r rs where "snd g = rs @ [r]" using assms(1) by (metis rev_exhaust)
    then have "recorded_steps (snd g) t = Some (step_info_for r)"
      using assms(2) True by (simp add: recorded_steps_append)
    moreover have "ev_Step ((stepStartedEvent j (fst g) 0)\<lparr>ev_Pipeline := pn, ev_RunID := rid\<rparr>) = t"
      by (simp add: True stepStartedEvent_def)
    ultimately show ?thesis unfolding ev by (simp only: filter.simps simp_thms if_True fold_simps start finish option.case)
  next
    case False
    then have "recorded_steps (snd g) t = None"
      using assms(2) by (auto simp: recorded_steps_def map_of_eq_None_iff)
    moreover have "filter (\<lambda>e. ev_Step e = t) (group_events (StampedSink pn rid) j g) = []"
      using False assms(2) unfolding ev by (auto simp: stepStartedEvent_def stepFinishedEvent_def)
    ultimately show ?thesis by simp
  qed
qed

lemma fold_groups:
  assumes "\<forall>g \<in> set groups. snd g \<noteq> [] \<and> (\<forall>r \<in> set (snd g). sr_StepName r = fst g)"
  shows "fold step_op (filter (\<lambda>e. ev_Step e = t) (concat (map (group_events (StampedSink pn rid) j) groups))) x =
    (case recorded_steps (concat (map snd groups)) t of Some y \<Rightarrow> Some y | None \<Rightarrow> x)"
  using assms
proof (induction groups arbitrary: x)
  case (Cons g groups)
  then show ?case using fold_group [of g t pn rid j x]
    by (simp add: recorded_steps_append split: option.split)
qed (simp add: recorded_steps_def)

lemma untimed_lifecycleD: "untimed e = lifecycleEvent ty 0 rid pn n payload \<Longrightarrow> e = lifecycleEvent ty (ev_OccurredAt e) rid pn n payload"
  by (cases e) (simp add: untimed_def lifecycleEvent_def)

text \<open>The events of a job with their times: its start, those of its steps, its end.\<close>

definition job_history :: "string \<Rightarrow> string \<Rightarrow> string \<Rightarrow> string \<Rightarrow> job_result \<Rightarrow> go_event list \<Rightarrow> bool" where
  "job_history rid pn sn n jr es \<longleftrightarrow>
     (\<exists>t0 t1 ss groups. es = lifecycleEvent EventJobStarted t0 rid pn n [(''stage'', sn)] # ss @
        [lifecycleEvent EventJobFinished t1 rid pn n [(''status'', status_String (jobStatus jr))]] \<and>
      map untimed ss = concat (map (group_events (StampedSink pn rid) n) groups) \<and>
      concat (map snd groups) = jr_StepResults jr \<and>
      (\<forall>g \<in> set groups. snd g \<noteq> [] \<and> (\<forall>r \<in> set (snd g). sr_StepName r = fst g)))"

lemma runJob_history:
  assumes "replay (runJob DockerRunner_Run True c sn pn rid path job) tr = Some jr"
  shows "job_history rid pn sn (job_Name job) jr (published tr)"
proof -
  have "spec (runJob DockerRunner_Run True c sn pn rid path job) (\<lambda>tr jr. \<exists>t0 t1 str. published tr =
      lifecycleEvent EventJobStarted t0 rid pn (job_Name job) [(''stage'', sn)] # published str @
      [lifecycleEvent EventJobFinished t1 rid pn (job_Name job) [(''status'', status_String (jobStatus jr))]] \<and>
      events_post job (StampedSink pn rid) str jr)"
    unfolding runJob_def emit_def stepSink_def
    by (simp, intro allI, rule spec_mono [OF DockerRunner_Run_post]) (auto simp: job_post_def, blast+)
  from specD [OF this assms] show ?thesis
    by (fastforce simp: job_history_def events_post_def announced_def)
qed

lemma history_rows:
  assumes "job_history rid pn sn n jr es"
  shows "\<exists>t0 t1. fold job_op es None = Some \<lparr>ji_stage = sn, ji_status = status_String (jobStatus jr), ji_started = t0, ji_finished = Some t1\<rparr>"
    and "fold step_op (filter (\<lambda>e. ev_Step e = t) es) None = recorded_steps (jr_StepResults jr) t"
    and "\<forall>e \<in> set es. ev_Type e \<in> {EventJobStarted, EventJobFinished, EventStepStarted, EventStepFinished} \<and>
      (ev_Type e = EventStepFinished \<longrightarrow> payload_ok e)"
    and "es \<noteq> []" "ev_Type (hd es) = EventJobStarted"
proof -
  from assms obtain t0 t1 ss groups where es: "es = lifecycleEvent EventJobStarted t0 rid pn n [(''stage'', sn)] # ss @
        [lifecycleEvent EventJobFinished t1 rid pn n [(''status'', status_String (jobStatus jr))]]"
    and ss: "map untimed ss = concat (map (group_events (StampedSink pn rid) n) groups)"
    and rs: "concat (map snd groups) = jr_StepResults jr"
    and groups: "\<forall>g \<in> set groups. snd g \<noteq> [] \<and> (\<forall>r \<in> set (snd g). sr_StepName r = fst g)"
    unfolding job_history_def by blast
  show "es \<noteq> []" "ev_Type (hd es) = EventJobStarted" by (simp_all add: es lifecycleEvent_def)
  have steps: "ev_Type e \<in> {EventStepStarted, EventStepFinished} \<and> (ev_Type e = EventStepFinished \<longrightarrow> (\<exists>r. ev_Payload e = finishedPayload r))"
    if "e \<in> set ss" for e
  proof -
    have "untimed e \<in> set (concat (map (group_events (StampedSink pn rid) n) groups))" using that by (simp flip: ss)
    then have "ev_Type (untimed e) \<in> {EventStepStarted, EventStepFinished} \<and>
        (ev_Type (untimed e) = EventStepFinished \<longrightarrow> (\<exists>r. ev_Payload (untimed e) = finishedPayload r))"
      by (auto simp: group_events_def stepStartedEvent_def stepFinishedEvent_def event_type_defs)
    then show ?thesis by (simp add: untimed_def)
  qed
  then show "\<forall>e \<in> set es. ev_Type e \<in> {EventJobStarted, EventJobFinished, EventStepStarted, EventStepFinished} \<and>
      (ev_Type e = EventStepFinished \<longrightarrow> payload_ok e)"
    using finished_payload(1) by (auto simp: es lifecycleEvent_def event_type_defs)
  have "\<forall>e \<in> set ss. ev_Type e \<in> {EventStepStarted, EventStepFinished}" using steps by blast
  then have "fold job_op ss j = j" for j
    by (induction ss arbitrary: j) (auto simp: job_op_def event_type_defs)
  then show "\<exists>t0 t1. fold job_op es None = Some \<lparr>ji_stage = sn, ji_status = status_String (jobStatus jr), ji_started = t0, ji_finished = Some t1\<rparr>"
    by (auto simp: es job_op_def lifecycleEvent_def event_type_defs gm_get_def)
  have "step_op (lifecycleEvent ty t rid pn n payload) x = x" if "ty \<in> {EventJobStarted, EventJobFinished}" for ty t payload x
    using that by (auto simp: step_op_def lifecycleEvent_def event_type_defs)
  then have "fold step_op (filter (\<lambda>e. ev_Step e = t) es) None = fold step_op (filter (\<lambda>e. ev_Step e = t) ss) None"
    by (simp add: es)
  also have "\<dots> = recorded_steps (jr_StepResults jr) t"
    unfolding fold_untimed [of t ss] ss fold_groups [OF groups] rs by (simp split: option.split)
  finally show "fold step_op (filter (\<lambda>e. ev_Step e = t) es) None = recorded_steps (jr_StepResults jr) t" .
qed

section \<open>The rows of a run\<close>

lemma runStart_id: "spec (runStart sink ctx p) (\<lambda>tr (rid, start). rid \<noteq> [])"
  by (simp add: runStart_def newRunID_def emit_def split: split_rules)

text \<open>The events of a run, in order, and the events of each of its jobs.\<close>

definition run_history :: "string \<Rightarrow> string \<Rightarrow> pipeline_result \<Rightarrow> go_event list \<Rightarrow> bool" where
  "run_history rid pn res es \<longleftrightarrow>
     (\<exists>t0 t1 mid. es = lifecycleEvent EventPipelineStarted t0 rid pn [] [] # mid @
        [lifecycleEvent EventPipelineFinished t1 rid pn [] [(''status'', status_String (pipelineStatus res))]] \<and>
      (\<forall>e \<in> set mid. ev_RunID e = rid \<and> (\<exists>g \<in> set (pr_StageResults res). \<exists>j \<in> set (gr_JobResults g). ev_Job e = jr_JobName j)) \<and>
      (\<forall>g \<in> set (pr_StageResults res). \<forall>j \<in> set (gr_JobResults g). job_history rid pn (gr_StageName g) (jr_JobName j) j (of_job (jr_JobName j) mid)))"

lemma Run_history:
  assumes "Run DockerRunner_Run True ctx p path tr res" and "distinct (pipeline_job_names p)"
  shows "run_history (pr_RunID res) (pipeline_Name p) res (published (map snd tr)) \<and> pr_RunID res \<noteq> []"
  using assms(1)
proof (cases rule: Run.cases)
  case (1 tr1 rid start tr2 rs tr3)
  have res: "pr_RunID res = rid" "pr_StageResults res = rs" using runFinish_result [OF 1(4)] by simp_all
  have main: "map snd (by_main xs) = xs" for xs by (simp add: by_main_def comp_def)
  have "spec (runStart True ctx p) (\<lambda>tr (rid, start). \<exists>t0.
      published tr = [lifecycleEvent EventPipelineStarted t0 rid (pipeline_Name p) [] []])"
    by (simp add: runStart_def newRunID_def emit_def split: split_rules) blast
  from specD [OF this 1(2)] obtain t0 where a: "published tr1 = [lifecycleEvent EventPipelineStarted t0 rid (pipeline_Name p) [] []]" by auto
  have "spec (runFinish True ctx p rid start rs) (\<lambda>tr res. \<exists>t1. published tr =
      [lifecycleEvent EventPipelineFinished t1 rid (pipeline_Name p) [] [(''status'', status_String (pipelineStatus res))]])"
    by (simp add: runFinish_def Let_def emit_def) blast
  from specD [OF this 1(4)] obtain t1 where c: "published tr3 =
      [lifecycleEvent EventPipelineFinished t1 rid (pipeline_Name p) [] [(''status'', status_String (pipelineStatus res))]]" by blast
  let ?mid = "published (map snd tr2)" and ?gs = "pipeline_Stages p"
  note jobs = stages_job_events [OF 1(3) assms(2) [unfolded pipeline_job_names_def]] and shape = runStages_shape [OF 1(3)]
  have stage: "gr_StageName (rs ! k) = stage_Name (?gs ! k) \<and> map jr_JobName (gr_JobResults (rs ! k)) = map job_Name (stage_Jobs (?gs ! k))"
    if "k < length rs" for k
    using shape that runStage_name docker.stage_job_names by blast
  have names: "map (\<lambda>g. map jr_JobName (gr_JobResults g)) rs = map (\<lambda>g. map job_Name (stage_Jobs g)) (take (length rs) ?gs)"
    using stage shape by (intro nth_equalityI) simp_all
  have "job_history rid (pipeline_Name p) (gr_StageName g) (jr_JobName j) j (of_job (jr_JobName j) ?mid)"
    if g: "g \<in> set rs" "j \<in> set (gr_JobResults g)" for g j
  proof -
    obtain k where k: "k < length rs" "g = rs ! k" using g(1) by (metis in_set_conv_nth)
    obtain i where i: "i < length (gr_JobResults g)" "j = gr_JobResults g ! i" using g(2) by (metis in_set_conv_nth)
    have len: "length (gr_JobResults g) = length (stage_Jobs (?gs ! k))" using stage [OF k(1)] k(2) map_eq_imp_length_eq by blast
    have name: "jr_JobName j = job_Name (stage_Jobs (?gs ! k) ! i)"
      using stage [OF k(1), THEN conjunct2, THEN arg_cong [where f = "\<lambda>xs. xs ! i"]] i len k(2) by simp
    have "job_of_run ctx (pipeline_Name p) rid path ?mid (?gs ! k) (stage_Jobs (?gs ! k) ! i) j"
      using jobs k i len by simp
    then show ?thesis using runJob_history stage [OF k(1)] k(2) name by (auto simp: job_of_run_def)
  qed
  moreover have "\<exists>g \<in> set rs. \<exists>j \<in> set (gr_JobResults g). ev_Job e = jr_JobName j" if "e \<in> set ?mid" for e
  proof -
    have "ev_Job e \<in> set (concat (map (\<lambda>g. map jr_JobName (gr_JobResults g)) rs))" using jobs that by (simp add: names)
    then show ?thesis by auto
  qed
  moreover have "rid \<noteq> []" using specD [OF runStart_id 1(2)] by simp
  ultimately show ?thesis using jobs by (auto simp: run_history_def res 1(1) main a c)
qed

text \<open>What the tables say of a run once its events are recorded.\<close>

definition result_recorded :: "results_view \<Rightarrow> string \<Rightarrow> pipeline_result \<Rightarrow> bool" where
  "result_recorded v pn res \<longleftrightarrow>
     (\<exists>t0 t1. v_runs v (pr_RunID res) = Some \<lparr>ri_pipeline = pn, ri_status = status_String (pipelineStatus res), ri_started = t0, ri_finished = Some t1\<rparr>) \<and>
     (\<forall>g \<in> set (pr_StageResults res). \<forall>j \<in> set (gr_JobResults g).
        (\<exists>t0 t1. v_jobs v (pr_RunID res, jr_JobName j) =
           Some \<lparr>ji_stage = gr_StageName g, ji_status = status_String (jobStatus j), ji_started = t0, ji_finished = Some t1\<rparr>) \<and>
        (\<forall>t. v_steps v (pr_RunID res, jr_JobName j, t) = recorded_steps (jr_StepResults j) t)) \<and>
     (\<forall>n. (\<forall>g \<in> set (pr_StageResults res). \<forall>j \<in> set (gr_JobResults g). jr_JobName j \<noteq> n) \<longrightarrow>
        v_jobs v (pr_RunID res, n) = None \<and> (\<forall>t. v_steps v (pr_RunID res, n, t) = None))"

definition other_runs_kept :: "string \<Rightarrow> results_view \<Rightarrow> results_view \<Rightarrow> bool" where
  "other_runs_kept rid v v' \<longleftrightarrow> (\<forall>x n t. x \<noteq> rid \<longrightarrow>
     v_runs v' x = v_runs v x \<and> v_jobs v' (x, n) = v_jobs v (x, n) \<and> v_steps v' (x, n, t) = v_steps v (x, n, t))"

text \<open>The events between the start and the end of the run come in order and parse.\<close>

definition mid_history :: "string \<Rightarrow> string \<Rightarrow> pipeline_result \<Rightarrow> go_event list \<Rightarrow> bool" where
  "mid_history rid pn res mid \<longleftrightarrow>
     (\<forall>e \<in> set mid. ev_RunID e = rid \<and> (\<exists>g \<in> set (pr_StageResults res). \<exists>j \<in> set (gr_JobResults g). ev_Job e = jr_JobName j)) \<and>
     (\<forall>g \<in> set (pr_StageResults res). \<forall>j \<in> set (gr_JobResults g). job_history rid pn (gr_StageName g) (jr_JobName j) j (of_job (jr_JobName j) mid))"

lemma mid_types:
  assumes "mid_history rid pn res mid" and "e \<in> set mid"
  shows "ev_Type e \<in> {EventJobStarted, EventJobFinished, EventStepStarted, EventStepFinished} \<and>
      (ev_Type e = EventStepFinished \<longrightarrow> payload_ok e)"
proof -
  obtain g j where gj: "g \<in> set (pr_StageResults res)" "j \<in> set (gr_JobResults g)" "ev_Job e = jr_JobName j"
    using assms unfolding mid_history_def by blast
  have "e \<in> set (of_job (jr_JobName j) mid)" using assms(2) gj(3) by (simp add: of_job_def)
  moreover have "job_history rid pn (gr_StageName g) (jr_JobName j) j (of_job (jr_JobName j) mid)"
    using assms(1) gj(1,2) unfolding mid_history_def by blast
  ultimately show ?thesis using history_rows(3) by blast
qed

lemma mid_orderly:
  assumes "mid_history rid pn res mid"
  shows "orderly True {} mid"
proof (rule jobs_orderly)
  show "\<forall>n. n \<notin> {} \<longrightarrow> (case filter (\<lambda>e. ev_Job e = n) mid of [] \<Rightarrow> True | e # _ \<Rightarrow> ev_Type e = EventJobStarted)"
  proof (intro allI impI)
    fix n
    show "case filter (\<lambda>e. ev_Job e = n) mid of [] \<Rightarrow> True | e # _ \<Rightarrow> ev_Type e = EventJobStarted"
    proof (cases "of_job n mid")
      case (Cons e es')
      then have "e \<in> set mid" "ev_Job e = n" by (auto simp: of_job_def filter_eq_Cons_iff)
      then obtain g j where gj: "g \<in> set (pr_StageResults res)" "j \<in> set (gr_JobResults g)" "n = jr_JobName j"
        using assms unfolding mid_history_def by blast
      then have "job_history rid pn (gr_StageName g) (jr_JobName j) j (of_job (jr_JobName j) mid)"
        using assms unfolding mid_history_def by blast
      from history_rows(5) [OF this] show ?thesis using Cons by (simp add: of_job_def gj(3))
    qed (simp add: of_job_def)
  qed
qed (use mid_types [OF assms] in blast)

lemma mid_run_op: "mid_history rid pn res mid \<Longrightarrow> fold run_op mid r = r"
proof -
  assume "mid_history rid pn res mid"
  then have "\<forall>e \<in> set mid. ev_Type e \<in> {EventJobStarted, EventJobFinished, EventStepStarted, EventStepFinished}"
    using mid_types by blast
  then show ?thesis by (induction mid arbitrary: r) (auto simp: run_op_def event_type_defs)
qed

lemma mid_none:
  "mid_history rid pn res mid \<Longrightarrow> \<forall>g \<in> set (pr_StageResults res). \<forall>j \<in> set (gr_JobResults g). jr_JobName j \<noteq> n \<Longrightarrow> of_job n mid = []"
  by (force simp: mid_history_def of_job_def filter_empty_conv)

lemma orderly_end: "orderly b J mid \<Longrightarrow> orderly b J (mid @ [lifecycleEvent EventPipelineFinished t rid pn [] payload])"
  by (induction b J mid rule: orderly.induct) (auto simp: lifecycleEvent_def event_type_defs)

lemma history_recorded:
  assumes h: "run_history rid pn res es" and rid: "rid = pr_RunID res" "rid \<noteq> []"
    and new: "v_runs v rid = None" "\<And>n. v_jobs v (rid, n) = None" "\<And>n t. v_steps v (rid, n, t) = None"
  shows "\<exists>v'. arecord_all v es = Some v' \<and> result_recorded v' pn res \<and> other_runs_kept rid v v'"
proof -
  from h obtain t0 t1 mid where es: "es = lifecycleEvent EventPipelineStarted t0 rid pn [] [] # mid @
        [lifecycleEvent EventPipelineFinished t1 rid pn [] [(''status'', status_String (pipelineStatus res))]]"
    and mid: "mid_history rid pn res mid"
    unfolding run_history_def mid_history_def by blast
  let ?first = "lifecycleEvent EventPipelineStarted t0 rid pn [] []"
  let ?last = "lifecycleEvent EventPipelineFinished t1 rid pn [] [(''status'', status_String (pipelineStatus res))]"
  have "orderly False {} es" using orderly_end [OF mid_orderly [OF mid]] by (simp add: es lifecycleEvent_def event_type_defs)
  moreover have ids: "\<forall>e \<in> set es. ev_RunID e = rid" using mid by (auto simp: es lifecycleEvent_def mid_history_def)
  ultimately obtain v' where v': "arecord_all v es = Some v'" using orderly_accepted rid(2) by blast
  note rows = arecord_all_rows [OF v']
  have all: "filter (\<lambda>e. ev_RunID e = rid) es = es" using ids by simp
  have run: "v_runs v' rid = Some \<lparr>ri_pipeline = pn, ri_status = status_String (pipelineStatus res),
      ri_started = stamp t0, ri_finished = Some (stamp t1)\<rparr>"
    unfolding rows(1) all new(1) by (simp add: es mid_run_op [OF mid] run_op_def lifecycleEvent_def event_type_defs gm_get_def)
  have outer: "job_op e j = j" "step_op e x = x" if "e \<in> {?first, ?last}" for e j x
    using that by (auto simp: job_op_def step_op_def lifecycleEvent_def event_type_defs)
  have job: "v_jobs v' (rid, n) = fold job_op (of_job n mid) None" for n
  proof -
    have "filter (\<lambda>e. ev_RunID e = rid \<and> ev_Job e = n) es = of_job n es" using ids by (auto simp: of_job_def intro: filter_cong)
    then show ?thesis unfolding rows(2) new(2) by (simp add: es outer)
  qed
  have step: "v_steps v' (rid, n, t) = fold step_op (filter (\<lambda>e. ev_Step e = t) (of_job n mid)) None" for n t
  proof -
    have "filter (\<lambda>e. ev_RunID e = rid \<and> ev_Job e = n \<and> ev_Step e = t) es = filter (\<lambda>e. ev_Step e = t) (of_job n es)"
      using ids by (auto simp: of_job_def conj_commute intro!: filter_cong)
    then show ?thesis unfolding rows(3) new(3) by (simp add: es outer)
  qed
  have "job_history rid pn (gr_StageName g) (jr_JobName j) j (of_job (jr_JobName j) mid)"
    if "g \<in> set (pr_StageResults res)" "j \<in> set (gr_JobResults g)" for g j
    using that mid unfolding mid_history_def by blast
  note rows_of_job = history_rows(1,2) [OF this]
  have "result_recorded v' pn res"
    unfolding result_recorded_def rid(1) [symmetric] job step
    using run rows_of_job mid_none [OF mid] by auto
  moreover have "other_runs_kept rid v v'"
    using ids by (auto simp: other_runs_kept_def rows filter_empty_conv filter_False)
  ultimately show ?thesis using v' by blast
qed

lemma run_recorded:
  assumes "Run DockerRunner_Run True ctx p path tr res" and "distinct (pipeline_job_names p)"
    and "store_ok s" and "v_runs (view s) (pr_RunID res) = None"
  shows "accepted s (published (map snd tr)) \<and>
    result_recorded (view (record_all (map (Pair no_faults) (published (map snd tr))) s)) (pipeline_Name p) res \<and>
    other_runs_kept (pr_RunID res) (view s) (view (record_all (map (Pair no_faults) (published (map snd tr))) s))"
proof -
  have "find_run s (pr_RunID res) = None" using assms(4) by simp
  then have "v_jobs (view s) (pr_RunID res, n) = None" "v_steps (view s) (pr_RunID res, n, t) = None" for n t
    by (simp_all add: job_at_def step_at_def)
  then obtain v' where "arecord_all (view s) (published (map snd tr)) = Some v'"
    "result_recorded v' (pipeline_Name p) res" "other_runs_kept (pr_RunID res) (view s) v'"
    using history_recorded [OF _ refl, where res = res and v = "view s"] Run_history [OF assms(1,2)] assms(4)
    by blast
  then show ?thesis using record_all_view [OF assms(3)] by blast
qed

end
