(* ===== verification/RecorderService.thy ===== *)
theory RecorderService
  imports ConsumerSafety StoreSafety
begin

text \<open>
  The results recorder as the server runs it: a consumer whose handler is \<open>Record\<close> of the
  results store. The handler calls of a behaviour of the consumer are answered by the store
  from its tables, with whatever faults SQLite has.
\<close>

text \<open>\<open>store_serves s tr s'\<close>: the store answers the events handled in \<open>tr\<close> and goes from \<open>s\<close> to \<open>s'\<close>.\<close>

inductive store_serves :: "db \<Rightarrow> obs list \<Rightarrow> db \<Rightarrow> bool" where
  serves_nothing: "store_serves s [] s"
| serves_event: "Record f s e = (r, s1) \<Longrightarrow> store_serves s1 tr s' \<Longrightarrow> store_serves s (ObsE (HandleEvent c e) r # tr) s'"
| serves_other: "\<forall>c e r. ob \<noteq> ObsE (HandleEvent c e) r \<Longrightarrow> store_serves s tr s' \<Longrightarrow> store_serves s (ob # tr) s'"

inductive_simps store_serves_simps [simp]:
  "store_serves s [] s'" "store_serves s (ObsE (HandleEvent c e) r # tr) s'"
inductive_cases store_servesE: "store_serves s (ob # tr) s'"

lemma store_serves_append: "store_serves s (tr @ tr') s' \<longleftrightarrow> (\<exists>t. store_serves s tr t \<and> store_serves t tr' s')"
proof (induction tr arbitrary: s)
  case (Cons ob tr)
  show ?case
  proof (cases "\<exists>c e r. ob = ObsE (HandleEvent c e) r")
    case True
    then obtain c e r where "ob = ObsE (HandleEvent c e) r" by blast
    then show ?thesis using Cons.IH by auto
  next
    case False
    then have "store_serves s (ob # xs) t \<longleftrightarrow> store_serves s xs t" for xs t
      by (auto intro: serves_other elim: store_servesE)
    then show ?thesis using Cons.IH by simp
  qed
qed simp

lemma store_serves_ok: "store_serves s tr s' \<Longrightarrow> store_ok s \<Longrightarrow> store_ok s'"
proof (induction rule: store_serves.induct)
  case (serves_event f s e r s1 tr s' c)
  then show ?case using recorder.handle_inv [of s f e] by simp
qed simp_all

text \<open>The call before an acknowledgement.\<close>

lemma acks_ok_at:
  "acks_ok dec M prev (pre @ ob # post) \<Longrightarrow> ack_of ob = Some i \<Longrightarrow>
     (if pre = [] then \<exists>p. prev = Some p \<and> justifies dec M p i else justifies dec M (last pre) i)"
  by (induction pre arbitrary: prev) (auto split: option.splits if_splits)

text \<open>
  How an entry leaves the pending entries of the recorder: as one whose event is recorded, so
  that another delivery changes nothing, or by way of the dead-letter stream, or because the
  stream no longer has it.
\<close>

definition recorded_entry :: "decoder \<Rightarrow> xmessage set \<Rightarrow> db \<Rightarrow> obs list \<Rightarrow> string \<Rightarrow> bool" where
  "recorded_entry dec M s pre i \<longleftrightarrow>
     (\<exists>m \<in> M. \<exists>c e s1 s2. msg_ID m = i \<and> dec (fst (envelope m)) = Inr e \<and> last pre = ObsE (HandleEvent c e) None \<and>
        store_serves s (butlast pre) s1 \<and> store_serves s pre s2 \<and>
        Record no_faults s1 e = (None, s2) \<and> Record no_faults s2 e = (None, s2))"

definition dead_lettered :: "obs list \<Rightarrow> string \<Rightarrow> bool" where
  "dead_lettered pre i \<longleftrightarrow> (\<exists>c lim vals. last pre = ObsE (XAdd c StreamDead lim vals) None \<and> map_of vals ''source_id'' = Some i)"

definition gone :: "obs list \<Rightarrow> string \<Rightarrow> bool" where
  "gone pre i \<longleftrightarrow> (\<exists>c st entries. last pre = ObsM (XRange c st i i) (Inr entries) \<and> length entries \<noteq> 1)"

lemma justified_cases:
  assumes "justifies dec M ob i"
  shows "(\<exists>c e m. ob = ObsE (HandleEvent c e) None \<and> m \<in> M \<and> msg_ID m = i \<and> dec (fst (envelope m)) = Inr e) \<or>
    (\<exists>c lim vals. ob = ObsE (XAdd c StreamDead lim vals) None \<and> map_of vals ''source_id'' = Some i) \<or>
    (\<exists>c st entries. ob = ObsM (XRange c st i i) (Inr entries) \<and> length entries \<noteq> 1)"
proof (cases ob)
  case (ObsE x r)
  show ?thesis
  proof (cases x)
    case (HandleEvent c e)
    then show ?thesis using assms by (simp add: ObsE justifies_def) blast
  next
    case (XAdd c st lim vals)
    then show ?thesis using assms by (simp add: ObsE justifies_def)
  qed (use assms in \<open>simp_all add: ObsE justifies_def\<close>)
next
  case (ObsM x r)
  show ?thesis
  proof (cases x; cases r)
    fix c st a b e assume "x = XRange c st a b" "r = Inl e"
    then show ?thesis using assms by (simp add: ObsM justifies_def)
  next
    fix c st a b es assume "x = XRange c st a b" "r = Inr es"
    then show ?thesis using assms by (simp add: ObsM justifies_def)
  qed
qed (use assms in \<open>simp_all add: justifies_def\<close>)

lemma ack_recorded:
  assumes "acks_ok dec M None (pre @ ObsE (XAck c st g i) r # post)"
    and "store_serves s (pre @ ObsE (XAck c st g i) r # post) s'"
  shows "recorded_entry dec M s pre i \<or> dead_lettered pre i \<or> gone pre i"
proof -
  have pre: "pre \<noteq> []" and j: "justifies dec M (last pre) i"
    using acks_ok_at [OF assms(1) ack_of_simps(1)] by (simp_all split: if_splits)
  consider c e m where "last pre = ObsE (HandleEvent c e) None" "m \<in> M" "msg_ID m = i" "dec (fst (envelope m)) = Inr e"
    | "dead_lettered pre i" | "gone pre i"
    using justified_cases [OF j] unfolding dead_lettered_def gone_def by blast
  then show ?thesis
  proof cases
    case (1 c e m)
    from assms(2) obtain s2 where s2: "store_serves s pre s2" by (auto simp: store_serves_append)
    have "pre = butlast pre @ [ObsE (HandleEvent c e) None]" using append_butlast_last_id [OF pre] 1(1) by simp
    then have "store_serves s (butlast pre @ [ObsE (HandleEvent c e) None]) s2" using s2 by simp
    then obtain s1 f where s1: "store_serves s (butlast pre) s1" and rec: "Record f s1 e = (None, s2)"
      unfolding store_serves_append by auto
    have "Record no_faults s1 e = (None, s2)" using Record_no_faults [OF rec] .
    then show ?thesis using 1 s1 s2 recorder.handle_again unfolding recorded_entry_def by blast
  qed blast+
qed

end
