(* ===== verification/Json.thy ===== *)
theory Json
  imports Times Unicode
begin

text \<open>
  JSON as package \<open>encoding/json\<close> reads and writes it: the syntax of RFC 8259, checked before
  anything is decoded, and string literals. A string is kept as it is written between its quotes,
  since a time is parsed from the literal and a text from what it stands for.
\<close>

datatype json =
    JNull
  | JBool bool
  | JNumber string
  | JString string
  | JArray "json list"
  | JObject "(string \<times> json) list"

section \<open>Scanning\<close>

definition quote_char :: char where "quote_char = CHR 0x22"
definition backslash :: char where "backslash = CHR 0x5C"

definition is_blank :: "char \<Rightarrow> bool" where
  "is_blank c \<longleftrightarrow> byte c \<in> {32, 9, 13, 10}"

definition skip_space :: "string \<Rightarrow> string" where "skip_space = dropWhile is_blank"

definition is_hex :: "char \<Rightarrow> bool" where
  "is_hex c \<longleftrightarrow> is_digit c \<or> (97 \<le> byte c \<and> byte c \<le> 102) \<or> (65 \<le> byte c \<and> byte c \<le> 70)"

text \<open>The rest of a string literal after its opening quote: what it holds, and what follows it.\<close>

function scan_string :: "string \<Rightarrow> (string \<times> string) option" where
  "scan_string [] = None"
| "scan_string (c # cs) =
     (if c = quote_char then Some ([], cs)
      else if c = backslash
      then (case cs of
              [] \<Rightarrow> None
            | e # r \<Rightarrow>
                if e \<in> set ''bfnrt/'' \<union> {quote_char, backslash}
                then map_option (\<lambda>(raw, rest). (c # e # raw, rest)) (scan_string r)
                else if e = CHR ''u'' \<and> 4 \<le> length r \<and> list_all is_hex (take 4 r)
                then map_option (\<lambda>(raw, rest). (c # e # take 4 r @ raw, rest)) (scan_string (drop 4 r))
                else None)
      else if byte c < 32 then None
      else map_option (\<lambda>(raw, rest). (c # raw, rest)) (scan_string cs))"
  by pat_completeness auto
termination by (relation "measure length") auto

text \<open>One or more digits.\<close>

definition scan_digits :: "string \<Rightarrow> (string \<times> string) option" where
  "scan_digits s = (case takeWhile is_digit s of [] \<Rightarrow> None | ds \<Rightarrow> Some (ds, dropWhile is_digit s))"

definition scan_sign :: "string \<Rightarrow> string \<times> string" where
  "scan_sign s = (case s of [] \<Rightarrow> ([], s) | c # r \<Rightarrow> if c = CHR ''-'' then ([c], r) else ([], s))"

definition scan_whole :: "string \<Rightarrow> (string \<times> string) option" where
  "scan_whole s = (case s of [] \<Rightarrow> None | c # r \<Rightarrow> if c = CHR ''0'' then Some ([c], r) else scan_digits s)"

definition scan_frac :: "string \<Rightarrow> (string \<times> string) option" where
  "scan_frac s = (case s of [] \<Rightarrow> Some ([], s)
     | c # r \<Rightarrow> if c = CHR ''.'' then map_option (\<lambda>(ds, rest). (c # ds, rest)) (scan_digits r) else Some ([], s))"

definition scan_exp :: "string \<Rightarrow> (string \<times> string) option" where
  "scan_exp s = (case s of [] \<Rightarrow> Some ([], s)
     | c # r \<Rightarrow>
         if c = CHR ''e'' \<or> c = CHR ''E''
         then (case r of [] \<Rightarrow> None
               | d # r' \<Rightarrow> if d = CHR ''+'' \<or> d = CHR ''-'' then map_option (\<lambda>(ds, rest). (c # d # ds, rest)) (scan_digits r')
                          else map_option (\<lambda>(ds, rest). (c # ds, rest)) (scan_digits r))
         else Some ([], s))"

definition scan_number :: "string \<Rightarrow> (string \<times> string) option" where
  "scan_number s =
     (case scan_sign s of (sign, s1) \<Rightarrow> do {
        (whole, s2) \<leftarrow> scan_whole s1;
        (frac, s3) \<leftarrow> scan_frac s2;
        (ex, s4) \<leftarrow> scan_exp s3;
        Some (sign @ whole @ frac @ ex, s4)
      })"

definition scan_word :: "string \<Rightarrow> string \<Rightarrow> string option" where
  "scan_word w s = (if prefix w s then Some (drop (length w) s) else None)"

text \<open>The next token, when it is the character.\<close>

definition token :: "char \<Rightarrow> string \<Rightarrow> string option" where
  "token c s = (case skip_space s of [] \<Rightarrow> None | x # r \<Rightarrow> if x = c then Some r else None)"

lemma scan_string_shorter: "scan_string s = Some (raw, rest) \<Longrightarrow> length rest < length s"
proof (induction s arbitrary: raw rule: scan_string.induct)
  case (2 c cs)
  show ?case
  proof (cases "c = quote_char \<or> c = backslash")
    case False
    then obtain raw' where "scan_string cs = Some (raw', rest)" using "2.prems" by (auto split: if_splits)
    then show ?thesis using "2.IH"(3) False "2.prems" by (auto split: if_splits)
  next
    case True
    show ?thesis
    proof (cases "c = quote_char")
      case False
      then have c: "c = backslash" using True by simp
      then obtain e r where cs: "cs = e # r" using "2.prems" False by (auto split: list.splits)
      show ?thesis
      proof (cases "e \<in> set ''bfnrt/'' \<union> {quote_char, backslash}")
        case True
        then obtain raw' where "scan_string r = Some (raw', rest)" using "2.prems" False c cs by auto
        then have "length rest < length r" using "2.IH"(1) [OF False c cs True] by blast
        then show ?thesis by (simp add: cs)
      next
        case no: False
        then have u: "e = CHR ''u'' \<and> 4 \<le> length r \<and> list_all is_hex (take 4 r)"
          using "2.prems" False c cs by (simp split: if_splits)
        then obtain raw' where "scan_string (drop 4 r) = Some (raw', rest)" using "2.prems" False c cs no by auto
        then have "length rest < length (drop 4 r)" using "2.IH"(2) [OF False c cs no u] by blast
        then show ?thesis by (simp add: cs)
      qed
    qed (use "2.prems" in simp)
  qed
qed simp

lemma skip_space_shorter: "length (skip_space s) \<le> length s"
  by (simp add: skip_space_def length_dropWhile_le)

lemma token_shorter: "token c s = Some r \<Longrightarrow> length r < length s"
  using skip_space_shorter [of s] by (auto simp: token_def split: list.splits if_splits)

section \<open>Values\<close>

lemma members_shorter:
  "token quote_char s = Some s1 \<Longrightarrow> scan_string s1 = Some (k, s2) \<Longrightarrow> token c s2 = Some s3 \<Longrightarrow> length s3 < length s"
  using token_shorter [of quote_char s s1] scan_string_shorter [of s1 k s2] token_shorter [of c s2 s3] by linarith

text \<open>
  \<open>depth\<close> is how many more arrays and objects may be opened. The comparison of lengths makes
  the recursion end; \<open>parse_shorter\<close> shows that it never fails.
\<close>

function (sequential) parse_value :: "nat \<Rightarrow> string \<Rightarrow> (json \<times> string) option"
  and parse_elements :: "nat \<Rightarrow> string \<Rightarrow> (json list \<times> string) option"
  and parse_members :: "nat \<Rightarrow> string \<Rightarrow> ((string \<times> json) list \<times> string) option" where
  "parse_value depth s =
     (case skip_space s of
        [] \<Rightarrow> None
      | c # r \<Rightarrow>
          if c = quote_char then map_option (\<lambda>(raw, rest). (JString raw, rest)) (scan_string r)
          else if c = CHR ''{''
          then (if depth = 0 then None
                else case token (CHR ''}'') r of
                       Some rest \<Rightarrow> Some (JObject [], rest)
                     | None \<Rightarrow> map_option (\<lambda>(ms, rest). (JObject ms, rest)) (parse_members (depth - 1) r))
          else if c = CHR ''[''
          then (if depth = 0 then None
                else case token (CHR '']'') r of
                       Some rest \<Rightarrow> Some (JArray [], rest)
                     | None \<Rightarrow> map_option (\<lambda>(vs, rest). (JArray vs, rest)) (parse_elements (depth - 1) r))
          else if c = CHR ''t'' then map_option (\<lambda>rest. (JBool True, rest)) (scan_word ''rue'' r)
          else if c = CHR ''f'' then map_option (\<lambda>rest. (JBool False, rest)) (scan_word ''alse'' r)
          else if c = CHR ''n'' then map_option (\<lambda>rest. (JNull, rest)) (scan_word ''ull'' r)
          else map_option (\<lambda>(num, rest). (JNumber num, rest)) (scan_number (c # r)))"
| "parse_elements depth s =
     (case parse_value depth s of
        None \<Rightarrow> None
      | Some (v, r) \<Rightarrow>
          (case token (CHR '']'') r of
             Some rest \<Rightarrow> Some ([v], rest)
           | None \<Rightarrow>
               (case token (CHR '','') r of
                  None \<Rightarrow> None
                | Some r' \<Rightarrow>
                    if length r' < length s
                    then map_option (\<lambda>(vs, rest). (v # vs, rest)) (parse_elements depth r') else None)))"
| "parse_members depth s =
     (case token quote_char s of
        None \<Rightarrow> None
      | Some s1 \<Rightarrow>
          (case scan_string s1 of
             None \<Rightarrow> None
           | Some (k, s2) \<Rightarrow>
               (case token (CHR '':'') s2 of
                  None \<Rightarrow> None
                | Some s3 \<Rightarrow>
                    (case parse_value depth s3 of
                       None \<Rightarrow> None
                     | Some (v, r) \<Rightarrow>
                         (case token (CHR ''}'') r of
                            Some rest \<Rightarrow> Some ([(k, v)], rest)
                          | None \<Rightarrow>
                              (case token (CHR '','') r of
                                 None \<Rightarrow> None
                               | Some r' \<Rightarrow>
                                   if length r' < length s
                                   then map_option (\<lambda>(ms, rest). ((k, v) # ms, rest)) (parse_members depth r') else None))))))"
  by pat_completeness auto

termination
proof (relation "measure (case_sum (\<lambda>(d, s). 2 * length s) (case_sum (\<lambda>(d, s). 2 * length s + 1) (\<lambda>(d, s). 2 * length s + 1)))", goal_cases)
  case (2 depth s c r)
  then show ?case using skip_space_shorter [of s] by simp
next
  case (3 depth s c r)
  then show ?case using skip_space_shorter [of s] by simp
next
  case (6 depth s s1 x k s2 s3)
  then show ?case using members_shorter [of s s1 k s2 "CHR '':''" s3] by auto
qed (simp_all)

declare parse_value.simps [simp del] parse_elements.simps [simp del] parse_members.simps [simp del]

lemma scan_digits_shorter: "scan_digits s = Some (ds, r) \<Longrightarrow> length r < length s"
  by (cases s) (auto simp: scan_digits_def less_Suc_eq_le length_dropWhile_le split: list.splits if_splits)

lemma scan_word_shorter: "scan_word w s = Some r \<Longrightarrow> length r \<le> length s"
  by (auto simp: scan_word_def split: if_splits)

lemma scan_whole_shorter: "scan_whole s = Some (ds, r) \<Longrightarrow> length r < length s"
  using scan_digits_shorter [of s ds r] by (auto simp: scan_whole_def split: list.splits if_splits)

lemma scan_frac_shorter: "scan_frac s = Some (ds, r) \<Longrightarrow> length r \<le> length s"
proof (cases s)
  case (Cons c cs)
  then show "scan_frac s = Some (ds, r) \<Longrightarrow> ?thesis"
    using scan_digits_shorter [of cs _ r] by (auto simp: scan_frac_def split: if_splits)
qed (simp add: scan_frac_def)

lemma scan_exp_shorter: "scan_exp s = Some (ds, r) \<Longrightarrow> length r \<le> length s"
proof (cases s)
  case (Cons c cs)
  have "length r < length cs" if "scan_digits cs = Some (es, r)" for es using scan_digits_shorter [OF that] .
  moreover have "length r < length (tl cs)" if "scan_digits (tl cs) = Some (es, r)" for es using scan_digits_shorter [OF that] .
  ultimately show "scan_exp s = Some (ds, r) \<Longrightarrow> ?thesis"
    using Cons by (cases cs) (auto simp: scan_exp_def split: if_splits)
qed (simp add: scan_exp_def)

lemma scan_number_shorter:
  assumes "scan_number s = Some (num, r)" shows "length r < length s"
proof -
  obtain sign s1 where s1: "scan_sign s = (sign, s1)" by (cases "scan_sign s")
  then have "length s1 \<le> length s" by (auto simp: scan_sign_def split: list.splits if_splits)
  moreover from assms obtain whole s2 frac s3 ex where "scan_whole s1 = Some (whole, s2)" "scan_frac s2 = Some (frac, s3)" "scan_exp s3 = Some (ex, r)"
    by (auto simp: scan_number_def s1 Option.bind_eq_Some_conv)
  ultimately show ?thesis using scan_whole_shorter scan_frac_shorter scan_exp_shorter by (meson dual_order.strict_trans1 le_less_trans less_le_trans)
qed

lemma parse_shorter:
  "parse_value depth s = Some (v, r) \<Longrightarrow> length r < length s"
  "parse_elements depth s = Some (vs, r) \<Longrightarrow> length r < length s"
  "parse_members depth s = Some (ms, r) \<Longrightarrow> length r < length s"
proof (induction depth s and depth s and depth s arbitrary: v r and vs r and ms r rule: parse_value_parse_elements_parse_members.induct)
  case (1 depth s)
  obtain c cs where s: "skip_space s = c # cs" using "1.prems" by (cases "skip_space s") (simp_all add: parse_value.simps [of depth s])
  have l: "length (c # cs) \<le> length s" using skip_space_shorter [of s] by (simp only: s)
  consider (str) "c = quote_char" | (obj) "c = CHR ''{''" "c \<noteq> quote_char" | (arr) "c = CHR ''[''" "c \<noteq> quote_char" "c \<noteq> CHR ''{''"
    | (other) "c \<noteq> quote_char" "c \<noteq> CHR ''{''" "c \<noteq> CHR ''[''" by blast
  then have "length r < length (c # cs)"
  proof cases
    case str
    then show ?thesis using "1.prems" scan_string_shorter [of cs _ r] by (auto simp: parse_value.simps [of depth s] s)
  next
    case obj
    then have d: "depth \<noteq> 0" using "1.prems" by (auto simp: parse_value.simps [of depth s] s split: if_splits)
    show ?thesis
    proof (cases "token (CHR ''}'') cs")
      case None
      then obtain ms where "parse_members (depth - 1) cs = Some (ms, r)" using "1.prems" obj d by (auto simp: parse_value.simps [of depth s] s)
      then show ?thesis using "1.IH"(1) [OF s obj(2,1) d None] by simp
    next
      case (Some rest)
      then show ?thesis using "1.prems" obj d token_shorter [OF Some] by (simp add: parse_value.simps [of depth s] s)
    qed
  next
    case arr
    then have d: "depth \<noteq> 0" using "1.prems" by (auto simp: parse_value.simps [of depth s] s split: if_splits)
    show ?thesis
    proof (cases "token (CHR '']'') cs")
      case None
      then obtain vs where "parse_elements (depth - 1) cs = Some (vs, r)" using "1.prems" arr d by (auto simp: parse_value.simps [of depth s] s)
      then show ?thesis using "1.IH"(2) [OF s arr(2,3,1) d None] by simp
    next
      case (Some rest)
      then show ?thesis using "1.prems" arr d token_shorter [OF Some] by (simp add: parse_value.simps [of depth s] s)
    qed
  next
    case other
    then show ?thesis using "1.prems" scan_word_shorter [of _ cs r] scan_number_shorter [of "c # cs" _ r]
      by (auto simp: parse_value.simps [of depth s] s less_Suc_eq_le split: if_splits)
  qed
  then show ?case using l by linarith
next
  case (2 depth s)
  obtain v r1 where v: "parse_value depth s = Some (v, r1)" using "2.prems" by (cases "parse_value depth s") (auto simp: parse_elements.simps [of depth s])
  have l: "length r1 < length s" using "2.IH"(1) v .
  show ?case
  proof (cases "token (CHR '']'') r1")
    case None
    then obtain r2 where r2: "token (CHR '','') r1 = Some r2" using "2.prems" v by (cases "token (CHR '','') r1") (auto simp: parse_elements.simps [of depth s])
    then have g: "length r2 < length s" using token_shorter [OF r2] l by linarith
    then obtain vs' where "parse_elements depth r2 = Some (vs', r)" using "2.prems" v None r2 by (auto simp: parse_elements.simps [of depth s])
    then show ?thesis using "2.IH"(2) [OF v refl None r2 g] g by simp
  next
    case (Some rest)
    then show ?thesis using "2.prems" v l token_shorter [OF Some] by (simp add: parse_elements.simps [of depth s])
  qed
next
  case (3 depth s)
  note eq = parse_members.simps [of depth s]
  obtain s1 where s1: "token quote_char s = Some s1" using "3.prems" by (cases "token quote_char s") (auto simp: eq)
  obtain k s2 where s2: "scan_string s1 = Some (k, s2)" using "3.prems" s1 by (cases "scan_string s1") (auto simp: eq)
  obtain s3 where s3: "token (CHR '':'') s2 = Some s3" using "3.prems" s1 s2 by (cases "token (CHR '':'') s2") (auto simp: eq)
  obtain v r1 where v: "parse_value depth s3 = Some (v, r1)" using "3.prems" s1 s2 s3 by (cases "parse_value depth s3") (auto simp: eq)
  have l: "length r1 < length s" using "3.IH"(1) [OF s1 s2 refl s3 v] members_shorter [OF s1 s2 s3] by linarith
  show ?case
  proof (cases "token (CHR ''}'') r1")
    case None
    then obtain r2 where r2: "token (CHR '','') r1 = Some r2" using "3.prems" s1 s2 s3 v by (cases "token (CHR '','') r1") (auto simp: eq)
    then have g: "length r2 < length s" using token_shorter [OF r2] l by linarith
    then obtain ms' where "parse_members depth r2 = Some (ms', r)" using "3.prems" s1 s2 s3 v None r2 by (auto simp: eq)
    then show ?thesis using "3.IH"(2) [OF s1 s2 refl s3 v refl None r2 g] g by simp
  next
    case (Some rest)
    then show ?thesis using "3.prems" s1 s2 s3 v l token_shorter [OF Some] by (simp add: eq)
  qed
qed

text \<open>The members of an object and the elements of an array, without the comparison of lengths.\<close>

lemma parse_members_eq:
  "token quote_char s = Some s1 \<Longrightarrow> scan_string s1 = Some (k, s2) \<Longrightarrow> token (CHR '':'') s2 = Some s3 \<Longrightarrow>
     parse_value depth s3 = Some (v, r) \<Longrightarrow>
     parse_members depth s =
       (case token (CHR ''}'') r of
          Some rest \<Rightarrow> Some ([(k, v)], rest)
        | None \<Rightarrow> (case token (CHR '','') r of
             None \<Rightarrow> None
           | Some r' \<Rightarrow> map_option (\<lambda>(ms, rest). ((k, v) # ms, rest)) (parse_members depth r')))"
  using members_shorter [of s s1 k s2 "CHR '':''" s3] parse_shorter(1) [of depth s3 v r] token_shorter [of "CHR '',''" r]
  by (auto simp: parse_members.simps [of depth s] split: option.split)

lemma parse_elements_eq:
  "parse_value depth s = Some (v, r) \<Longrightarrow>
     parse_elements depth s =
       (case token (CHR '']'') r of
          Some rest \<Rightarrow> Some ([v], rest)
        | None \<Rightarrow> (case token (CHR '','') r of
             None \<Rightarrow> None
           | Some r' \<Rightarrow> map_option (\<lambda>(vs, rest). (v # vs, rest)) (parse_elements depth r')))"
  using parse_shorter(1) [of depth s v r] token_shorter [of "CHR '',''" r]
  by (auto simp: parse_elements.simps [of depth s] split: option.split)

text \<open>A whole text; \<open>encoding/json\<close> allows arrays and objects to be nested ten thousand deep.\<close>

definition max_depth :: nat where "max_depth = 10000"

definition parse_json :: "string \<Rightarrow> json option" where
  "parse_json s =
     (case parse_value max_depth s of
        None \<Rightarrow> None
      | Some (v, rest) \<Rightarrow> if skip_space rest = [] then Some v else None)"

section \<open>String literals\<close>

definition hex_val :: "char \<Rightarrow> nat" where
  "hex_val c = (if byte c \<le> 57 then byte c - 48 else if byte c \<le> 70 then byte c - 55 else byte c - 87)"

definition hex4 :: "string \<Rightarrow> nat" where
  "hex4 s = foldl (\<lambda>n c. 16 * n + hex_val c) 0 (take 4 s)"

definition surrogate :: "nat \<Rightarrow> bool" where "surrogate n \<longleftrightarrow> 55296 \<le> n \<and> n < 57344"

text \<open>The low surrogate escaped at the front, when the first is a high one.\<close>

definition low_surrogate :: "nat \<Rightarrow> string \<Rightarrow> nat option" where
  "low_surrogate n s =
     (case s of
        b # u # r \<Rightarrow>
          if n < 56320 \<and> b = backslash \<and> u = CHR ''u'' \<and> 4 \<le> length r \<and> list_all is_hex (take 4 r) \<and> 56320 \<le> hex4 r \<and> hex4 r < 57344
          then Some (hex4 r) else None
      | _ \<Rightarrow> None)"

definition plain_escape :: "char \<Rightarrow> char" where
  "plain_escape e =
     (if e = CHR ''b'' then CHR 0x08 else if e = CHR ''f'' then CHR 0x0C else if e = CHR ''n'' then CHR 0x0A
      else if e = CHR ''r'' then CHR 0x0D else if e = CHR ''t'' then CHR 0x09 else e)"

text \<open>What a scanned literal stands for; bytes that are not UTF-8 become U+FFFD.\<close>

function unquote :: "string \<Rightarrow> string" where
  "unquote [] = []"
| "unquote (c # cs) =
     (if c = backslash
      then (case cs of
              [] \<Rightarrow> []
            | e # r \<Rightarrow>
                if e \<noteq> CHR ''u'' then plain_escape e # unquote r
                else if \<not> surrogate (hex4 r) then encode_rune (hex4 r) @ unquote (drop 4 r)
                else (case low_surrogate (hex4 r) (drop 4 r) of
                        Some m \<Rightarrow> encode_rune ((hex4 r - 55296) * 1024 + (m - 56320) + 65536) @ unquote (drop 10 r)
                      | None \<Rightarrow> encode_rune RuneError @ unquote (drop 4 r)))
      else (case decode_rune (c # cs) of
              (Some n, w) \<Rightarrow> take w (c # cs) @ unquote (drop (w - 1) cs)
            | (None, w) \<Rightarrow> encode_rune RuneError @ unquote (drop (w - 1) cs)))"
  by pat_completeness auto
termination by (relation "measure length") auto

text \<open>Writing a string, with the escapes that also protect HTML.\<close>

definition escape_rune :: "nat option \<times> string \<Rightarrow> string" where
  "escape_rune rb =
     (case fst rb of
        None \<Rightarrow> [backslash] @ ''ufffd''
      | Some n \<Rightarrow>
          if n = 34 \<or> n = 92 then backslash # snd rb
          else if n = 8 then [backslash, CHR ''b'']
          else if n = 12 then [backslash, CHR ''f'']
          else if n = 10 then [backslash, CHR ''n'']
          else if n = 13 then [backslash, CHR ''r'']
          else if n = 9 then [backslash, CHR ''t'']
          else if n < 32 \<or> n = 38 \<or> n = 60 \<or> n = 62 then [backslash] @ ''u00'' @ hex_number 2 n
          else if n = 8232 \<or> n = 8233 then [backslash] @ ''u202'' @ [hex_digit (n mod 16)]
          else snd rb)"

definition escaped :: "string \<Rightarrow> string" where
  "escaped s = concat (map escape_rune (runes s))"

definition json_string :: "string \<Rightarrow> string" where
  "json_string s = quote_char # escaped s @ [quote_char]"

lemma hex_digit_ok [simp]: "d < 16 \<Longrightarrow> is_hex (hex_digit d)" "d < 16 \<Longrightarrow> hex_val (hex_digit d) = d"
  by (auto simp: hex_digit_def is_hex_def is_digit_def hex_val_def byte_def)

lemma special_chars [simp]:
  "quote_char \<noteq> backslash" "backslash \<noteq> quote_char" "byte backslash = 92" "byte quote_char = 34"
  by (simp_all add: quote_char_def backslash_def byte_def)

lemma hex4_cons [simp]: "hex4 (a # b # c # d # r) = ((hex_val a * 16 + hex_val b) * 16 + hex_val c) * 16 + hex_val d"
  by (simp add: hex4_def mult.commute)

text \<open>The three kinds of units that a written string consists of.\<close>

lemma unit_escape:
  assumes "e \<in> set ''bfnrt/'' \<union> {quote_char, backslash}"
  shows "scan_string (backslash # e # t) = map_option (\<lambda>(raw, rest). ([backslash, e] @ raw, rest)) (scan_string t)"
    "unquote (backslash # e # t) = plain_escape e # unquote t"
proof -
  have "e \<noteq> CHR ''u''" using assms by (auto simp: quote_char_def backslash_def)
  then show "unquote (backslash # e # t) = plain_escape e # unquote t" by simp
  show "scan_string (backslash # e # t) = map_option (\<lambda>(raw, rest). ([backslash, e] @ raw, rest)) (scan_string t)"
    using assms by (simp del: set_simps Un_insert_right)
qed

lemma unit_hex:
  assumes "is_hex a" "is_hex b" "is_hex c" "is_hex d" and "\<not> surrogate (hex4 [a, b, c, d])"
  shows "scan_string (backslash # CHR ''u'' # a # b # c # d # t) =
      map_option (\<lambda>(raw, rest). ([backslash, CHR ''u'', a, b, c, d] @ raw, rest)) (scan_string t)"
    "unquote (backslash # CHR ''u'' # a # b # c # d # t) = encode_rune (hex4 [a, b, c, d]) @ unquote t"
proof -
  have "CHR ''u'' \<notin> set ''bfnrt/'' \<union> {quote_char, backslash}" by (simp add: quote_char_def backslash_def)
  then show "scan_string (backslash # CHR ''u'' # a # b # c # d # t) =
      map_option (\<lambda>(raw, rest). ([backslash, CHR ''u'', a, b, c, d] @ raw, rest)) (scan_string t)"
    using assms by simp
  show "unquote (backslash # CHR ''u'' # a # b # c # d # t) = encode_rune (hex4 [a, b, c, d]) @ unquote t"
    using assms by simp
qed

definition literal_byte :: "char \<Rightarrow> bool" where
  "literal_byte c \<longleftrightarrow> c \<noteq> quote_char \<and> c \<noteq> backslash \<and> 32 \<le> byte c"

lemma unit_bytes:
  "list_all literal_byte bs \<Longrightarrow> scan_string (bs @ t) = map_option (\<lambda>(raw, rest). (bs @ raw, rest)) (scan_string t)"
proof (induction bs)
  case (Cons c bs)
  then show ?case by (simp add: literal_byte_def option.map_comp comp_def case_prod_beta')
qed (simp add: option.map_id)

lemma unit_rune:
  assumes "decode_rune s = (Some n, w)" and "n \<noteq> 92"
  shows "unquote (take w s @ t) = take w s @ unquote t"
proof -
  have len: "length (take w s) = w" "1 \<le> w" using decode_rune_encoded [OF assms(1)] by blast+
  then obtain c cs where c: "take w s = c # cs" by (cases "take w s") auto
  have d: "decode_rune (take w s @ t) = (Some n, w)" by (rule decode_rune_prefix [OF assms(1)])
  have "c \<noteq> backslash"
  proof
    assume "c = backslash"
    then have "decode_rune (take w s @ t) = (Some 92, 1)" by (simp add: c)
    then show False using d assms(2) by simp
  qed
  moreover have "length cs = w - 1" "take w (c # cs @ t) = c # cs" using len c by (auto simp: take_Cons')
  moreover have "decode_rune (c # cs @ t) = (Some n, w)" using d by (simp only: c append_Cons)
  ultimately show ?thesis unfolding c by simp
qed

text \<open>A rune that has been written is scanned back, and read as itself or as U+FFFD.\<close>

definition read_rune :: "nat option \<times> string \<Rightarrow> string" where
  "read_rune rb = (if fst rb = None then encode_rune RuneError else snd rb)"

definition unit_ok :: "string \<Rightarrow> string \<Rightarrow> bool" where
  "unit_ok u bs \<longleftrightarrow> (\<forall>t. scan_string (u @ t) = map_option (\<lambda>(raw, rest). (u @ raw, rest)) (scan_string t) \<and>
     unquote (u @ t) = bs @ unquote t)"

lemma unit_ok_escape: "e \<in> set ''bfnrt/'' \<union> {quote_char, backslash} \<Longrightarrow> unit_ok [backslash, e] [plain_escape e]"
  using unit_escape [of e] by (simp add: unit_ok_def del: scan_string.simps unquote.simps)

lemma unit_ok_hex:
  "list_all is_hex h \<Longrightarrow> length h = 4 \<Longrightarrow> \<not> surrogate (hex4 h) \<Longrightarrow> unit_ok (backslash # CHR ''u'' # h) (encode_rune (hex4 h))"
  using unit_hex by (auto simp: unit_ok_def length_Suc_conv numeral_eq_Suc simp del: scan_string.simps unquote.simps hex4_cons)

lemma hex_pair: "n < 256 \<Longrightarrow> hex4 (''00'' @ hex_number 2 n) = n \<and> list_all is_hex (''00'' @ hex_number 2 n)"
proof -
  assume n: "n < 256"
  have d: "n div 16 < 16" "n mod 16 < 16" "n div 16 * 16 + n mod 16 = n" using n by auto
  have zero: "is_hex (CHR ''0'')" "hex_val (CHR ''0'') = 0" by (simp_all add: is_hex_def is_digit_def hex_val_def byte_def)
  have "hex_number 2 n = [hex_digit (n div 16), hex_digit (n mod 16)]" using d(1) by (simp add: numeral_2_eq_2)
  then show ?thesis using d zero by simp
qed

lemma escape_rune_unit:
  assumes "decode_rune s = (r, w)"
  shows "unit_ok (escape_rune (r, take w s)) (read_rune (r, take w s))"
proof (cases r)
  case None
  have "hex4 ''fffd'' = RuneError" "list_all is_hex ''fffd''"
    by (simp_all add: is_hex_def hex_val_def byte_def is_digit_def RuneError_def)
  then show ?thesis using unit_ok_hex [of "''fffd''"] None
    by (simp add: escape_rune_def read_rune_def RuneError_def surrogate_def)
next
  case (Some n)
  have enc: "take w s = encode_rune n" using decode_rune_encoded assms Some by blast
  have read: "read_rune (r, take w s) = encode_rune n" by (simp add: read_rune_def Some enc)
  have one: "encode_rune n = [char_of n]" if "n < 128" using that by (simp add: encode_rune_def)
  note escs = unit_ok_escape [of quote_char] unit_ok_escape [of backslash] unit_ok_escape [of "CHR ''b''"]
    unit_ok_escape [of "CHR ''f''"] unit_ok_escape [of "CHR ''n''"] unit_ok_escape [of "CHR ''r''"] unit_ok_escape [of "CHR ''t''"]
  consider (short) "n = 34 \<or> n = 92 \<or> n = 8 \<or> n = 12 \<or> n = 10 \<or> n = 13 \<or> n = 9"
    | (hex) "n \<notin> {34, 92, 8, 12, 10, 13, 9}" "n < 32 \<or> n = 38 \<or> n = 60 \<or> n = 62"
    | (sep) "n = 8232 \<or> n = 8233"
    | (bytes) "n \<noteq> 34" "n \<noteq> 92" "32 \<le> n" "n \<notin> {38, 60, 62, 8232, 8233}" by fastforce
  then show ?thesis
  proof cases
    case short
    have chars: "char_of (34 :: nat) = quote_char" "char_of (92 :: nat) = backslash" "char_of (8 :: nat) = CHR 0x08" "char_of (12 :: nat) = CHR 0x0C"
      "char_of (10 :: nat) = CHR 0x0A" "char_of (13 :: nat) = CHR 0x0D" "char_of (9 :: nat) = CHR 0x09"
      by code_simp+
    show ?thesis using short escs one unfolding read
      by (elim disjE) (simp_all add: escape_rune_def Some enc chars plain_escape_def, simp_all add: quote_char_def backslash_def)
  next
    case hex
    then have n: "n < 256" by auto
    note h = hex_pair [OF n]
    have "unit_ok (backslash # CHR ''u'' # ''00'' @ hex_number 2 n) (encode_rune (hex4 (''00'' @ hex_number 2 n)))"
      using h n by (intro unit_ok_hex) (simp_all add: surrogate_def)
    moreover have "escape_rune (r, take w s) = backslash # CHR ''u'' # ''00'' @ hex_number 2 n"
      using hex by (auto simp: escape_rune_def Some)
    ultimately show ?thesis using h unfolding read by simp
  next
    case sep
    have "hex4 (''202'' @ [hex_digit (n mod 16)]) = n" "list_all is_hex ''202''"
      using sep by (auto simp: is_hex_def hex_val_def byte_def is_digit_def hex_digit_def)
    moreover have "is_hex (hex_digit (n mod 16))" "\<not> surrogate n" using sep by (auto simp: surrogate_def)
    ultimately have "unit_ok (backslash # CHR ''u'' # ''202'' @ [hex_digit (n mod 16)]) (encode_rune n)"
      using unit_ok_hex [of "''202'' @ [hex_digit (n mod 16)]"] by simp
    moreover have "escape_rune (r, take w s) = backslash # CHR ''u'' # ''202'' @ [hex_digit (n mod 16)]"
      using sep by (auto simp: escape_rune_def Some)
    ultimately show ?thesis unfolding read by simp
  next
    case bytes
    have "list_all literal_byte (take w s)"
    proof (cases "n < 128")
      case True
      have "byte (char_of n :: char) = n" using True by (simp add: byte_def)
      then have "literal_byte (char_of n)" using bytes by (auto simp: literal_byte_def)
      then show ?thesis using one [OF True] enc by simp
    next
      case False
      then have "list_all (\<lambda>c. 128 \<le> byte c) (take w s)" using decode_rune_high assms Some by simp
      then show ?thesis by (rule list.pred_mono_strong) (auto simp: literal_byte_def)
    qed
    moreover have "escape_rune (r, take w s) = take w s"
      using bytes by (auto simp: escape_rune_def Some)
    moreover have "read_rune (r, take w s) = take w s" by (simp add: read_rune_def Some)
    moreover have "unquote (take w s @ t) = take w s @ unquote t" for t
      using unit_rune assms bytes(2) Some by blast
    ultimately show ?thesis using unit_bytes by (simp add: unit_ok_def del: scan_string.simps unquote.simps)
  qed
qed

lemma escaped_units:
  "scan_string (escaped s @ t) = map_option (\<lambda>(raw, rest). (escaped s @ raw, rest)) (scan_string t) \<and>
   unquote (escaped s @ t) = sanitize s @ unquote t"
proof (induction s rule: runes.induct)
  case (2 c cs)
  obtain r w where d: "decode_rune (c # cs) = (r, w)" by (cases "decode_rune (c # cs)")
  have u: "unit_ok (escape_rune (r, take w (c # cs))) (read_rune (r, take w (c # cs)))" by (rule escape_rune_unit [OF d])
  have "escaped (c # cs) = escape_rune (r, take w (c # cs)) @ escaped (drop (w - 1) cs)"
    "sanitize (c # cs) = read_rune (r, take w (c # cs)) @ sanitize (drop (w - 1) cs)"
    using d by (simp_all add: escaped_def sanitize_def read_rune_def)
  then show ?case using u 2 [OF d [symmetric]]
    by (simp add: unit_ok_def option.map_comp comp_def case_prod_beta' del: scan_string.simps unquote.simps)
qed (simp add: escaped_def sanitize_def option.map_ident)

text \<open>What is written is scanned to its end, and read as what was written.\<close>

lemma scan_escaped: "scan_string (escaped s @ quote_char # t) = Some (escaped s, t)"
  using escaped_units [of s "quote_char # t"] by simp

lemma unquote_escaped: "unquote (escaped s) = sanitize s"
  using escaped_units [of s "[]"] by simp

end
