(* ===== verification/EventJson.thy ===== *)
theory EventJson
  imports Json Domain
begin

text \<open>
  \<open>json.Marshal\<close> and \<open>json.Unmarshal\<close> of a lifecycle event, by the tags of
  \<open>internal/domain/event.go\<close>. A time is written in the local time zone, whose offset at that time
  is a parameter.
\<close>

section \<open>Encoding\<close>

fun join_with :: "string \<Rightarrow> string list \<Rightarrow> string" where
  "join_with sep [] = []"
| "join_with sep [x] = x"
| "join_with sep (x # xs) = x @ sep @ join_with sep xs"

definition json_member :: "string \<times> string \<Rightarrow> string" where
  "json_member m = (case m of (k, text) \<Rightarrow> json_string k @ '':'' @ text)"

definition json_object :: "(string \<times> string) list \<Rightarrow> string" where
  "json_object ms = ''{'' @ join_with '','' (map json_member ms) @ ''}''"

text \<open>\<open>Time.MarshalJSON\<close>: the years and offsets that RFC 3339 cannot express are errors.\<close>

definition marshal_time :: "int \<Rightarrow> gotime \<Rightarrow> go_error + string" where
  "marshal_time off t =
     (if year_of off t < 0 \<or> 10000 \<le> year_of off t
      then Inl (Errorf [Lit ''json: error calling MarshalJSON for type time.Time: Time.MarshalJSON: '',
                        Wrapped (External ''year outside of range [0,9999]'')])
      else if 86400 \<le> \<bar>off\<bar>
      then Inl (Errorf [Lit ''json: error calling MarshalJSON for type time.Time: Time.MarshalJSON: '',
                        Wrapped (External ''timezone hour outside of range [0,23]'')])
      else Inr (quote_char # format_time off t @ [quote_char]))"

text \<open>Fields tagged \<open>omitempty\<close> are left out when empty; the keys of a map are sorted.\<close>

definition optional_member :: "string \<Rightarrow> string \<Rightarrow> (string \<times> string) list" where
  "optional_member k text = (if text = [] then [] else [(k, json_string text)])"

definition payload_members :: "string gomap \<Rightarrow> (string \<times> string) list" where
  "payload_members m = map (\<lambda>k. (k, json_string (gm_get [] m k))) (sorted_keys m)"

definition Marshal :: "(gotime \<Rightarrow> int) \<Rightarrow> go_event \<Rightarrow> go_error + string" where
  "Marshal zone e =
     (case marshal_time (zone (ev_OccurredAt e)) (ev_OccurredAt e) of
        Inl err \<Rightarrow> Inl err
      | Inr time \<Rightarrow> Inr (json_object
          ([(''type'', json_string (ev_Type e)), (''occurred_at'', time)] @ optional_member ''run_id'' (ev_RunID e) @
           [(''pipeline'', json_string (ev_Pipeline e))] @ optional_member ''job'' (ev_Job e) @ optional_member ''step'' (ev_Step e) @
           (if ev_Payload e = [] then [] else [(''payload'', json_object (payload_members (ev_Payload e)))]))))"

section \<open>Decoding\<close>

text \<open>The zero event, with the time 0001-01-01.\<close>

definition zero_event :: go_event where
  "zero_event = \<lparr>ev_Type = [], ev_OccurredAt = -62135596800000000000, ev_RunID = [], ev_Pipeline = [], ev_Job = [], ev_Step = [], ev_Payload = []\<rparr>"

definition event_fields :: "string list" where
  "event_fields = [''type'', ''occurred_at'', ''run_id'', ''pipeline'', ''job'', ''step'', ''payload'']"

text \<open>
  A key names the field with its name, or else the field that it equals under case folding; two letters
  outside ASCII fold to ASCII ones, the long s and the Kelvin sign.
\<close>

definition fold_rune :: "nat option \<times> string \<Rightarrow> string" where
  "fold_rune rb =
     (case fst rb of
        None \<Rightarrow> snd rb
      | Some n \<Rightarrow> if 65 \<le> n \<and> n \<le> 90 then [char_of (n + 32)] else if n = 383 then ''s'' else if n = 8490 then ''k'' else snd rb)"

definition fold_name :: "string \<Rightarrow> string" where
  "fold_name s = concat (map fold_rune (runes s))"

definition field_named :: "string \<Rightarrow> string option" where
  "field_named k = (if k \<in> set event_fields then Some k else find (\<lambda>f. f = fold_name k) event_fields)"

text \<open>A null leaves a text and a time alone; other values of a wrong type are errors.\<close>

definition decode_text :: "string \<Rightarrow> json \<Rightarrow> string option" where
  "decode_text old v = (case v of JNull \<Rightarrow> Some old | JString raw \<Rightarrow> Some (unquote raw) | _ \<Rightarrow> None)"

definition decode_time :: "gotime \<Rightarrow> json \<Rightarrow> gotime option" where
  "decode_time old v = (case v of JNull \<Rightarrow> Some old | JString raw \<Rightarrow> parse_time raw | _ \<Rightarrow> None)"

fun decode_entries :: "string gomap \<Rightarrow> (string \<times> json) list \<Rightarrow> string gomap option" where
  "decode_entries m [] = Some m"
| "decode_entries m ((k, v) # ms) =
     (case decode_text [] v of None \<Rightarrow> None | Some text \<Rightarrow> decode_entries (gm_set m (unquote k) text) ms)"

text \<open>A null empties a map; an object adds to what an earlier one left.\<close>

definition decode_payload :: "string gomap \<Rightarrow> json \<Rightarrow> string gomap option" where
  "decode_payload m v = (case v of JNull \<Rightarrow> Some [] | JObject ms \<Rightarrow> decode_entries m ms | _ \<Rightarrow> None)"

definition decode_field :: "string option \<Rightarrow> json \<Rightarrow> go_event \<Rightarrow> go_event option" where
  "decode_field f v e =
     (if f = Some ''type'' then map_option (\<lambda>x. e\<lparr>ev_Type := x\<rparr>) (decode_text (ev_Type e) v)
      else if f = Some ''occurred_at'' then map_option (\<lambda>x. e\<lparr>ev_OccurredAt := x\<rparr>) (decode_time (ev_OccurredAt e) v)
      else if f = Some ''run_id'' then map_option (\<lambda>x. e\<lparr>ev_RunID := x\<rparr>) (decode_text (ev_RunID e) v)
      else if f = Some ''pipeline'' then map_option (\<lambda>x. e\<lparr>ev_Pipeline := x\<rparr>) (decode_text (ev_Pipeline e) v)
      else if f = Some ''job'' then map_option (\<lambda>x. e\<lparr>ev_Job := x\<rparr>) (decode_text (ev_Job e) v)
      else if f = Some ''step'' then map_option (\<lambda>x. e\<lparr>ev_Step := x\<rparr>) (decode_text (ev_Step e) v)
      else if f = Some ''payload'' then map_option (\<lambda>x. e\<lparr>ev_Payload := x\<rparr>) (decode_payload (ev_Payload e) v)
      else Some e)"

fun decode_members :: "go_event \<Rightarrow> (string \<times> json) list \<Rightarrow> go_event option" where
  "decode_members e [] = Some e"
| "decode_members e ((k, v) # ms) =
     (case decode_field (field_named (unquote k)) v e of None \<Rightarrow> None | Some e' \<Rightarrow> decode_members e' ms)"

text \<open>The text of a decoding error only reaches a log line; all are one value here.\<close>

definition Unmarshal :: "string \<Rightarrow> go_error + go_event" where
  "Unmarshal s =
     (let failed = Inl (External ''json: cannot unmarshal event'') in
      case parse_json s of
        None \<Rightarrow> failed
      | Some JNull \<Rightarrow> Inr zero_event
      | Some (JObject ms) \<Rightarrow> (case decode_members zero_event ms of None \<Rightarrow> failed | Some e \<Rightarrow> Inr e)
      | Some _ \<Rightarrow> failed)"

section \<open>Parsing what was encoded\<close>

definition parses :: "nat \<Rightarrow> string \<Rightarrow> json \<Rightarrow> bool" where
  "parses depth text v \<longleftrightarrow> (\<forall>t. parse_value depth (text @ t) = Some (v, t))"

lemma skip_space_first [simp]: "\<not> is_blank c \<Longrightarrow> skip_space (c # s) = c # s"
  by (simp add: skip_space_def)

lemma token_first [simp]: "\<not> is_blank x \<Longrightarrow> token c (x # r) = (if x = c then Some r else None)"
  by (simp add: token_def)

lemma not_blank [simp]:
  "\<not> is_blank quote_char" "\<not> is_blank (CHR '':'')" "\<not> is_blank (CHR '','')" "\<not> is_blank (CHR ''{'')" "\<not> is_blank (CHR ''}'')"
  by (simp_all add: is_blank_def byte_def quote_char_def)

lemma quote_char_other [simp]:
  "quote_char \<noteq> CHR ''}''" "CHR ''{'' \<noteq> quote_char"
  by (simp_all add: quote_char_def)

lemma parses_literal:
  assumes "\<And>t. scan_string (raw @ quote_char # t) = Some (raw, t)"
  shows "parses depth (quote_char # raw @ [quote_char]) (JString raw)"
  using assms by (simp add: parses_def parse_value.simps)

lemma parses_string: "parses depth (json_string s) (JString (escaped s))"
  unfolding json_string_def by (rule parses_literal [OF scan_escaped])

lemma parse_member:
  assumes "parses depth text v"
  shows "parse_members depth (json_member (k, text) @ t) =
    (case token (CHR ''}'') t of
       Some rest \<Rightarrow> Some ([(escaped k, v)], rest)
     | None \<Rightarrow> (case token (CHR '','') t of
          None \<Rightarrow> None
        | Some t' \<Rightarrow> map_option (\<lambda>(ms, rest). ((escaped k, v) # ms, rest)) (parse_members depth t')))"
proof (rule parse_members_eq)
  show "token quote_char (json_member (k, text) @ t) = Some (escaped k @ quote_char # CHR '':'' # text @ t)"
    by (simp add: json_member_def json_string_def)
  show "scan_string (escaped k @ quote_char # CHR '':'' # text @ t) = Some (escaped k, CHR '':'' # text @ t)" by (rule scan_escaped)
  show "token (CHR '':'') (CHR '':'' # text @ t) = Some (text @ t)" by simp
  show "parse_value depth (text @ t) = Some (v, t)" using assms by (simp add: parses_def)
qed

lemma parse_joined:
  assumes "xs \<noteq> []" and "list_all (\<lambda>(k, text, v). parses depth text v) xs"
  shows "parse_members depth (join_with '','' (map (\<lambda>(k, text, v). json_member (k, text)) xs) @ CHR ''}'' # t) =
    Some (map (\<lambda>(k, text, v). (escaped k, v)) xs, t)"
  using assms
proof (induction xs)
  case (Cons x xs)
  obtain k body v where x: "x = (k, body, v)" by (cases x)
  then have p: "parses depth body v" using Cons.prems by simp
  show ?case
  proof (cases xs)
    case Nil
    then show ?thesis by (simp add: x parse_member [OF p])
  next
    case (Cons y ys)
    then show ?thesis using Cons.IH Cons.prems by (simp add: x parse_member [OF p] list_all_iff split: prod.split)
  qed
qed simp

lemma parses_object:
  assumes "list_all (\<lambda>(k, text, v). parses depth text v) xs"
  shows "parses (Suc depth) (json_object (map (\<lambda>(k, text, v). (k, text)) xs)) (JObject (map (\<lambda>(k, text, v). (escaped k, v)) xs))"
proof -
  have m: "map json_member (map (\<lambda>(k, text, v). (k, text)) xs) = map (\<lambda>(k, text, v). json_member (k, text)) xs"
    by (simp add: case_prod_beta' comp_def)
  show ?thesis
  proof (cases xs)
    case Nil
    then show ?thesis by (simp add: parses_def json_object_def parse_value.simps)
  next
    case (Cons x ys)
    have "token (CHR ''}'') (join_with '','' (map (\<lambda>(k, text, v). json_member (k, text)) xs) @ t) = None" for t
      using Cons by (cases x; cases ys) (simp_all add: json_member_def json_string_def)
    moreover have "xs \<noteq> []" using Cons by simp
    ultimately show ?thesis
      using parse_joined [OF _ assms] by (simp add: parses_def json_object_def parse_value.simps m del: map_map)
  qed
qed

lemma literal_pad: "list_all literal_byte (pad w i)"
proof -
  have "literal_byte c" if "is_digit c" for c
    using that by (auto simp: literal_byte_def is_digit_def quote_char_def backslash_def byte_def)
  moreover have "literal_byte (CHR ''0'')" "literal_byte (CHR ''-'')" by (simp_all add: literal_byte_def quote_char_def backslash_def byte_def)
  ultimately show ?thesis using nat_digits_are_digits [of "nat \<bar>i\<bar>"] by (auto simp: pad_def Let_def list_all_iff)
qed

lemma literal_fraction: "list_all literal_byte (fraction ns)"
proof -
  have "\<forall>c \<in> set (pad 9 ns). literal_byte c" using literal_pad [of 9 ns] by (simp add: list_all_iff)
  then show ?thesis by (auto simp: fraction_def list_all_iff literal_byte_def [of "CHR ''.''"] quote_char_def backslash_def byte_def dest: set_dropWhileD)
qed

lemma literal_time: "list_all literal_byte (format_time off t)"
proof -
  have "literal_byte (CHR ''-'')" "literal_byte (CHR ''+'')" "literal_byte (CHR '':'')" "literal_byte (CHR ''T'')" "literal_byte (CHR ''Z'')"
    by (simp_all add: literal_byte_def quote_char_def backslash_def byte_def)
  then show ?thesis
    using literal_pad literal_fraction by (simp add: format_time_def zone_text_def Let_def split: prod.split)
qed

lemma parses_time: "parses depth (quote_char # format_time off t @ [quote_char]) (JString (format_time off t))"
  by (rule parses_literal) (simp add: unit_bytes [OF literal_time])

section \<open>Decoding what was encoded\<close>

text \<open>The members of an encoded event, with what their values are parsed to.\<close>

definition optional_value :: "string \<Rightarrow> string \<Rightarrow> (string \<times> string \<times> json) list" where
  "optional_value k s = (if s = [] then [] else [(k, json_string s, JString (escaped s))])"

definition payload_values :: "string gomap \<Rightarrow> (string \<times> string \<times> json) list" where
  "payload_values m = map (\<lambda>k. (k, json_string (gm_get [] m k), JString (escaped (gm_get [] m k)))) (sorted_keys m)"

definition event_values :: "(gotime \<Rightarrow> int) \<Rightarrow> go_event \<Rightarrow> (string \<times> string \<times> json) list" where
  "event_values zone e =
     (let time = format_time (zone (ev_OccurredAt e)) (ev_OccurredAt e)
      in [(''type'', json_string (ev_Type e), JString (escaped (ev_Type e))),
          (''occurred_at'', quote_char # time @ [quote_char], JString time)] @
         optional_value ''run_id'' (ev_RunID e) @ [(''pipeline'', json_string (ev_Pipeline e), JString (escaped (ev_Pipeline e)))] @
         optional_value ''job'' (ev_Job e) @ optional_value ''step'' (ev_Step e) @
         (if ev_Payload e = [] then []
          else [(''payload'', json_object (payload_members (ev_Payload e)),
                 JObject (map (\<lambda>(k, text, v). (escaped k, v)) (payload_values (ev_Payload e))))]))"

lemma payload_values_members: "map (\<lambda>(k, text, v). (k, text)) (payload_values m) = payload_members m"
  by (simp add: payload_values_def payload_members_def)

lemma parses_values: "list_all (\<lambda>(k, text, v). parses (Suc depth) text v) (event_values zone e)"
proof -
  have "list_all (\<lambda>(k, text, v). parses depth text v) (payload_values m)" for m
    by (simp add: payload_values_def list_all_iff parses_string)
  then have "parses (Suc depth) (json_object (payload_members m)) (JObject (map (\<lambda>(k, text, v). (escaped k, v)) (payload_values m)))" for m
    using parses_object unfolding payload_values_members [symmetric] by blast
  then show ?thesis by (simp add: event_values_def optional_value_def Let_def parses_string parses_time)
qed

lemma Marshal_values:
  assumes "marshal_time (zone (ev_OccurredAt e)) (ev_OccurredAt e) = Inr time"
  shows "Marshal zone e = Inr (json_object (map (\<lambda>(k, text, v). (k, text)) (event_values zone e)))"
  using assms by (auto simp: Marshal_def event_values_def optional_value_def optional_member_def Let_def marshal_time_def split: if_splits)

text \<open>What a consumer receives: the event, with invalid bytes replaced, and the payload in the order of its keys.\<close>

definition received_payload :: "string gomap \<Rightarrow> string gomap" where
  "received_payload m = foldl (\<lambda>m' k. gm_set m' (sanitize k) (sanitize (gm_get [] m k))) [] (sorted_keys m)"

definition received :: "go_event \<Rightarrow> go_event" where
  "received e = \<lparr>ev_Type = sanitize (ev_Type e), ev_OccurredAt = ev_OccurredAt e, ev_RunID = sanitize (ev_RunID e),
     ev_Pipeline = sanitize (ev_Pipeline e), ev_Job = sanitize (ev_Job e), ev_Step = sanitize (ev_Step e),
     ev_Payload = received_payload (ev_Payload e)\<rparr>"

lemma decode_entries_values:
  "decode_entries m (map (\<lambda>k. (escaped k, JString (escaped (f k)))) ks) = Some (foldl (\<lambda>m' k. gm_set m' (sanitize k) (sanitize (f k))) m ks)"
  by (induction ks arbitrary: m) (simp_all add: decode_text_def unquote_escaped)

lemma field_names [simp]:
  "unquote (escaped ''type'') = ''type''" "unquote (escaped ''occurred_at'') = ''occurred_at''" "unquote (escaped ''run_id'') = ''run_id''"
  "unquote (escaped ''pipeline'') = ''pipeline''" "unquote (escaped ''job'') = ''job''" "unquote (escaped ''step'') = ''step''"
  "unquote (escaped ''payload'') = ''payload''"
  unfolding unquote_escaped by (rule sanitize_valid, rule valid_utf8_ascii, simp add: byte_def)+

lemma field_named_own [simp]:
  "field_named ''type'' = Some ''type''" "field_named ''occurred_at'' = Some ''occurred_at''" "field_named ''run_id'' = Some ''run_id''"
  "field_named ''pipeline'' = Some ''pipeline''" "field_named ''job'' = Some ''job''" "field_named ''step'' = Some ''step''"
  "field_named ''payload'' = Some ''payload''"
  by (simp_all add: field_named_def event_fields_def)

lemma decode_field_own [simp]:
  "decode_field (Some ''type'') (JString (escaped s)) e = Some (e\<lparr>ev_Type := sanitize s\<rparr>)"
  "decode_field (Some ''occurred_at'') (JString raw) e = map_option (\<lambda>x. e\<lparr>ev_OccurredAt := x\<rparr>) (parse_time raw)"
  "decode_field (Some ''run_id'') (JString (escaped s)) e = Some (e\<lparr>ev_RunID := sanitize s\<rparr>)"
  "decode_field (Some ''pipeline'') (JString (escaped s)) e = Some (e\<lparr>ev_Pipeline := sanitize s\<rparr>)"
  "decode_field (Some ''job'') (JString (escaped s)) e = Some (e\<lparr>ev_Job := sanitize s\<rparr>)"
  "decode_field (Some ''step'') (JString (escaped s)) e = Some (e\<lparr>ev_Step := sanitize s\<rparr>)"
  "decode_field (Some ''payload'') v e = map_option (\<lambda>x. e\<lparr>ev_Payload := x\<rparr>) (decode_payload (ev_Payload e) v)"
  by (simp_all add: decode_field_def decode_text_def decode_time_def unquote_escaped)

lemma decode_members_append:
  "decode_members e (xs @ ys) = Option.bind (decode_members e xs) (\<lambda>e'. decode_members e' ys)"
  by (induction e xs rule: decode_members.induct) (simp_all split: option.split)

lemma sanitize_Nil [simp]: "sanitize [] = []"
  by simp

lemma decode_members_values:
  assumes "parse_time (format_time (zone (ev_OccurredAt e)) (ev_OccurredAt e)) = Some (ev_OccurredAt e)"
  shows "decode_members zero_event (map (\<lambda>(k, text, v). (escaped k, v)) (event_values zone e)) = Some (received e)"
proof -
  have opt: "decode_members e' (map (\<lambda>(k, text, v). (escaped k, v)) (optional_value k s)) =
      (if s = [] then Some e' else decode_field (field_named (unquote (escaped k))) (JString (escaped s)) e')" for e' k s
    by (simp add: optional_value_def split: option.split)
  have pay: "decode_payload [] (JObject (map (\<lambda>(k, text, v). (escaped k, v)) (payload_values m))) = Some (received_payload m)" for m
    by (simp add: decode_payload_def payload_values_def comp_def decode_entries_values received_payload_def)
  have empty: "received_payload [] = []" by (simp add: received_payload_def sorted_keys_def)
  let ?t = "ev_OccurredAt e"
  have opts: "(if s = [] then Some e' else Some (e'\<lparr>ev_RunID := sanitize s\<rparr>)) = Some (e'\<lparr>ev_RunID := sanitize s\<rparr>)" if "ev_RunID e' = []" for e' s
    using that by (cases e') simp
  have optj: "(if s = [] then Some e' else Some (e'\<lparr>ev_Job := sanitize s\<rparr>)) = Some (e'\<lparr>ev_Job := sanitize s\<rparr>)" if "ev_Job e' = []" for e' s
    using that by (cases e') simp
  have optp: "(if s = [] then Some e' else Some (e'\<lparr>ev_Step := sanitize s\<rparr>)) = Some (e'\<lparr>ev_Step := sanitize s\<rparr>)" if "ev_Step e' = []" for e' s
    using that by (cases e') simp
  have last: "decode_members e' (map (\<lambda>(k, text, v). (escaped k, v)) (if m = [] then []
      else [(''payload'', json_object (payload_members m), JObject (map (\<lambda>(k, text, v). (escaped k, v)) (payload_values m)))])) =
      Some (e'\<lparr>ev_Payload := received_payload m\<rparr>)" if "ev_Payload e' = []" for e' m
    using that pay empty by (cases e') simp
  show ?thesis
    unfolding event_values_def Let_def map_append decode_members_append opt
    by (simp add: assms opts optj optp last zero_event_def) (simp add: received_def)
qed

lemma Unmarshal_Marshal:
  assumes "60 dvd zone (ev_OccurredAt e)" and "marshal_time (zone (ev_OccurredAt e)) (ev_OccurredAt e) = Inr time"
  shows "\<exists>body. Marshal zone e = Inr body \<and> Unmarshal body = Inr (received e)"
proof -
  let ?xs = "event_values zone e"
  have depth: "max_depth = Suc (Suc 9998)" by (simp add: max_depth_def)
  have "parses max_depth (json_object (map (\<lambda>(k, text, v). (k, text)) ?xs)) (JObject (map (\<lambda>(k, text, v). (escaped k, v)) ?xs))"
    unfolding depth by (rule parses_object [OF parses_values])
  then have "parse_json (json_object (map (\<lambda>(k, text, v). (k, text)) ?xs)) = Some (JObject (map (\<lambda>(k, text, v). (escaped k, v)) ?xs))"
    unfolding parses_def parse_json_def by (metis (mono_tags, lifting) append_Nil2 dropWhile.simps(1) option.simps(5) prod.simps(2) skip_space_def)
  moreover have "parse_time (format_time (zone (ev_OccurredAt e)) (ev_OccurredAt e)) = Some (ev_OccurredAt e)"
    using assms by (intro parse_format) (auto simp: marshal_time_def split: if_splits)
  ultimately show ?thesis
    using Marshal_values [of zone e, OF assms(2)] decode_members_values [of zone e] by (simp add: Unmarshal_def Let_def)
qed

section \<open>Valid events\<close>

text \<open>The texts of an event, and events all whose texts are valid UTF-8.\<close>

definition event_texts :: "go_event \<Rightarrow> string list" where
  "event_texts e = [ev_Type e, ev_RunID e, ev_Pipeline e, ev_Job e, ev_Step e] @ map fst (ev_Payload e) @ map snd (ev_Payload e)"

definition event_valid :: "go_event \<Rightarrow> bool" where
  "event_valid e \<longleftrightarrow> gm_ok (ev_Payload e) \<and> list_all valid_utf8 (event_texts e)"

text \<open>A map in the order of its keys.\<close>

definition key_order :: "string gomap \<Rightarrow> string gomap" where
  "key_order m = map (\<lambda>k. (k, gm_get [] m k)) (sorted_keys m)"

lemma map_of_key_order [simp]: "map_of (key_order m) = map_of m"
proof
  fix k
  show "map_of (key_order m) k = map_of m k"
  proof (cases "map_of m k")
    case None
    then have "k \<notin> fst ` set m" by (simp add: map_of_eq_None_iff)
    then show ?thesis using None by (simp add: key_order_def map_of_map_restrict)
  next
    case (Some v)
    then have "k \<in> fst ` set m" by (metis map_of_eq_None_iff option.distinct(1))
    then show ?thesis using Some by (simp add: key_order_def map_of_map_restrict gm_get_def)
  qed
qed

lemma foldl_gm_set:
  fixes m :: "'b gomap"
  assumes "distinct ks" and "set ks \<inter> fst ` set m = {}"
  shows "foldl (\<lambda>m' k. gm_set m' k (f k)) m ks = m @ map (\<lambda>k. (k, f k)) ks"
  using assms
proof (induction ks arbitrary: m)
  case (Cons k ks)
  have "AList.update k v xs = xs @ [(k, v)]" if "k \<notin> fst ` set xs" for xs :: "'b gomap" and k v
    using that by (induction xs) auto
  then have "gm_set m k (f k) = m @ [(k, f k)]" using Cons.prems by (simp add: gm_set_def)
  then show ?case using Cons.IH [of "m @ [(k, f k)]"] Cons.prems by auto
qed simp

lemma received_valid:
  assumes "event_valid e"
  shows "received e = e\<lparr>ev_Payload := key_order (ev_Payload e)\<rparr>"
proof -
  let ?m = "ev_Payload e"
  have ok: "gm_ok ?m" and valid: "\<forall>s \<in> set (event_texts e). valid_utf8 s"
    using assms by (simp_all add: event_valid_def list_all_iff)
  have "sanitize k = k \<and> sanitize (gm_get [] ?m k) = gm_get [] ?m k" if "k \<in> set (sorted_keys ?m)" for k
  proof -
    have k: "k \<in> fst ` set ?m" using that by simp
    then obtain v where "map_of ?m k = Some v" by (metis map_of_eq_None_iff not_None_eq)
    moreover then have "v \<in> snd ` set ?m" by (metis image_eqI map_of_SomeD snd_conv)
    ultimately show ?thesis using k valid by (simp add: event_texts_def gm_get_def)
  qed
  then have "received_payload ?m = foldl (\<lambda>m' k. gm_set m' k (gm_get [] ?m k)) [] (sorted_keys ?m)"
    unfolding received_payload_def by (intro foldl_cong) simp_all
  also have "\<dots> = key_order ?m" using ok by (simp add: foldl_gm_set key_order_def)
  finally show ?thesis using valid by (cases e) (simp add: received_def event_texts_def)
qed

lemma gm_get_key_order [simp]: "gm_get z (key_order m) k = gm_get z m k"
  by (simp add: gm_get_def)

section \<open>Properties\<close>

text \<open>The times that RFC 3339 can express.\<close>

definition time_fits :: "int \<Rightarrow> gotime \<Rightarrow> bool" where
  "time_fits off t \<longleftrightarrow> 0 \<le> year_of off t \<and> year_of off t < 10000 \<and> \<bar>off\<bar> < 86400"

lemma marshal_time_fits: "(\<exists>time. marshal_time off t = Inr time) \<longleftrightarrow> time_fits off t"
  by (auto simp: marshal_time_def time_fits_def)

lemma Marshal_fits: "time_fits (zone (ev_OccurredAt e)) (ev_OccurredAt e) \<longleftrightarrow> (\<exists>body. Marshal zone e = Inr body)"
  unfolding marshal_time_fits [symmetric] by (simp add: Marshal_def split: sum.split)

text \<open>
  C19. The envelope that the publisher writes is read back by the consumer. An event can be
  encoded exactly when its time has a year of four digits and an offset below a day. What is decoded
  is then the event again, down to the nanosecond of its time, its payload in the order of the keys;
  bytes that are not UTF-8 arrive as U+FFFD, and nothing else changes, whatever quotes, control bytes
  or other characters the names and values contain.
\<close>

theorem event_json:
  assumes "60 dvd zone (ev_OccurredAt e)"
  shows "(case Marshal zone e of
      Inl err \<Rightarrow> \<not> time_fits (zone (ev_OccurredAt e)) (ev_OccurredAt e)
    | Inr body \<Rightarrow> time_fits (zone (ev_OccurredAt e)) (ev_OccurredAt e) \<and> Unmarshal body = Inr (received e)) \<and>
    (event_valid e \<longrightarrow> received e = e\<lparr>ev_Payload := key_order (ev_Payload e)\<rparr>)"
proof (cases "Marshal zone e")
  case (Inl err)
  then show ?thesis using Marshal_fits [of zone e] received_valid by simp
next
  case (Inr body)
  then have fits: "time_fits (zone (ev_OccurredAt e)) (ev_OccurredAt e)" using Marshal_fits by blast
  then obtain time where "marshal_time (zone (ev_OccurredAt e)) (ev_OccurredAt e) = Inr time" using marshal_time_fits by blast
  from Unmarshal_Marshal [of zone e, OF assms this] show ?thesis using Inr fits received_valid by auto
qed

text \<open>A step whose name has a quote, a backslash, a line feed and a letter outside ASCII.\<close>

definition odd_event :: go_event where
  "odd_event = \<lparr>ev_Type = EventStepFinished, ev_OccurredAt = 1700000000120000000, ev_RunID = ''run-1'', ev_Pipeline = ''ci'',
     ev_Job = ''lint'', ev_Step = [quote_char, backslash, newline, CHR 0xC3, CHR 0xA9], ev_Payload = [(''status'', ''passed''), (''exit_code'', ''0'')]\<rparr>"

theorem event_json_witness:
  "\<exists>body. Marshal (\<lambda>t. 3600) odd_event = Inr body \<and>
     Unmarshal body = Inr (odd_event\<lparr>ev_Payload := [(''exit_code'', ''0''), (''status'', ''passed'')]\<rparr>)"
proof -
  have "time_fits 3600 (ev_OccurredAt odd_event)" by code_simp
  moreover have "event_valid odd_event" by code_simp
  moreover have "key_order (ev_Payload odd_event) = [(''exit_code'', ''0''), (''status'', ''passed'')]" by code_simp
  ultimately show ?thesis using event_json [of "\<lambda>t. 3600" odd_event] by (auto split: sum.splits)
qed

end
