(* ===== verification/Delivery.thy ===== *)
theory Delivery
  imports Recording RecorderService EventJson ConsumerProperties
begin

text \<open>
  From a run to the results database by way of the event bus: the engine's events are encoded and
  written to the stream by the publisher, read and decoded by the consumer, and recorded by the store.
\<close>

section \<open>Recording a received event\<close>

text \<open>The store looks entries of the payload up, so their order makes no difference.\<close>

lemma Record_payload:
  assumes "map_of q = map_of (ev_Payload e)"
  shows "Record f s (e\<lparr>ev_Payload := q\<rparr>) = Record f s e"
proof -
  let ?e = "e\<lparr>ev_Payload := q\<rparr>"
  have "gm_get [] q = gm_get [] (ev_Payload e)" using assms by (intro ext) (simp add: gm_get_def)
  then have
    "recordPipelineStarted f s ?e = recordPipelineStarted f s e" "recordPipelineFinished f s ?e = recordPipelineFinished f s e"
    "recordJobStarted f s ?e = recordJobStarted f s e" "recordJobFinished f s ?e = recordJobFinished f s e"
    "recordStepStarted f s ?e = recordStepStarted f s e"
    by (simp_all add: record_defs cong: sum.case_cong)
  moreover have "payloadNumber ?e = payloadNumber e" using assms by (intro ext) (simp add: payloadNumber_def cong: option.case_cong sum.case_cong)
  then have "recordStepFinished f s ?e = recordStepFinished f s e"
    using \<open>gm_get [] q = gm_get [] (ev_Payload e)\<close> by (simp add: recordStepFinished_def cong: sum.case_cong)
  ultimately show ?thesis by (simp add: Record_def)
qed

lemma Record_received: "event_valid e \<Longrightarrow> Record f s (received e) = Record f s e"
  by (simp add: received_valid Record_payload)

lemma record_all_received:
  "\<forall>e \<in> set es. event_valid e \<Longrightarrow> record_all (map (Pair f) (map received es)) s = record_all (map (Pair f) es) s"
  by (induction es arbitrary: s) (simp_all add: record_all_def Record_received)

lemma accepted_received: "\<forall>e \<in> set es. event_valid e \<Longrightarrow> accepted s (map received es) = accepted s es"
  by (induction es arbitrary: s) (simp_all add: Record_received)

section \<open>The events of a run are valid\<close>

text \<open>The names in a pipeline; a TOML file is UTF-8, so those that were loaded are.\<close>

definition pipeline_texts :: "go_pipeline \<Rightarrow> string list" where
  "pipeline_texts p = pipeline_Name p # concat (map (\<lambda>g. stage_Name g # concat (map (\<lambda>j. job_Name j # map step_Name (job_Steps j))
     (stage_Jobs g))) (pipeline_Stages p))"

lemma ascii_digits: "list_all is_digit s \<Longrightarrow> list_all (\<lambda>c. byte c < 128) s"
  by (induction s) (auto simp: is_digit_def byte_def)

lemma valid_itoa [simp]: "valid_utf8 (itoa i)"
proof (rule valid_utf8_ascii)
  show "list_all (\<lambda>c. byte c < 128) (itoa i)"
    using nat_digits_are_digits [THEN ascii_digits] by (simp add: itoa_def byte_def)
qed

lemma valid_status: "st \<in> result_statuses \<Longrightarrow> valid_utf8 (status_String st)"
  by (auto simp: result_statuses_def status_defs status_String_def byte_def intro!: valid_utf8_ascii)

lemma valid_names [simp]:
  "valid_utf8 EventPipelineStarted" "valid_utf8 EventPipelineFinished" "valid_utf8 EventJobStarted" "valid_utf8 EventJobFinished"
  "valid_utf8 EventStepStarted" "valid_utf8 EventStepFinished"
  "valid_utf8 ''status''" "valid_utf8 ''stage''" "valid_utf8 ''exit_code''" "valid_utf8 ''duration_ms''"
  by (simp_all add: event_type_defs byte_def valid_utf8_ascii)

text \<open>
  The schema of the envelopes: the six types, the fields that each of them fills, and the entries of its
  payload. The status is one that results can have; the numbers of a step are decimal 64-bit integers.
\<close>

definition status_payload :: "string gomap \<Rightarrow> bool" where
  "status_payload m \<longleftrightarrow> (\<exists>st \<in> result_statuses. map_of m ''status'' = Some (status_String st))"

definition event_schema :: "go_event \<Rightarrow> bool" where
  "event_schema e \<longleftrightarrow> event_valid e \<and> ev_RunID e \<noteq> [] \<and>
     (let m = ev_Payload e; ks = map fst m in
      if ev_Type e = EventPipelineStarted then ev_Job e = [] \<and> ev_Step e = [] \<and> ks = []
      else if ev_Type e = EventPipelineFinished then ev_Job e = [] \<and> ev_Step e = [] \<and> ks = [''status''] \<and> status_payload m
      else if ev_Type e = EventJobStarted then ev_Step e = [] \<and> ks = [''stage'']
      else if ev_Type e = EventJobFinished then ev_Step e = [] \<and> ks = [''status''] \<and> status_payload m
      else if ev_Type e = EventStepStarted then ks = []
      else ev_Type e = EventStepFinished \<and> set ks \<subseteq> {''status'', ''duration_ms'', ''exit_code''} \<and> status_payload m \<and>
        payload_ok e \<and> payload_value e ''duration_ms'' ''ParseInt'' \<noteq> None)"

lemma event_type_neqs:
  "EventPipelineStarted \<noteq> EventPipelineFinished" "EventPipelineStarted \<noteq> EventJobStarted" "EventPipelineStarted \<noteq> EventJobFinished" "EventPipelineStarted \<noteq> EventStepStarted" "EventPipelineStarted \<noteq> EventStepFinished"
  "EventPipelineFinished \<noteq> EventPipelineStarted" "EventPipelineFinished \<noteq> EventJobStarted" "EventPipelineFinished \<noteq> EventJobFinished" "EventPipelineFinished \<noteq> EventStepStarted" "EventPipelineFinished \<noteq> EventStepFinished"
  "EventJobStarted \<noteq> EventPipelineStarted" "EventJobStarted \<noteq> EventPipelineFinished" "EventJobStarted \<noteq> EventJobFinished" "EventJobStarted \<noteq> EventStepStarted" "EventJobStarted \<noteq> EventStepFinished"
  "EventJobFinished \<noteq> EventPipelineStarted" "EventJobFinished \<noteq> EventPipelineFinished" "EventJobFinished \<noteq> EventJobStarted" "EventJobFinished \<noteq> EventStepStarted" "EventJobFinished \<noteq> EventStepFinished"
  "EventStepStarted \<noteq> EventPipelineStarted" "EventStepStarted \<noteq> EventPipelineFinished" "EventStepStarted \<noteq> EventJobStarted" "EventStepStarted \<noteq> EventJobFinished" "EventStepStarted \<noteq> EventStepFinished"
  "EventStepFinished \<noteq> EventPipelineStarted" "EventStepFinished \<noteq> EventPipelineFinished" "EventStepFinished \<noteq> EventJobStarted" "EventStepFinished \<noteq> EventJobFinished" "EventStepFinished \<noteq> EventStepStarted"
  by (simp_all add: event_type_defs)

lemma schema_valid: "event_schema e \<Longrightarrow> event_valid e"
  by (simp add: event_schema_def)

lemma schema_lifecycleEvent:
  assumes "valid_utf8 rid" "rid \<noteq> []" "valid_utf8 pn" "valid_utf8 job" "st \<in> result_statuses" "valid_utf8 sn"
  shows "event_schema (lifecycleEvent EventPipelineStarted t rid pn [] [])"
    "event_schema (lifecycleEvent EventPipelineFinished t rid pn [] [(''status'', status_String st)])"
    "event_schema (lifecycleEvent EventJobStarted t rid pn job [(''stage'', sn)])"
    "event_schema (lifecycleEvent EventJobFinished t rid pn job [(''status'', status_String st)])"
  using assms valid_status [OF assms(5)]
  by (auto simp: event_schema_def event_valid_def event_texts_def lifecycleEvent_def status_payload_def gm_ok_def event_type_neqs)

lemma event_schema_untimed [simp]: "event_schema (untimed e) = event_schema e"
proof -
  have "payloadNumber (untimed e) = payloadNumber e"
    by (intro ext) (simp add: payloadNumber_def untimed_def cong: option.case_cong sum.case_cong)
  moreover have "ev_Type (untimed e) = ev_Type e" "ev_RunID (untimed e) = ev_RunID e" "ev_Pipeline (untimed e) = ev_Pipeline e"
    "ev_Job (untimed e) = ev_Job e" "ev_Step (untimed e) = ev_Step e" "ev_Payload (untimed e) = ev_Payload e"
    by (simp_all add: untimed_def)
  ultimately show ?thesis by (simp only: event_schema_def event_valid_def event_texts_def payload_ok_def payload_value_def)
qed

lemma valid_finishedPayload: "gm_ok (finishedPayload r)" "\<forall>s \<in> fst ` set (finishedPayload r) \<union> snd ` set (finishedPayload r). valid_utf8 s"
  by (auto simp: finishedPayload_def Let_def gm_ok_def gm_set_def valid_status)

lemma schema_group_events:
  assumes "valid_utf8 pn" "valid_utf8 rid" "rid \<noteq> []" "valid_utf8 n" "valid_utf8 (fst g)" "\<forall>r \<in> set (snd g). sr_StepName r = fst g"
    and "e \<in> set (group_events (StampedSink pn rid) n g)"
  shows "event_schema e"
proof -
  from assms(7) consider "e = (stepStartedEvent n (fst g) 0)\<lparr>ev_Pipeline := pn, ev_RunID := rid\<rparr>"
    | r where "r \<in> set (snd g)" "e = (stepFinishedEvent n r 0)\<lparr>ev_Pipeline := pn, ev_RunID := rid\<rparr>"
    by (auto simp: group_events_def)
  then show ?thesis
  proof cases
    case 1
    then show ?thesis using assms by (simp add: event_schema_def event_valid_def event_texts_def stepStartedEvent_def event_type_neqs)
  next
    case (2 r)
    have "valid_utf8 (sr_StepName r)" using 2(1) assms(5,6) by simp
    then have "event_valid e" using assms(1-4) valid_finishedPayload [of r]
      by (simp add: 2(2) event_valid_def event_texts_def stepFinishedEvent_def list_all_iff ball_Un)
    moreover have pay: "ev_Payload e = finishedPayload r" by (simp add: 2(2) stepFinishedEvent_def)
    moreover have "set (map fst (finishedPayload r)) \<subseteq> {''status'', ''duration_ms'', ''exit_code''}" "status_payload (finishedPayload r)"
      by (auto simp: finishedPayload_def Let_def gm_set_def status_payload_def)
    moreover have "ev_Type e = EventStepFinished" "ev_RunID e \<noteq> []" using assms(3) by (simp_all add: 2(2) stepFinishedEvent_def)
    ultimately show ?thesis using finished_payload [OF pay] by (simp add: event_schema_def event_type_neqs)
  qed
qed

text \<open>The events of one job, then those of the run.\<close>

lemma runJob_schema:
  assumes "replay (runJob DockerRunner_Run True c sn pn rid path job) tr = Some jr"
    and names: "valid_utf8 sn" "valid_utf8 pn" "valid_utf8 rid" "rid \<noteq> []" "valid_utf8 (job_Name job)" "\<forall>st \<in> set (job_Steps job). valid_utf8 (step_Name st)"
    and e: "e \<in> set (published tr)"
  shows "event_schema e"
proof -
  have "spec (runJob DockerRunner_Run True c sn pn rid path job) (\<lambda>tr jr. \<exists>t0 t1 str. published tr =
      lifecycleEvent EventJobStarted t0 rid pn (job_Name job) [(''stage'', sn)] # published str @
      [lifecycleEvent EventJobFinished t1 rid pn (job_Name job) [(''status'', status_String (jobStatus jr))]] \<and>
      events_post job (StampedSink pn rid) str jr)"
    unfolding runJob_def emit_def stepSink_def
    by (simp, intro allI, rule spec_mono [OF DockerRunner_Run_post]) (auto simp: job_post_def, blast+)
  from specD [OF this assms(1)] obtain t0 t1 str where pub: "published tr =
      lifecycleEvent EventJobStarted t0 rid pn (job_Name job) [(''stage'', sn)] # published str @
      [lifecycleEvent EventJobFinished t1 rid pn (job_Name job) [(''status'', status_String (jobStatus jr))]]"
    and post: "events_post job (StampedSink pn rid) str jr" by blast
  from post obtain groups k where ann: "announced str = concat (map (group_events (StampedSink pn rid) (job_Name job)) groups)"
    and steps: "map fst groups = take k (map step_Name (job_Steps job))"
    and own: "\<forall>g \<in> set groups. snd g \<noteq> [] \<and> (\<forall>r \<in> set (snd g). sr_StepName r = fst g)"
    unfolding events_post_def by blast
  have step: "event_schema x" if "x \<in> set (published str)" for x
  proof -
    have "untimed x \<in> set (announced str)" using that by (simp add: announced_def)
    then obtain g where g: "g \<in> set groups" "untimed x \<in> set (group_events (StampedSink pn rid) (job_Name job) g)"
      unfolding ann by auto
    have "fst g \<in> set (map step_Name (job_Steps job))"
      using g(1) steps by (metis in_set_takeD image_eqI list.set_map)
    then have "valid_utf8 (fst g)" using names(6) by auto
    then have "event_schema (untimed x)" using schema_group_events [OF names(2,3,4,5) _ _ g(2)] own g(1) by blast
    then show ?thesis by simp
  qed
  have "event_schema (lifecycleEvent EventJobStarted t0 rid pn (job_Name job) [(''stage'', sn)])"
    "event_schema (lifecycleEvent EventJobFinished t1 rid pn (job_Name job) [(''status'', status_String (jobStatus jr))])"
    using schema_lifecycleEvent [OF names(3,4,2,5) status_result(2) names(1)] by blast+
  then show ?thesis using e step by (auto simp: pub)
qed

lemma newRunID_valid: "spec newRunID (\<lambda>tr rid. valid_utf8 rid \<and> rid \<noteq> [] \<and> published tr = [])"
proof -
  have digit: "byte (hex_digit d) < 128" if "d < 16" for d
    using that by (simp add: hex_digit_def byte_def)
  have "list_all (\<lambda>c. byte c < 128) (hex b)" for b
    using digit by (auto simp: hex_def list_all_iff less_mult_imp_div_less)
  moreover have "list_all (\<lambda>c. byte c < 128) (itoa i)" for i
    using nat_digits_are_digits [THEN ascii_digits] by (simp add: itoa_def byte_def)
  ultimately show ?thesis by (auto simp: newRunID_def byte_def intro!: valid_utf8_ascii split: sum.split)
qed

lemma Run_schema:
  assumes "Run DockerRunner_Run True ctx p path tr res" and "distinct (pipeline_job_names p)"
    and names: "\<forall>s \<in> set (pipeline_texts p). valid_utf8 s" and e: "e \<in> set (published (map snd tr))"
  shows "event_schema e"
  using assms(1)
proof (cases rule: Run.cases)
  case (1 tr1 rid start tr2 rs tr3)
  let ?gs = "pipeline_Stages p" and ?mid = "published (map snd tr2)"
  have main: "map snd (by_main xs) = xs" for xs by (simp add: by_main_def comp_def)
  have pn: "valid_utf8 (pipeline_Name p)" using names by (simp add: pipeline_texts_def)
  have "spec (runStart True ctx p) (\<lambda>tr (rid, start). valid_utf8 rid \<and> rid \<noteq> [] \<and> (\<forall>x \<in> set (published tr). event_schema x))"
    using pn by (auto simp: runStart_def emit_def intro!: spec_mono [OF newRunID_valid] schema_lifecycleEvent [OF _ _ _ valid_utf8_Nil status_result(4) valid_utf8_Nil])
  from specD [OF this 1(2)] have rid: "valid_utf8 rid" "rid \<noteq> []" and first: "\<forall>x \<in> set (published tr1). event_schema x" by simp_all
  have "spec (runFinish True ctx p rid start rs) (\<lambda>tr res. \<forall>x \<in> set (published tr). event_schema x)"
    using schema_lifecycleEvent(2) [OF rid pn valid_utf8_Nil status_result(4) valid_utf8_Nil] by (simp add: runFinish_def Let_def emit_def)
  from specD [OF this 1(4)] have last: "\<forall>x \<in> set (published tr3). event_schema x" .
  have "event_schema x" if x: "x \<in> set ?mid" for x
  proof -
    note jobs = stages_job_events [OF 1(3) assms(2) [unfolded pipeline_job_names_def]]
    have len: "length rs \<le> length ?gs" using runStages_shape [OF 1(3)] by blast
    from jobs x have "ev_Job x \<in> set (concat (map (\<lambda>g. map job_Name (stage_Jobs g)) (take (length rs) ?gs)))" by blast
    then obtain g j where "g \<in> set (take (length rs) ?gs)" "j \<in> set (stage_Jobs g)" and name: "ev_Job x = job_Name j" by auto
    then obtain k i where k: "k < length rs" "?gs ! k = g" and i: "i < length (stage_Jobs g)" "stage_Jobs g ! i = j"
      using len by (auto simp: in_set_conv_nth)
    then have "job_of_run ctx (pipeline_Name p) rid path ?mid g j (gr_JobResults (rs ! k) ! i)" using jobs by blast
    then obtain jtr where pub: "of_job (job_Name j) ?mid = published jtr"
      and rep: "replay (runJob DockerRunner_Run True (GroupCtx ctx) (stage_Name g) (pipeline_Name p) rid path j) jtr = Some (gr_JobResults (rs ! k) ! i)"
      unfolding job_of_run_def by blast
    have g: "g \<in> set ?gs" using k len by (metis less_le_trans nth_mem)
    have j: "j \<in> set (stage_Jobs g)" using i nth_mem by blast
    have "valid_utf8 (stage_Name g)" "valid_utf8 (job_Name j)" "\<forall>st \<in> set (job_Steps j). valid_utf8 (step_Name st)"
      using names g j unfolding pipeline_texts_def by auto
    moreover have "x \<in> set (published jtr)" using x name by (simp flip: pub add: of_job_def)
    ultimately show ?thesis using runJob_schema [OF rep _ pn rid] by blast
  qed
  then show ?thesis using e first last by (auto simp: 1(1) main)
qed

section \<open>Over the wire\<close>

text \<open>
  An entry of the stream carries an event when publishing the event succeeded with the one call that
  added the entry's values.
\<close>

definition carries :: "(go_event \<Rightarrow> go_error + string) \<Rightarrow> xmessage \<Rightarrow> go_event \<Rightarrow> bool" where
  "carries encode m e \<longleftrightarrow>
     (\<exists>ctx c lim vals. replay (Publisher_Publish encode ctx e) [ObsE (XAdd c StreamEvents lim vals) None] = Some None \<and>
        msg_Values m = map (\<lambda>(k, v). (k, RString v)) vals)"

lemma carries_envelope:
  assumes "carries encode m e"
  shows "\<exists>body. encode e = Inr body \<and> envelope m = (body, True)"
  using assms by (cases "encode e") (auto simp: carries_def Publisher_Publish_def callE_def replay_Call envelope_def simp del: replay.simps)

lemma carries_exists:
  assumes "time_fits (zone (ev_OccurredAt e)) (ev_OccurredAt e)"
  shows "\<exists>m. carries (Marshal zone) m e"
proof -
  obtain body where "Marshal zone e = Inr body" using assms Marshal_fits by blast
  then have "replay (Publisher_Publish (Marshal zone) ctx e) [ObsE (XAdd ctx StreamEvents (Some (maxStreamLen, True)) [(''envelope'', body)]) None] = Some None" for ctx
    by (simp add: Publisher_Publish_def callE_def)
  then have "carries (Marshal zone) \<lparr>msg_ID = i, msg_Values = map (\<lambda>(k, v). (k, RString v)) [(''envelope'', body)]\<rparr> e" for i
    unfolding carries_def xmessage.simps by blast
  then show ?thesis by blast
qed

section \<open>Through the consumer\<close>

definition decodes :: "decoder \<Rightarrow> xmessage \<Rightarrow> go_event \<Rightarrow> bool" where
  "decodes dec m e \<longleftrightarrow> snd (envelope m) \<and> dec (fst (envelope m)) = Inr e"

definition handler_failed :: "obs \<Rightarrow> bool" where
  "handler_failed ob = (case ob of ObsE (HandleEvent c e) (Some err) \<Rightarrow> True | _ \<Rightarrow> False)"

lemma handle_decoded:
  "decodes dec m e \<Longrightarrow> handle dec opts ctx m = pbind (callE (HandleEvent ctx e)) (\<lambda>err. case err of
      Some e \<Rightarrow> Return () | None \<Rightarrow> pbind (callE (XAck ctx (opt_Stream opts) (opt_Group opts) (msg_ID m))) (\<lambda>ackErr. Return ()))"
  by (cases "envelope m") (simp add: decodes_def handle_def)

lemma handled_recorded:
  assumes "list_all2 (decodes dec) ms es" and "replay (for_each (handle dec opts ctx) ms) tr = Some ()"
    and "store_serves s tr s'" and "\<not> list_ex handler_failed tr"
  shows "s' = record_all (map (Pair no_faults) es) s"
  using assms
proof (induction ms es arbitrary: s tr rule: list_all2_induct)
  case (Cons m ms e es)
  obtain tr1 tr2 where tr: "tr = tr1 @ tr2" and first: "replay (handle dec opts ctx m) tr1 = Some ()"
    and rest: "replay (for_each (handle dec opts ctx) ms) tr2 = Some ()"
    using Cons.prems(1) by (auto simp: replay_pbind simp del: replay.simps)
  from first Cons.hyps(1) Cons.prems(3) obtain r where tr1: "tr1 = [ObsE (HandleEvent ctx e) None, ObsE (XAck ctx (opt_Stream opts) (opt_Group opts) (msg_ID m)) r]"
    by (auto simp: handle_decoded callE_def replay_Call tr handler_failed_def split: option.splits simp del: replay.simps)
  from Cons.prems(2) obtain s1 where "store_serves s tr1 s1" and s1: "store_serves s1 tr2 s'" by (auto simp: tr store_serves_append)
  then obtain f where "Record f s e = (None, s1)" by (auto simp: tr1 elim: store_servesE)
  then have "Record no_faults s e = (None, s1)" by (rule Record_no_faults)
  then show ?case using Cons.IH [OF rest s1] Cons.prems(3) by (simp add: record_all_def tr)
qed (auto simp: record_all_def)

text \<open>There is such a behaviour when the store accepts the events.\<close>

lemma handled_exists:
  assumes "list_all2 (decodes dec) ms es" and "accepted s es"
  shows "\<exists>tr s'. replay (for_each (handle dec opts ctx) ms) tr = Some () \<and> store_serves s tr s' \<and> \<not> list_ex handler_failed tr"
  using assms
proof (induction ms es arbitrary: s rule: list_all2_induct)
  case (Cons m ms e es)
  let ?s = "snd (Record no_faults s e)" and ?tr = "[ObsE (HandleEvent ctx e) None, ObsE (XAck ctx (opt_Stream opts) (opt_Group opts) (msg_ID m)) None]"
  from Cons obtain tr s' where ih: "replay (for_each (handle dec opts ctx) ms) tr = Some ()" "store_serves ?s tr s'" "\<not> list_ex handler_failed tr"
    by (metis accepted.simps(2))
  have "replay (handle dec opts ctx m) ?tr = Some ()" using Cons.hyps(1) by (simp add: handle_decoded callE_def)
  then have "replay (for_each (handle dec opts ctx) (m # ms)) (?tr @ tr) = Some ()" using ih(1) unfolding for_each.simps by (rule replay_pbindI)
  moreover have "Record no_faults s e = (None, ?s)" using Cons.prems by (cases "Record no_faults s e") simp
  then have "store_serves s (?tr @ tr) s'" using ih(2) by (auto intro: serves_event serves_other)
  moreover have "\<not> list_ex handler_failed (?tr @ tr)" using ih(3) by (simp add: handler_failed_def)
  ultimately show ?case by blast
qed (auto intro!: exI [of _ "[]"] serves_nothing)

section \<open>The contract of the envelope\<close>

text \<open>
  The interface between the publisher and the consumers: what one encodes the other decodes, up to a
  normal form.
\<close>

locale event_codec =
  fixes encode :: "go_event \<Rightarrow> go_error + string" and decode :: decoder and norm :: "go_event \<Rightarrow> go_event"
  assumes decode_encode: "encode e = Inr body \<Longrightarrow> decode body = Inr (norm e)"
begin

lemma carried_decodes: "carries encode m e \<Longrightarrow> decodes decode m (norm e)"
  using carries_envelope [of encode m e] decode_encode by (auto simp: decodes_def)

lemma carried_all: "list_all2 (carries encode) ms es \<Longrightarrow> list_all2 (decodes decode) ms (map norm es)"
  by (auto simp: list_all2_map2 carried_decodes elim: list_all2_mono)

lemma carried_recorded:
  "list_all2 (carries encode) ms es \<Longrightarrow> replay (for_each (handle decode opts ctx) ms) tr = Some () \<Longrightarrow>
     store_serves s tr s' \<Longrightarrow> \<not> list_ex handler_failed tr \<Longrightarrow> s' = record_all (map (Pair no_faults) (map norm es)) s"
  by (rule handled_recorded [OF carried_all])

end

text \<open>JSON keeps the contract in every time zone whose offset is in whole minutes.\<close>

interpretation json: event_codec "Marshal (\<lambda>t. 60 * minutes t)" Unmarshal received
proof
  fix e body assume "Marshal (\<lambda>t. 60 * minutes t) e = Inr body"
  moreover then obtain time where "marshal_time (60 * minutes (ev_OccurredAt e)) (ev_OccurredAt e) = Inr time"
    using Marshal_fits [of "\<lambda>t. 60 * minutes t" e] marshal_time_fits by blast
  ultimately show "Unmarshal body = Inr (received e)"
    using Unmarshal_Marshal [of "\<lambda>t. 60 * minutes t" e] by auto
qed

lemma whole_minutes: "\<forall>t :: gotime. 60 dvd (zone t :: int) \<Longrightarrow> zone = (\<lambda>t. 60 * (zone t div 60))"
  by (auto simp: fun_eq_iff)

lemma carried_run:
  assumes "Run DockerRunner_Run True ctx p path tr res" and "distinct (pipeline_job_names p)" and "\<forall>s \<in> set (pipeline_texts p). valid_utf8 s"
    and "store_ok s" and "v_runs (view s) (pr_RunID res) = None" and "\<forall>t. 60 dvd zone t"
    and "list_all2 (carries (Marshal zone)) ms (published (map snd tr))"
  shows "list_all2 (decodes Unmarshal) ms (map received (published (map snd tr)))"
    and "accepted s (map received (published (map snd tr)))"
    and "result_recorded (view (record_all (map (Pair no_faults) (map received (published (map snd tr)))) s)) (pipeline_Name p) res"
    and "other_runs_kept (pr_RunID res) (view s) (view (record_all (map (Pair no_faults) (map received (published (map snd tr)))) s))"
proof -
  have valid: "\<forall>e \<in> set (published (map snd tr)). event_valid e" using schema_valid Run_schema [OF assms(1-3)] by blast
  show "list_all2 (decodes Unmarshal) ms (map received (published (map snd tr)))"
    using json.carried_all assms(7) whole_minutes [OF assms(6)] by metis
  show "accepted s (map received (published (map snd tr)))"
    "result_recorded (view (record_all (map (Pair no_faults) (map received (published (map snd tr)))) s)) (pipeline_Name p) res"
    "other_runs_kept (pr_RunID res) (view s) (view (record_all (map (Pair no_faults) (map received (published (map snd tr)))) s))"
    unfolding accepted_received [OF valid] record_all_received [OF valid] using run_recorded [OF assms(1,2,4,5)] by blast+
qed

section \<open>Properties\<close>

text \<open>
  C3. The whole way: take any run, whatever the daemon answered and however its jobs
  interleaved, whose events were all added to the stream; let the recorder handle these entries in their
  order, with its decoder and the results store, and no handling fail. Then the tables hold exactly the result of
  the run, and the rows of other runs are untouched. The offset of the time zone has to be in whole
  minutes, and the names in the pipeline valid UTF-8, which TOML demands.
\<close>

theorem delivered_run:
  assumes "Run DockerRunner_Run True ctx p path tr res" and "distinct (pipeline_job_names p)" and "\<forall>s \<in> set (pipeline_texts p). valid_utf8 s"
    and "store_ok s" and "v_runs (view s) (pr_RunID res) = None" and "\<forall>t. 60 dvd zone t"
    and "list_all2 (carries (Marshal zone)) ms (published (map snd tr))"
    and "replay (for_each (handle Unmarshal opts ctx') ms) htr = Some ()" and "store_serves s htr s'" and "\<not> list_ex handler_failed htr"
  shows "result_recorded (view s') (pipeline_Name p) res \<and> other_runs_kept (pr_RunID res) (view s) (view s')"
proof -
  note run = carried_run [OF assms(1-7)]
  have "s' = record_all (map (Pair no_faults) (map received (published (map snd tr)))) s"
    using json.carried_recorded assms(7-10) whole_minutes [OF assms(6)] by metis
  then show ?thesis using run(3,4) by blast
qed

text \<open>A run of one job with the bus, written out.\<close>

definition wire_event :: "string \<Rightarrow> gotime \<Rightarrow> string \<Rightarrow> string gomap \<Rightarrow> go_event" where
  "wire_event ty t job payload = lifecycleEvent ty t ''run-5-61626364'' ''ci'' job payload"

definition wire_job_trace :: "obs list" where
  "wire_job_trace = (let c = GroupCtx RequestCtx; own = (\<lambda>e. e\<lparr>ev_Pipeline := ''ci'', ev_RunID := ''run-5-61626364''\<rparr>) in
     [ObsT 0, ObsE (Publish c (wire_event EventJobStarted 0 ''fmt'' [(''stage'', ''check'')])) None,
      ObsE (ImagePull c ''img'') None, ObsE (ReadPullBody ''img'') None, ObsE (ClosePullBody ''img'') None,
      ObsS (ContainerCreate c \<lparr>co_Image = ''img'', co_Env = [''ODYSSEY_ENV_FILE=/tmp/.odyssey_env''],
        co_Labels = [(''odyssey.job'', ''fmt'')], co_WorkingDir = ''/app'', co_Cmd = [''sh'', ''-c'', ''tail -f /dev/null'']\<rparr>) (Inr ''c1''),
      ObsS (CreateArchive ''/p'') (Inr ''tar''), ObsE (CopyToContainer c ''c1'' ''/app'' ''tar'') None, ObsE (ContainerStart c ''c1'') None] @
     exec_obs c '': > /tmp/.odyssey_env'' [] ''e'' [] 0 @
     [ObsT 0, ObsT 0, ObsE (Publish c (own (stepStartedEvent ''fmt'' ''s'' 0))) None] @
     exec_obs c ''cat /tmp/.odyssey_env'' [] ''e'' [] 0 @ exec_obs c ''make'' [] ''e'' ''out'' 0 @
     [ObsT 7, ObsT 8, ObsE (Publish c (own (stepFinishedEvent ''fmt'' (demo_step_result ''s'' 0) 8))) None] @
     exec_obs c ''cat /tmp/.odyssey_env'' [] ''e'' [] 0 @
     [ObsE (ContainerRemove (TimeoutCtx (WithoutCancel c) 30000000000) ''c1'' True True) None, ObsT 9,
      ObsE (Publish (WithoutCancel c) (wire_event EventJobFinished 9 ''fmt'' [(''status'', ''passed'')])) None])"

definition wire_pipeline :: go_pipeline where
  "wire_pipeline = \<lparr>pipeline_Name = ''ci'', pipeline_Stages = [\<lparr>stage_Name = ''check'', stage_Jobs = [one_step_job ''fmt'']\<rparr>]\<rparr>"

definition wire_result :: pipeline_result where
  "wire_result = small_result [small_stage_result ''check'' ''fmt'' 0]"

definition wire_trace :: "lobs list" where
  "wire_trace = by_main [ObsS (RandRead 4) (Inr ''abcd''), ObsT 5, ObsT 6,
       ObsE (Publish RequestCtx (wire_event EventPipelineStarted 6 [] [])) None, ObsT 6] @
     (by_main [ObsT 0] @ by_jobs (map (Pair 0) wire_job_trace) @ by_main [ObsT 10]) @
     by_main [ObsT 20, ObsT 21, ObsE (Publish (WithoutCancel RequestCtx) (wire_event EventPipelineFinished 21 [] [(''status'', ''passed'')])) None]"

lemma wire_run: "Run DockerRunner_Run True RequestCtx wire_pipeline ''/p'' wire_trace wire_result"
proof -
  let ?rid = "''run-5-61626364''"
  have job: "replay (runJob DockerRunner_Run True (GroupCtx RequestCtx) ''check'' ''ci'' ?rid ''/p'' (one_step_job ''fmt'')) wire_job_trace =
      Some (small_job_result ''fmt'' 0)" by code_simp
  have "own 0 (map (Pair 0) tr) = tr" for tr by (simp add: own_def comp_def)
  then have "par_run [runJob DockerRunner_Run True (GroupCtx RequestCtx) ''check'' ''ci'' ?rid ''/p'' (one_step_job ''fmt'')]
      (map (Pair 0) wire_job_trace) [small_job_result ''fmt'' 0]"
    using job by (intro own_run_par) auto
  then have "runStage DockerRunner_Run True RequestCtx \<lparr>stage_Name = ''check'', stage_Jobs = [one_step_job ''fmt'']\<rparr> ''ci'' ?rid ''/p''
      (by_main [ObsT 0] @ by_jobs (map (Pair 0) wire_job_trace) @ by_main [ObsT 10]) (small_stage_result ''check'' ''fmt'' 0)"
    using runStage.intros [of DockerRunner_Run True RequestCtx "\<lparr>stage_Name = ''check'', stage_Jobs = [one_step_job ''fmt'']\<rparr>"
      "''ci''" ?rid "''/p''" _ _ 0 10] by (simp add: stageJobs_def small_stage_result_def)
  from stages_next [OF this _ stages_done] have b: "runStages DockerRunner_Run True RequestCtx ''ci'' ?rid ''/p'' (pipeline_Stages wire_pipeline)
      (by_main [ObsT 0] @ by_jobs (map (Pair 0) wire_job_trace) @ by_main [ObsT 10]) [small_stage_result ''check'' ''fmt'' 0]"
    by (simp add: fails_run_def small_status wire_pipeline_def)
  have a: "replay (runStart True RequestCtx wire_pipeline) [ObsS (RandRead 4) (Inr ''abcd''), ObsT 5, ObsT 6,
       ObsE (Publish RequestCtx (wire_event EventPipelineStarted 6 [] [])) None, ObsT 6] = Some (?rid, 6)" by code_simp
  have c: "replay (runFinish True RequestCtx wire_pipeline ?rid 6 [small_stage_result ''check'' ''fmt'' 0])
      [ObsT 20, ObsT 21, ObsE (Publish (WithoutCancel RequestCtx) (wire_event EventPipelineFinished 21 [] [(''status'', ''passed'')])) None] =
      Some wire_result" by code_simp
  have "pipeline_Name wire_pipeline = ''ci''" by (simp add: wire_pipeline_def)
  then show ?thesis unfolding wire_trace_def by (intro Run.intros [OF a _ c]) (simp add: b)
qed

lemma wire_carried: "\<exists>ms. list_all2 (carries (Marshal (\<lambda>t. 3600))) ms (published (map snd wire_trace))"
proof -
  have fits: "time_fits 3600 t" if "0 \<le> t" "t < 1000" for t
  proof -
    have "t div 1000000000 = 0" using that by simp
    moreover have "time_fits 3600 0" by code_simp
    ultimately show ?thesis by (simp add: time_fits_def year_of_def)
  qed
  have "list_all (\<lambda>e. 0 \<le> ev_OccurredAt e \<and> ev_OccurredAt e < 1000) (published (map snd wire_trace))" by code_simp
  then have "\<forall>e \<in> set (published (map snd wire_trace)). \<exists>m. carries (Marshal (\<lambda>t. 3600)) m e"
    using carries_exists fits by (simp add: list_all_iff)
  then obtain f where "\<forall>e \<in> set (published (map snd wire_trace)). carries (Marshal (\<lambda>t. 3600)) (f e) e" by metis
  then have "list_all2 (carries (Marshal (\<lambda>t. 3600))) (map f (published (map snd wire_trace))) (published (map snd wire_trace))"
    by (simp add: list_all2_map1 list.rel_refl_strong)
  then show ?thesis by blast
qed

theorem delivered_run_witness:
  "\<exists>ms htr s'. replay (for_each (handle Unmarshal demo_opts Background) ms) htr = Some () \<and> store_serves empty_db htr s' \<and>
     result_recorded (view s') ''ci'' wire_result"
proof -
  have dist: "distinct (pipeline_job_names wire_pipeline)" by code_simp
  have names: "\<forall>s \<in> set (pipeline_texts wire_pipeline). valid_utf8 s" by code_simp
  have new: "v_runs (view empty_db) (pr_RunID wire_result) = None" by (simp add: find_run_def empty_db_def)
  obtain ms where ms: "list_all2 (carries (Marshal (\<lambda>t. 3600))) ms (published (map snd wire_trace))" using wire_carried by blast
  have zone: "\<forall>t :: gotime. 60 dvd (3600 :: int)" by simp
  note run = wire_run dist names store_ok_empty new zone ms
  obtain htr s' where h: "replay (for_each (handle Unmarshal demo_opts Background) ms) htr = Some ()" "store_serves empty_db htr s'" "\<not> list_ex handler_failed htr"
    using handled_exists [OF carried_run(1,2) [OF run]] by blast
  show ?thesis using delivered_run [OF run h] h by (auto simp: wire_pipeline_def)
qed

text \<open>
  C20. Every event that a run publishes conforms to the schema of its type, however the daemon
  answers and the jobs interleave: it is one of the six types, carries a run ID, has the job and
  step names its type calls for, exactly the payload entries of its type, a status that results
  can have, and numbers that the store can parse; and all its texts are valid UTF-8 when the names in the
  pipeline are.
\<close>

theorem events_typed:
  assumes "Run DockerRunner_Run True ctx p path tr res" and "distinct (pipeline_job_names p)"
    and "\<forall>s \<in> set (pipeline_texts p). valid_utf8 s" and "e \<in> set (published (map snd tr))"
  shows "event_schema e"
  using Run_schema [OF assms] .

theorem events_typed_witness:
  "event_schema (wire_event EventPipelineFinished 21 [] [(''status'', ''passed'')])"
proof (rule events_typed [OF wire_run])
  show "distinct (pipeline_job_names wire_pipeline)" by code_simp
  show "\<forall>s \<in> set (pipeline_texts wire_pipeline). valid_utf8 s" by code_simp
  show "wire_event EventPipelineFinished 21 [] [(''status'', ''passed'')] \<in> set (published (map snd wire_trace))"
    by (simp add: wire_trace_def by_main_def)
qed

end
