(* ===== verification/Redelivery.thy ===== *)
theory Redelivery
  imports Delivery StoreProperties
begin

text \<open>
  The results database under at-least-once delivery: handlers fail and are tried again, entries are
  delivered twice, and the replicas of the server, which share one consumer group, record the events of a run in an
  order of their own. What the tables say of a run then depends only on which events were recorded,
  provided that no finish overtakes the start of its row.
\<close>

section \<open>Rows that are started and finished\<close>

text \<open>The first event that matters to a row starts it.\<close>

definition in_order :: "('e \<Rightarrow> bool) \<Rightarrow> ('e \<Rightarrow> bool) \<Rightarrow> 'e list \<Rightarrow> bool" where
  "in_order starts fins es = (case find (\<lambda>e. starts e \<or> fins e) es of None \<Rightarrow> True | Some e \<Rightarrow> starts e)"

definition row_step :: "('e \<Rightarrow> bool) \<Rightarrow> ('e \<Rightarrow> bool) \<Rightarrow> ('e \<Rightarrow> 'r) \<Rightarrow> ('e \<Rightarrow> 'r \<Rightarrow> 'r) \<Rightarrow> 'e \<Rightarrow> 'r option \<Rightarrow> 'r option" where
  "row_step starts fins new fin e r =
     (if starts e then (if r = None then Some (new e) else r) else if fins e then map_option (fin e) r else r)"

text \<open>What a row comes to, by the events alone.\<close>

definition row_value :: "('e \<Rightarrow> bool) \<Rightarrow> ('e \<Rightarrow> bool) \<Rightarrow> ('e \<Rightarrow> 'r) \<Rightarrow> ('e \<Rightarrow> 'r \<Rightarrow> 'r) \<Rightarrow> 'e list \<Rightarrow> 'r option" where
  "row_value starts fins new fin es =
     map_option (\<lambda>s. case find fins es of None \<Rightarrow> new s | Some f \<Rightarrow> fin f (new s)) (find starts es)"

definition one_of :: "('e \<Rightarrow> bool) \<Rightarrow> 'e list \<Rightarrow> bool" where
  "one_of P es = (\<forall>e \<in> set es. \<forall>e' \<in> set es. P e \<longrightarrow> P e' \<longrightarrow> e = e')"

lemma find_SomeD: "find P es = Some e \<Longrightarrow> e \<in> set es \<and> P e"
  by (auto simp: find_Some_iff)

lemma find_one_of:
  assumes "one_of P es"
  shows "find P es = Some e \<longleftrightarrow> e \<in> set es \<and> P e"
proof
  assume "find P es = Some e"
  then show "e \<in> set es \<and> P e" by (auto simp: find_Some_iff)
next
  assume e: "e \<in> set es \<and> P e"
  then obtain e' where "find P es = Some e'" by (cases "find P es") (auto simp: find_None_iff)
  moreover then have "e' \<in> set es \<and> P e'" by (auto simp: find_Some_iff)
  ultimately show "find P es = Some e" using assms e by (auto simp: one_of_def)
qed

lemma find_set_cong:
  assumes "one_of P es" and "set es = set es'"
  shows "find P es = find P es'"
proof -
  have "one_of P es'" using assms by (simp add: one_of_def)
  then have "find P es = Some e \<longleftrightarrow> find P es' = Some e" for e
    using find_one_of [OF assms(1)] find_one_of [OF \<open>one_of P es'\<close>] assms(2) by simp
  then show ?thesis by (cases "find P es'") (metis option.exhaust)+
qed

locale row_log =
  fixes starts fins :: "'e \<Rightarrow> bool" and new :: "'e \<Rightarrow> 'r" and fin :: "'e \<Rightarrow> 'r \<Rightarrow> 'r"
  assumes apart: "starts e \<Longrightarrow> \<not> fins e" and fin_again: "fin e (fin e r) = fin e r"
begin

text \<open>Starts that come again and finishes that come again change nothing.\<close>

lemma fold_value:
  assumes "in_order starts fins es" and "one_of starts es" and "one_of fins es"
  shows "fold (row_step starts fins new fin) es None = row_value starts fins new fin es"
  using assms
proof (induction es rule: rev_induct)
  case Nil
  then show ?case by (simp add: row_value_def)
next
  case (snoc e es)
  note app = find_append
  have one: "one_of starts es" "one_of fins es" using snoc.prems(2,3) by (simp_all add: one_of_def)
  have ord: "in_order starts fins es" using snoc.prems(1) by (auto simp: in_order_def app split: option.splits)
  have ih: "fold (row_step starts fins new fin) es None = row_value starts fins new fin es" using snoc.IH [OF ord one] .
  have late: "find starts es = None \<Longrightarrow> find fins es = None"
    using ord by (auto simp: in_order_def find_None_iff find_Some_iff split: option.splits)
  have last: "fold (row_step starts fins new fin) (es @ [e]) None =
      row_step starts fins new fin e (row_value starts fins new fin es)" by (simp add: ih)
  note defs = row_value_def row_step_def app
  consider "starts e" | "fins e" "\<not> starts e" | "\<not> starts e" "\<not> fins e" by blast
  then show ?case
  proof cases
    case 1
    then show ?thesis unfolding last using apart late by (cases "find starts es") (auto simp: defs split: option.split)
  next
    case 2
    obtain s where s: "find starts es = Some s"
      using snoc.prems(1) 2 late by (cases "find starts es") (auto simp: in_order_def app find_None_iff split: option.splits dest: find_SomeD)
    have "find fins es = Some f \<Longrightarrow> f = e" for f
      using snoc.prems(3) 2(1) by (auto simp: one_of_def find_Some_iff)
    then show ?thesis unfolding last using 2 s fin_again by (cases "find fins es") (auto simp: defs)
  next
    case 3
    then show ?thesis unfolding last by (simp add: defs split: option.split)
  qed
qed

text \<open>So the value of a row depends on the set of its events only.\<close>

lemma fold_converges:
  assumes "in_order starts fins es" "in_order starts fins es'" and "set es = set es'" and "one_of starts es" "one_of fins es"
  shows "fold (row_step starts fins new fin) es None = fold (row_step starts fins new fin) es' None"
proof -
  have one: "one_of starts es'" "one_of fins es'" using assms(3-5) by (simp_all add: one_of_def)
  show ?thesis
    using find_set_cong [OF assms(4,3)] find_set_cong [OF assms(5,3)]
    by (simp add: fold_value [OF assms(1,4,5)] fold_value [OF assms(2) one] row_value_def)
qed

end

section \<open>The rows of the results\<close>

definition of_type :: "string \<Rightarrow> go_event \<Rightarrow> bool" where
  "of_type ty e \<longleftrightarrow> ev_Type e = ty"

definition new_run :: "go_event \<Rightarrow> run_info" where
  "new_run e = \<lparr>ri_pipeline = ev_Pipeline e, ri_status = ''pending'', ri_started = stamp (ev_OccurredAt e), ri_finished = None\<rparr>"

definition end_run :: "go_event \<Rightarrow> run_info \<Rightarrow> run_info" where
  "end_run e r = r\<lparr>ri_status := gm_get [] (ev_Payload e) ''status'', ri_finished := Some (stamp (ev_OccurredAt e))\<rparr>"

definition new_job :: "go_event \<Rightarrow> job_info" where
  "new_job e = \<lparr>ji_stage = gm_get [] (ev_Payload e) ''stage'', ji_status = ''pending'', ji_started = stamp (ev_OccurredAt e), ji_finished = None\<rparr>"

definition end_job :: "go_event \<Rightarrow> job_info \<Rightarrow> job_info" where
  "end_job e j = j\<lparr>ji_status := gm_get [] (ev_Payload e) ''status'', ji_finished := Some (stamp (ev_OccurredAt e))\<rparr>"

definition new_step :: "go_event \<Rightarrow> step_info" where
  "new_step e = \<lparr>si_status = ''pending'', si_exit_code = None, si_duration_ms = None\<rparr>"

definition end_step :: "go_event \<Rightarrow> step_info \<Rightarrow> step_info" where
  "end_step e x = x\<lparr>si_status := gm_get [] (ev_Payload e) ''status'', si_exit_code := payload_value e ''exit_code'' ''Atoi'',
     si_duration_ms := payload_value e ''duration_ms'' ''ParseInt''\<rparr>"

lemmas row_defs = new_run_def end_run_def new_job_def end_job_def new_step_def end_step_def

interpretation run_log: row_log "of_type EventPipelineStarted" "of_type EventPipelineFinished" new_run end_run
  by unfold_locales (simp_all add: of_type_def end_run_def event_type_neqs)

interpretation job_log: row_log "of_type EventJobStarted" "of_type EventJobFinished" new_job end_job
  by unfold_locales (simp_all add: of_type_def end_job_def event_type_neqs)

interpretation step_log: row_log "of_type EventStepStarted" "of_type EventStepFinished" new_step end_step
  by unfold_locales (simp_all add: of_type_def end_step_def event_type_neqs)

lemma op_step:
  "run_op = row_step (of_type EventPipelineStarted) (of_type EventPipelineFinished) new_run end_run"
  "job_op = row_step (of_type EventJobStarted) (of_type EventJobFinished) new_job end_job"
  "step_op = row_step (of_type EventStepStarted) (of_type EventStepFinished) new_step end_step"
  by (intro ext; simp add: run_op_def job_op_def step_op_def row_step_def of_type_def row_defs [abs_def])+

text \<open>
  No finish is recorded before the start of its row, and no two different starts, or two different
  finishes, are about one row.
\<close>

definition no_overtaking :: "go_event list \<Rightarrow> bool" where
  "no_overtaking es = list_all (\<lambda>e.
     in_order (of_type EventPipelineStarted) (of_type EventPipelineFinished) (filter (\<lambda>x. ev_RunID x = ev_RunID e) es) \<and>
     in_order (of_type EventJobStarted) (of_type EventJobFinished) (filter (\<lambda>x. ev_RunID x = ev_RunID e \<and> ev_Job x = ev_Job e) es) \<and>
     in_order (of_type EventStepStarted) (of_type EventStepFinished)
       (filter (\<lambda>x. ev_RunID x = ev_RunID e \<and> ev_Job x = ev_Job e \<and> ev_Step x = ev_Step e) es)) es"

definition same_place :: "go_event \<Rightarrow> go_event \<Rightarrow> bool" where
  "same_place e e' \<longleftrightarrow> ev_Type e = ev_Type e' \<and> ev_RunID e = ev_RunID e' \<and>
     (ev_Type e \<in> {EventPipelineStarted, EventPipelineFinished} \<or> ev_Job e = ev_Job e' \<and>
       (ev_Type e \<in> {EventJobStarted, EventJobFinished} \<or> ev_Step e = ev_Step e'))"

definition unambiguous :: "go_event list \<Rightarrow> bool" where
  "unambiguous es = (\<forall>e \<in> set es. \<forall>e' \<in> set es. same_place e e' \<longrightarrow> e = e')"

lemma no_overtaking_rows:
  assumes "no_overtaking es"
  shows "in_order (of_type EventPipelineStarted) (of_type EventPipelineFinished) (filter (\<lambda>e. ev_RunID e = x) es)"
    "in_order (of_type EventJobStarted) (of_type EventJobFinished) (filter (\<lambda>e. ev_RunID e = x \<and> ev_Job e = n) es)"
    "in_order (of_type EventStepStarted) (of_type EventStepFinished) (filter (\<lambda>e. ev_RunID e = x \<and> ev_Job e = n \<and> ev_Step e = t) es)"
proof -
  have empty: "in_order S F []" for S F :: "go_event \<Rightarrow> bool" by (simp add: in_order_def)
  have rows: "in_order (of_type EventPipelineStarted) (of_type EventPipelineFinished) (filter (\<lambda>y. ev_RunID y = ev_RunID e) es)"
    "in_order (of_type EventJobStarted) (of_type EventJobFinished) (filter (\<lambda>y. ev_RunID y = ev_RunID e \<and> ev_Job y = ev_Job e) es)"
    "in_order (of_type EventStepStarted) (of_type EventStepFinished)
       (filter (\<lambda>y. ev_RunID y = ev_RunID e \<and> ev_Job y = ev_Job e \<and> ev_Step y = ev_Step e) es)" if "e \<in> set es" for e
    using assms that by (auto simp: no_overtaking_def list_all_iff)
  show "in_order (of_type EventPipelineStarted) (of_type EventPipelineFinished) (filter (\<lambda>e. ev_RunID e = x) es)"
    using rows(1) empty by (cases "\<exists>e \<in> set es. ev_RunID e = x") (auto simp: filter_False)
  show "in_order (of_type EventJobStarted) (of_type EventJobFinished) (filter (\<lambda>e. ev_RunID e = x \<and> ev_Job e = n) es)"
    using rows(2) empty by (cases "\<exists>e \<in> set es. ev_RunID e = x \<and> ev_Job e = n") (auto simp: filter_False)
  show "in_order (of_type EventStepStarted) (of_type EventStepFinished) (filter (\<lambda>e. ev_RunID e = x \<and> ev_Job e = n \<and> ev_Step e = t) es)"
    using rows(3) empty by (cases "\<exists>e \<in> set es. ev_RunID e = x \<and> ev_Job e = n \<and> ev_Step e = t") (auto simp: filter_False)
qed

lemma unambiguous_rows:
  assumes "unambiguous (filter (\<lambda>e. ev_RunID e = x) es)"
  shows "one_of (of_type EventPipelineStarted) (filter (\<lambda>e. ev_RunID e = x) es)" "one_of (of_type EventPipelineFinished) (filter (\<lambda>e. ev_RunID e = x) es)"
    "one_of (of_type EventJobStarted) (filter (\<lambda>e. ev_RunID e = x \<and> ev_Job e = n) es)"
    "one_of (of_type EventJobFinished) (filter (\<lambda>e. ev_RunID e = x \<and> ev_Job e = n) es)"
    "one_of (of_type EventStepStarted) (filter (\<lambda>e. ev_RunID e = x \<and> ev_Job e = n \<and> ev_Step e = t) es)"
    "one_of (of_type EventStepFinished) (filter (\<lambda>e. ev_RunID e = x \<and> ev_Job e = n \<and> ev_Step e = t) es)"
  using assms by (auto simp: one_of_def unambiguous_def same_place_def of_type_def)

text \<open>
  Two histories of the events of a run, each in an order of its own and with repetitions of its own, leave the
  same rows of that run.
\<close>

lemma rows_converge:
  assumes "arecord_all v es = Some w" and "arecord_all v es' = Some w'"
    and "no_overtaking es" and "no_overtaking es'" and "unambiguous (filter (\<lambda>e. ev_RunID e = x) es)"
    and "set (filter (\<lambda>e. ev_RunID e = x) es) = set (filter (\<lambda>e. ev_RunID e = x) es')"
    and new: "v_runs v x = None" "\<And>n. v_jobs v (x, n) = None" "\<And>n t. v_steps v (x, n, t) = None"
  shows "v_runs w x = v_runs w' x" "v_jobs w (x, n) = v_jobs w' (x, n)" "v_steps w (x, n, t) = v_steps w' (x, n, t)"
proof -
  have same: "set (filter (\<lambda>e. ev_RunID e = x \<and> Q e) es) = set (filter (\<lambda>e. ev_RunID e = x \<and> Q e) es')" for Q
    using assms(6) by auto
  note one = unambiguous_rows [OF assms(5)] and rows = arecord_all_rows [OF assms(1)] arecord_all_rows [OF assms(2)]
  show "v_runs w x = v_runs w' x"
    unfolding rows new op_step by (rule run_log.fold_converges [OF no_overtaking_rows(1) [OF assms(3)] no_overtaking_rows(1) [OF assms(4)] assms(6) one(1,2)])
  show "v_jobs w (x, n) = v_jobs w' (x, n)"
    unfolding rows new op_step by (rule job_log.fold_converges [OF no_overtaking_rows(2) [OF assms(3)] no_overtaking_rows(2) [OF assms(4)] same one(3,4)])
  show "v_steps w (x, n, t) = v_steps w' (x, n, t)"
    unfolding rows new op_step by (rule step_log.fold_converges [OF no_overtaking_rows(3) [OF assms(3)] no_overtaking_rows(3) [OF assms(4)] same one(5,6)])
qed

section \<open>The history of a run is in order\<close>

lemma in_order_Cons [simp]: "in_order S F (e # es) = (S e \<or> \<not> F e \<and> in_order S F es)"
  by (auto simp: in_order_def)

lemma in_order_Nil [simp]: "in_order S F []"
  by (simp add: in_order_def)

lemma in_order_snoc: "in_order S F es \<Longrightarrow> \<not> F e \<Longrightarrow> in_order S F (es @ [e])"
  by (induction es) auto

lemma in_order_map: "(\<forall>e \<in> set es. S (f e) = S e \<and> F (f e) = F e) \<Longrightarrow> in_order S F (map f es) = in_order S F es"
  by (induction es) auto

text \<open>The events of a step start with its start.\<close>

lemma groups_in_order:
  assumes "\<forall>g \<in> set groups. \<forall>r \<in> set (snd g). sr_StepName r = fst g"
  shows "in_order (of_type EventStepStarted) (of_type EventStepFinished)
    (filter (\<lambda>e. ev_Step e = t) (concat (map (group_events (StampedSink pn rid) n) groups)))"
  using assms
proof (induction groups)
  case (Cons g groups)
  show ?case
  proof (cases "fst g = t")
    case True
    then show ?thesis by (simp add: group_events_def stepStartedEvent_def of_type_def)
  next
    case False
    then have "filter (\<lambda>e. ev_Step e = t) (group_events (StampedSink pn rid) n g) = []"
      using Cons.prems by (auto simp: group_events_def filter_empty_conv stepStartedEvent_def stepFinishedEvent_def)
    then show ?thesis using Cons by simp
  qed
qed simp

lemma job_in_order:
  assumes "job_history rid pn sn n jr es"
  shows "in_order (of_type EventJobStarted) (of_type EventJobFinished) es"
    and "in_order (of_type EventStepStarted) (of_type EventStepFinished) (filter (\<lambda>e. ev_Step e = t) es)"
proof -
  from assms obtain t0 t1 ss groups where es: "es = lifecycleEvent EventJobStarted t0 rid pn n [(''stage'', sn)] # ss @
        [lifecycleEvent EventJobFinished t1 rid pn n [(''status'', status_String (jobStatus jr))]]"
    and ss: "map untimed ss = concat (map (group_events (StampedSink pn rid) n) groups)"
    and own: "\<forall>g \<in> set groups. snd g \<noteq> [] \<and> (\<forall>r \<in> set (snd g). sr_StepName r = fst g)"
    unfolding job_history_def by blast
  show "in_order (of_type EventJobStarted) (of_type EventJobFinished) es" by (simp add: es of_type_def lifecycleEvent_def)
  have "in_order (of_type EventStepStarted) (of_type EventStepFinished) (filter (\<lambda>e. ev_Step e = t) (map untimed ss))"
    unfolding ss by (rule groups_in_order) (use own in blast)
  moreover have "filter (\<lambda>e. ev_Step e = t) (map untimed ss) = map untimed (filter (\<lambda>e. ev_Step e = t) ss)"
    by (simp add: filter_map comp_def untimed_def)
  ultimately have "in_order (of_type EventStepStarted) (of_type EventStepFinished) (map untimed (filter (\<lambda>e. ev_Step e = t) ss))" by (simp only:)
  then have "in_order (of_type EventStepStarted) (of_type EventStepFinished) (filter (\<lambda>e. ev_Step e = t) ss)"
    by (subst (asm) in_order_map) (simp_all add: of_type_def untimed_def)
  then show "in_order (of_type EventStepStarted) (of_type EventStepFinished) (filter (\<lambda>e. ev_Step e = t) es)"
    by (auto simp: es of_type_def lifecycleEvent_def event_type_neqs intro!: in_order_snoc)
qed

lemma history_in_order:
  assumes "run_history rid pn res es"
  shows "no_overtaking es"
proof -
  from assms obtain t0 t1 mid where es: "es = lifecycleEvent EventPipelineStarted t0 rid pn [] [] # mid @
        [lifecycleEvent EventPipelineFinished t1 rid pn [] [(''status'', status_String (pipelineStatus res))]]"
    and mid: "mid_history rid pn res mid"
    unfolding run_history_def mid_history_def by blast
  have ids: "\<forall>e \<in> set es. ev_RunID e = rid" using mid by (auto simp: es lifecycleEvent_def mid_history_def)
  have job: "in_order (of_type EventJobStarted) (of_type EventJobFinished) (of_job n mid) \<and>
      in_order (of_type EventStepStarted) (of_type EventStepFinished) (filter (\<lambda>e. ev_Step e = t) (of_job n mid))" for n t
  proof (cases "\<exists>g \<in> set (pr_StageResults res). \<exists>j \<in> set (gr_JobResults g). jr_JobName j = n")
    case True
    then obtain g j where "g \<in> set (pr_StageResults res)" "j \<in> set (gr_JobResults g)" "n = jr_JobName j" by blast
    then have "job_history rid pn (gr_StageName g) n j (of_job n mid)" using mid unfolding mid_history_def by blast
    then show ?thesis using job_in_order by blast
  next
    case False
    then show ?thesis using mid_none [OF mid] by simp
  qed
  have run: "in_order (of_type EventPipelineStarted) (of_type EventPipelineFinished) (filter (\<lambda>x. ev_RunID x = rid) es)"
    by (simp add: es of_type_def lifecycleEvent_def)
  have jobs: "filter (\<lambda>x. ev_RunID x = rid \<and> ev_Job x = n) es = of_job n es" for n
    unfolding of_job_def using ids by (intro filter_cong) auto
  have steps: "filter (\<lambda>x. ev_RunID x = rid \<and> ev_Job x = n \<and> ev_Step x = t) es = filter (\<lambda>x. ev_Step x = t) (of_job n es)" for n t
    unfolding of_job_def filter_filter using ids by (intro filter_cong) auto
  have "in_order (of_type EventJobStarted) (of_type EventJobFinished) (of_job n es)" for n
    using job [of n "[]"] by (auto simp: es of_type_def lifecycleEvent_def event_type_neqs intro!: in_order_snoc)
  moreover have "in_order (of_type EventStepStarted) (of_type EventStepFinished) (filter (\<lambda>x. ev_Step x = t) (of_job n es))" for n t
    using job [of n t] by (auto simp: es of_type_def lifecycleEvent_def event_type_neqs intro!: in_order_snoc)
  ultimately show ?thesis using run jobs steps ids by (simp add: no_overtaking_def list_all_iff)
qed

section \<open>Received events\<close>

lemma received_fields:
  assumes "event_valid e"
  shows "ev_Type (received e) = ev_Type e" "ev_RunID (received e) = ev_RunID e" "ev_Job (received e) = ev_Job e" "ev_Step (received e) = ev_Step e"
  using assms by (simp_all add: received_valid)

lemma arecord_received:
  assumes "event_valid e"
  shows "arecord v (received e) = arecord v e"
proof -
  have "payloadNumber (received e) = payloadNumber e"
    using assms by (intro ext) (simp add: received_valid payloadNumber_def cong: option.case_cong sum.case_cong)
  then have "payload_ok (received e) = payload_ok e" "payload_value (received e) = payload_value e"
    by (simp_all add: payload_ok_def payload_value_def [abs_def])
  moreover have "gm_get [] (ev_Payload (received e)) = gm_get [] (ev_Payload e)" "ev_Pipeline (received e) = ev_Pipeline e"
    "ev_OccurredAt (received e) = ev_OccurredAt e"
    using assms by (auto simp: received_valid)
  ultimately show ?thesis using received_fields [OF assms] by (simp only: arecord_def)
qed

lemma arecord_all_received: "\<forall>e \<in> set es. event_valid e \<Longrightarrow> arecord_all v (map received es) = arecord_all v es"
  by (induction es arbitrary: v) (simp_all add: arecord_received)

lemma no_overtaking_received:
  assumes "\<forall>e \<in> set es. event_valid e" and "no_overtaking es"
  shows "no_overtaking (map received es)"
proof -
  have rows: "filter P (map received es) = map received (filter P es)" if "\<And>e. e \<in> set es \<Longrightarrow> P (received e) = P e" for P
    using that by (auto simp: filter_map comp_def intro!: arg_cong [where f = "map received"] filter_cong)
  have ord: "in_order (of_type ty) (of_type ty') (map received (filter P es)) = in_order (of_type ty) (of_type ty') (filter P es)" for P ty ty'
    using assms(1) by (intro in_order_map) (auto simp: of_type_def received_fields)
  show ?thesis
    using assms received_fields by (simp add: no_overtaking_def list_all_iff rows ord)
qed

section \<open>What the store has recorded\<close>

text \<open>The events that the store accepted, in a trace of any number of consumers.\<close>

fun recorded_event :: "obs \<Rightarrow> go_event list" where
  "recorded_event (ObsE (HandleEvent c e) None) = [e]"
| "recorded_event _ = []"

definition recorded :: "obs list \<Rightarrow> go_event list" where
  "recorded tr = concat (map recorded_event tr)"

lemma recorded_other: "\<forall>c e r. ob \<noteq> ObsE (HandleEvent c e) r \<Longrightarrow> recorded_event ob = []"
  by (cases ob rule: recorded_event.cases) auto

lemma serves_recorded:
  "store_serves s tr s' \<Longrightarrow> store_ok s \<Longrightarrow> arecord_all (view s) (recorded tr) = Some (view s')"
proof (induction rule: store_serves.induct)
  case (serves_event f s e r s1 tr s' c)
  show ?case
  proof (cases r)
    case None
    then have "arecord (view s) e = Some (view s1)" using Record_view(2) serves_event.hyps(1) serves_event.prems by blast
    then show ?thesis using serves_event.IH Record_ok [OF serves_event.prems, of f e] serves_event.hyps(1) None by (simp add: recorded_def)
  next
    case (Some err)
    then have "s1 = s" using Record_error serves_event.hyps(1) by blast
    then show ?thesis using serves_event.IH serves_event.prems Some by (simp add: recorded_def)
  qed
qed (simp_all add: recorded_def recorded_other)

section \<open>Properties\<close>


text \<open>Every event of the run of one job recorded, and then the first of them once more.\<close>

definition again_events :: "go_event list" where
  "again_events = published (map snd wire_trace) @ [wire_event EventPipelineStarted 6 [] []]"

lemma again_accepted: "accepted empty_db again_events"
proof -
  have dist: "distinct (pipeline_job_names wire_pipeline)" by code_simp
  have new: "v_runs (view empty_db) x = None" "v_jobs (view empty_db) (x, n) = None" "v_steps (view empty_db) (x, n, t) = None" for x n t
    by (simp_all add: find_run_def empty_db_def job_at_def step_at_def)
  have hist: "run_history (pr_RunID wire_result) (pipeline_Name wire_pipeline) wire_result (published (map snd wire_trace))"
    "pr_RunID wire_result \<noteq> []"
    using Run_history [OF wire_run dist] by blast+
  obtain w where w: "arecord_all (view empty_db) (published (map snd wire_trace)) = Some w"
    and res: "result_recorded w (pipeline_Name wire_pipeline) wire_result"
    using history_recorded [OF hist(1) refl hist(2) new] by blast
  have "v_runs w ''run-5-61626364'' \<noteq> None" using res by (auto simp: result_recorded_def wire_result_def small_result_def)
  then have "arecord w (wire_event EventPipelineStarted 6 [] []) = Some w"
    by (auto simp: arecord_def wire_event_def lifecycleEvent_def)
  moreover have "arecord_all v (es @ [e]) = Option.bind (arecord_all v es) (\<lambda>v'. arecord v' e)" for v es e
    by (induction es arbitrary: v) (simp_all add: Option.bind_assoc)
  ultimately have "arecord_all (view empty_db) again_events = Some w" using w by (simp add: again_events_def)
  then show ?thesis using record_all_view [OF store_ok_empty] by blast
qed

lemma handled_once:
  "accepted s es \<Longrightarrow> \<exists>s'. store_serves s (map (\<lambda>e. ObsE (HandleEvent Background e) None) es) s'"
proof (induction es arbitrary: s)
  case (Cons e es)
  then have "Record no_faults s e = (None, snd (Record no_faults s e))" by (cases "Record no_faults s e") simp
  moreover obtain s' where "store_serves (snd (Record no_faults s e)) (map (\<lambda>e. ObsE (HandleEvent Background e) None) es) s'"
    using Cons by auto
  ultimately show ?case by (auto intro: serves_event)
qed (auto intro: serves_nothing)




end
