(* ===== verification/Spec2Isabelle.thy ===== *)
theory Spec2Isabelle
  imports ArchiveProperties Logging ServerProperties StoreProperties ConsumerProperties StartupProperties Clients Recording RecorderService Redelivery
begin

text \<open>
  Verification library of the Odyssey core agent, a continuous integration agent in Go. A gRPC
  request names a project directory; the agent loads the pipeline declared there, runs its
  stages one after the other and the jobs of a stage concurrently, each job in a Docker
  container, and answers with the tree of results. While it runs it announces what happens on
  an event bus (a Redis stream), from which consumers read; one of them, in the server's own
  process, records the runs in an SQLite database.

  \<^bold>\<open>How effects are modelled.\<close> Pure functions of the code are functions here. Code that calls
  the Docker client, Redis, the event sink, the clock or the context is a \<^emph>\<open>process\<close> (theory
  Process): it has returned, or makes one call and goes on with the answer. A behaviour is the
  trace of calls with their answers; \<^const>\<open>replay\<close> tells which traces are behaviours, and
  properties are stated over all of them, so for every answer of the environment, errors
  included. Answers are not constrained, except by the hypotheses a property names. The jobs of a
  stage are interleaved in every possible way (theory Goroutines). Go errors are values
  (\<^typ>\<open>go_error\<close>), a nil error is \<^const>\<open>None\<close>, a pair of a value and an error a sum. Machine
  integers are 64-bit words where their width matters. A Go map is an association list, whose
  order is the unspecified order of iteration.

  \<^bold>\<open>Theories and the code they model.\<close>

  \<^item> Prelude: integers, durations, errors, decimal numbers, strings and maps of the standard
    library. Unicode: UTF-8, quoting, and the text of an error. Times: calendar dates and RFC 3339. Json: the
    syntax of JSON texts and the escapes of their strings.
  \<^item> Domain (\<open>internal/domain\<close>): pipelines, events, statuses, results and the aggregation of
    statuses, resting on the locale \<open>ranked_worst\<close>.
  \<^item> Process, Goroutines: behaviours, their composition, and their execution in an environment.
  \<^item> EnvFile (\<open>internal/runner/envfile.go\<close>): the variables that steps export.
  \<^item> RunnerContract (\<open>internal/runner/runner.go\<close> and the step events): the locale
    \<open>runner_contract\<close> between orchestrator and runner. Runner (\<open>docker.go\<close>): one job in one
    container. RunnerSafety: the container protocol, the results and events of a job, and the
    interpretation of the contract by the Docker runner.
  \<^item> Paths (\<open>internal/server/path.go\<close> and what it uses of \<open>path/filepath\<close>). Archive,
    ArchiveProperties (\<open>CreateTar\<close> of \<open>internal/common/utils.go\<close>): the walk over a directory tree and
    the entries it writes.
  \<^item> Config (\<open>internal/config\<close>, \<open>ReadToml\<close> of \<open>internal/common/utils.go\<close>): validation and
    translation of a configuration.
  \<^item> Orchestrator (\<open>internal/orchestrator\<close>): runs as step relations, and their execution
    under a scheduler. OrchestratorSafety: properties of runs with the Docker runner.
  \<^item> ProtoMapping (\<open>internal/server/mapping.go\<close>), Server and ServerProperties
    (\<open>internal/server/server.go\<close>): the request and its response.
  \<^item> Bus (\<open>internal/bus\<close>), Consumer, ConsumerSafety, ConsumerProperties
    (\<open>internal/consumer\<close>): publication, and at-least-once consumption with dead letters. EventJson
    (the tags of \<open>internal/domain/event.go\<close>): the envelope of an event, written and read.
  \<^item> Logging (\<open>internal/common/logging.go\<close>): the contexts of a job's calls and the loggers attached to them.
  \<^item> HandlerContract: the locale \<open>event_handler\<close> between the consumer and a service. Store
    (\<open>internal/results/store.go\<close> and its schema), StoreSafety, StoreProperties: the tables,
    their invariant, the refinement to a view by names, and redelivery; the store interprets the
    contract.
  \<^item> Startup, StartupProperties (\<open>cmd/server\<close>, \<open>results.Open\<close>, \<open>NewDockerRunner\<close>): what has
    happened when the server serves. Clients (\<open>cmd/client\<close>, \<open>cmd/events-logger\<close>).
  \<^item> Recording (engine and store), RecorderService (consumer and store) Delivery (engine,
    publisher, envelope, consumer and store) and Redelivery (the same under retries, repetitions and reordering): components together.
    Publisher and consumers agree by the locale \<open>event_codec\<close>, the rows of the tables evolve by the locale \<open>row_log\<close>.

  \<^bold>\<open>What is shown.\<close> Of a job: the container protocol and its single removal, the result on
  every path, the events. Of a run: order, fail-fast, what Passed means, termination, the
  envelope of events, independence from the bus. Of a configuration: validation is exactly
  well-formedness, and loading gives a pipeline that runs to a settled status. Of a request: confinement, the outcome, and
  what the response keeps. Of the database: its invariant, refinement, redelivery. Of the consumer:
  acknowledgement, attempts, dead letters. Of the archive: when it is written, and that unpacking it
  gives the tree back. Of an envelope: its schema, and that decoding gives the event back. Across
  components: the events of a run leave its result in the tables when they are recorded, also after
  their way through the stream, and an acknowledged entry is recorded; retries, repetitions and
  reordering make no difference unless a finish overtakes a start, and then the row stays pending.

  \<^bold>\<open>Fuel.\<close> Everything but the consumer terminates by its recursion. The claim scan and the main loop of the
  consumer go on as long as Redis and the context say so; they take fuel and tell when it runs
  out. Safety properties hold for every fuel; \<open>scan_complete\<close> says that a scan that ended is
  the same for all larger fuel, and that it runs out only after that many pages. The schedulers
  and environments in \<open>Run_exec\<close> need no fuel, because processes are finite on every path.

  \<^bold>\<open>Not modelled, and why.\<close> Log lines: they do not influence results; which logger they go to is in
  theory Logging. The blocks in which \<open>archive/tar\<close> lays out entries: an archive is the list of its
  entries, and the runner, which only passes it on, calls for its bytes. The texts of JSON decoding errors, which only reach log lines.
  TOML decoding, the parsing of SQL, flag parsing, gRPC transport and the generated protobuf code:
  libraries, arguments here or calls. Signals: a context that is done, or a server that stops.
  Of the schema only the tables, their keys and references; read indexes play no part.

  \<^bold>\<open>Bounds.\<close> A JSON text may nest ten thousand deep, as in the library; an envelope nests two. The offset of
  the local time zone must be in whole minutes for an envelope to keep the time, which RFC 3339 cannot express otherwise.
\<close>

section \<open>A run and the results database\<close>

text \<open>
  C5. The results database tells the truth about a run: when the events that a run
  publishes are recorded in that order, whatever the daemon answered and however the jobs
  interleaved, every event is accepted; the row of the run has the status of the result and is
  finished; each job that ran has its stage and its status; each step that ran has the status, exit
  code and duration of its last result; steps and jobs that did not run have no row; and the
  rows of other runs are untouched.
\<close>

theorem recorded_run:
  assumes "Run DockerRunner_Run True ctx p path tr res" and "distinct (pipeline_job_names p)"
    and "store_ok s" and "v_runs (view s) (pr_RunID res) = None"
  shows "accepted s (published (map snd tr)) \<and>
    result_recorded (view (record_all (map (Pair no_faults) (published (map snd tr))) s)) (pipeline_Name p) res \<and>
    other_runs_kept (pr_RunID res) (view s) (view (record_all (map (Pair no_faults) (published (map snd tr))) s))"
  using run_recorded [OF assms] .

theorem recorded_run_witness:
  "\<exists>r. v_runs (view (record_all (map (Pair no_faults) (published (map snd (fst (demo_run 0))))) empty_db))
      (pr_RunID (fst (snd (demo_run 0)))) = Some r \<and>
     ri_status r = status_String (pipelineStatus (fst (snd (demo_run 0))))"
proof -
  have "distinct (pipeline_job_names demo_pipeline)" by code_simp
  moreover have "v_runs (view empty_db) (pr_RunID (fst (snd (demo_run 0)))) = None" by (simp add: find_run_def empty_db_def)
  ultimately show ?thesis
    using recorded_run [OF demo_Run [of 0] _ store_ok_empty] by (auto simp: result_recorded_def simp del: view_simps)
qed

section \<open>The recorder\<close>

text \<open>
  C6. Nothing is lost between the bus and the database: when the recorder
  acknowledges an entry, either the event that the entry carries has just been recorded, after which
  recording it again changes nothing; or the entry has been copied to the dead-letter stream;
  or the stream no longer has it. The tables keep their constraints throughout.
\<close>

theorem acked_recorded:
  assumes "replay (Consumer_Run fuel scan errorText dec opts ctx) (pre @ ObsE (XAck c st g i) r # post) = Some res"
    and "store_ok s" and "store_serves s (pre @ ObsE (XAck c st g i) r # post) s'"
  shows "(recorded_entry dec (delivered (pre @ ObsE (XAck c st g i) r # post)) s pre i \<or> dead_lettered pre i \<or> gone pre i) \<and> store_ok s'"
proof -
  have "acks_ok dec (delivered (pre @ ObsE (XAck c st g i) r # post)) None (pre @ ObsE (XAck c st g i) r # post)"
    using specD [OF Consumer_Run_acks assms(1)] by (simp add: acks_post_def)
  from ack_recorded [OF this assms(3)] show ?thesis using store_serves_ok [OF assms(3,2)] by blast
qed

theorem acked_recorded_witness:
  "recorded_entry demo_decoder (delivered demo_consumer_trace) empty_db (take 5 demo_consumer_trace) ''1-0''"
proof -
  have split: "demo_consumer_trace = take 5 demo_consumer_trace @ ObsE (XAck Background StreamEvents ''recorder'' ''1-0'') None # drop 6 demo_consumer_trace"
    by (simp add: demo_consumer_trace_def)
  have "Record no_faults empty_db demo_event = (None, snd (Record no_faults empty_db demo_event))"
    by (simp add: Record_def demo_event_def recordPipelineStarted_def ExecContext_def no_faults_def)
  then have "store_serves empty_db demo_consumer_trace (snd (Record no_faults empty_db demo_event))"
    unfolding demo_consumer_trace_def
    by (intro serves_other serves_event serves_nothing) simp_all
  then have serves: "store_serves empty_db (take 5 demo_consumer_trace @ ObsE (XAck Background StreamEvents ''recorder'' ''1-0'') None # drop 6 demo_consumer_trace) (snd (Record no_faults empty_db demo_event))"
    by (subst split [symmetric])
  have "replay (Consumer_Run 2 1 demo_error_text demo_decoder demo_opts Background) (take 5 demo_consumer_trace @ ObsE (XAck Background StreamEvents ''recorder'' ''1-0'') None # drop 6 demo_consumer_trace) = Some (Some None)"
    using demo_consumer_replay by (subst split [symmetric])
  from acked_recorded [OF this store_ok_empty serves, folded split]
  have "recorded_entry demo_decoder (delivered demo_consumer_trace) empty_db (take 5 demo_consumer_trace) ''1-0'' \<or>
      dead_lettered (take 5 demo_consumer_trace) ''1-0'' \<or> gone (take 5 demo_consumer_trace) ''1-0''" by blast
  then show ?thesis by (simp add: dead_lettered_def gone_def demo_consumer_trace_def)
qed

end
